(* ===== verification/Qnetd_Prelude.thy ===== *)
theory Qnetd_Prelude
  imports Main "HOL-Library.Word" "HOL-Library.Monad_Syntax"
begin

text \<open>
  Shared vocabulary of the development: the machine integers of the source, the
  result type of code that may run into undefined behaviour, checked reads of
  buffers and arrays, and the generic facts on lists and options that the component
  theories use.
\<close>

subsection \<open>Types\<close>

type_synonym u8 = "8 word"
type_synonym u16 = "16 word"
type_synonym u32 = "32 word"
type_synonym u64 = "64 word"

text \<open>A \<^verbatim>\<open>std::vector<uint8_t>\<close>, or the memory a \<^verbatim>\<open>const uint8_t *\<close> points to.\<close>

type_synonym bytes = "u8 list"

text \<open>
  \<open>None\<close> stands for an operation of undefined behaviour in C++: a read or a write
  outside a buffer or an array, \<open>front()\<close> of an empty vector, or a loop that never
  ends. Every subscript of the source that is not a loop variable is checked, so
  that "the code never reaches undefined behaviour" is a statement about the model.
\<close>

type_synonym 'a ub = "'a option"

named_theorems codec_simps \<open>evaluation of the byte codec on appended buffers\<close>
named_theorems frame_simps \<open>what an operation leaves unchanged\<close>

subsection \<open>Checked access\<close>

definition at_ub :: "'a list \<Rightarrow> nat \<Rightarrow> 'a ub" where
  "at_ub xs i = (if i < length xs then Some (xs ! i) else None)"

definition slice_ub :: "'a list \<Rightarrow> nat \<Rightarrow> nat \<Rightarrow> 'a list ub" where
  "slice_ub xs i n = (if i + n \<le> length xs then Some (take n (drop i xs)) else None)"

lemma at_ub_Some [simp]: "i < length xs \<Longrightarrow> at_ub xs i = Some (xs ! i)"
  by (simp add: at_ub_def)

lemma at_ub_eq_Some_iff: "at_ub xs i = Some x \<longleftrightarrow> i < length xs \<and> x = xs ! i"
  by (auto simp: at_ub_def)

lemma at_ub_append [codec_simps]:
  "at_ub (xs @ ys) i = (if i < length xs then at_ub xs i else at_ub ys (i - length xs))"
  by (auto simp: at_ub_def nth_append)

lemma at_ub_Cons [codec_simps]:
  "at_ub (x # xs) i = (if i = 0 then Some x else at_ub xs (i - 1))"
  by (auto simp: at_ub_def nth_Cons')

lemma at_ub_code [code]:
  "at_ub [] i = None" "at_ub (x # xs) i = (case i of 0 \<Rightarrow> Some x | Suc j \<Rightarrow> at_ub xs j)"
  by (auto simp: at_ub_def split: nat.split)

lemma bind_case [code_unfold]: "Option.bind x f = (case x of None \<Rightarrow> None | Some y \<Rightarrow> f y)"
  by (cases x) simp_all

lemma slice_ub_Some [simp]: "i + n \<le> length xs \<Longrightarrow> slice_ub xs i n = Some (take n (drop i xs))"
  by (simp add: slice_ub_def)

lemma slice_ub_eq_Some_iff:
  "slice_ub xs i n = Some ys \<longleftrightarrow> i + n \<le> length xs \<and> ys = take n (drop i xs)"
  by (auto simp: slice_ub_def)

subsection \<open>Loops over a range that may end in undefined behaviour\<close>

primrec fold_ub :: "('a \<Rightarrow> 's \<Rightarrow> 's ub) \<Rightarrow> 'a list \<Rightarrow> 's \<Rightarrow> 's ub" where
  "fold_ub f [] s = Some s"
| "fold_ub f (x # xs) s = Option.bind (f x s) (fold_ub f xs)"

lemma fold_ub_append: "fold_ub f (xs @ ys) s = Option.bind (fold_ub f xs s) (fold_ub f ys)"
  by (induction xs arbitrary: s) (auto simp: Option.bind_assoc split: Option.bind_split)

text \<open>The rule for a loop invariant: the body is defined and keeps it.\<close>

lemma fold_ub_single: "fold_ub f [x] = f x"
  by (rule ext) (simp split: Option.bind_split)

lemma fold_ub_invariant:
  assumes "P s" and "\<And>x s. x \<in> set xs \<Longrightarrow> P s \<Longrightarrow> \<exists>s'. f x s = Some s' \<and> P s'"
  shows "\<exists>s'. fold_ub f xs s = Some s' \<and> P s'"
  using assms
proof (induction xs arbitrary: s)
  case Nil
  then show ?case by simp
next
  case (Cons x xs)
  from Cons.prems obtain s1 where s1: "f x s = Some s1" "P s1"
    by (metis list.set_intros(1))
  have "\<exists>s'. fold_ub f xs s1 = Some s' \<and> P s'"
    using s1(2) Cons.prems(2) by (intro Cons.IH) auto
  with s1 show ?case by simp
qed

lemma fold_ub_result:
  assumes "fold_ub f xs s = Some t" and "P s"
    and "\<And>x s s'. x \<in> set xs \<Longrightarrow> P s \<Longrightarrow> f x s = Some s' \<Longrightarrow> P s'"
  shows "P t"
  using assms
proof (induction xs arbitrary: s)
  case Nil
  then show ?case by simp
next
  case (Cons x xs)
  from Cons.prems(1) obtain s1 where s1: "f x s = Some s1" "fold_ub f xs s1 = Some t"
    by (auto simp: bind_eq_Some_conv)
  show ?case
    using s1(2) by (rule Cons.IH) (use Cons.prems s1(1) in auto)
qed

subsection \<open>Lists\<close>

lemma find_eq_None_iff: "List.find P xs = None \<longleftrightarrow> (\<forall>x\<in>set xs. \<not> P x)"
  by (induction xs) auto

lemma find_ne_None_iff: "List.find P xs \<noteq> None \<longleftrightarrow> (\<exists>x\<in>set xs. P x)"
  by (auto simp: find_eq_None_iff)

lemma filter_split_le:
  assumes "\<And>x. P x \<Longrightarrow> R x" "\<And>x. Q x \<Longrightarrow> R x" "\<And>x. \<not> (P x \<and> Q x)"
  shows "length (filter P xs) + length (filter Q xs) \<le> length (filter R xs)"
  using assms by (induction xs) auto

lemma find_unique:
  assumes "\<And>x y. x \<in> set xs \<Longrightarrow> y \<in> set xs \<Longrightarrow> P x \<Longrightarrow> P y \<Longrightarrow> x = y"
  shows "List.find P xs = Some z \<longleftrightarrow> z \<in> set xs \<and> P z"
  using assms by (induction xs) auto

lemma length_filter_update:
  "i < length xs \<Longrightarrow> length (filter P (xs[i := y])) + (if P (xs ! i) then 1 else 0) =
     length (filter P xs) + (if P y then 1 else 0)"
proof (induction xs arbitrary: i)
  case (Cons x xs)
  then show ?case using Cons.IH [of "i - 1"] by (cases i) auto
qed simp

lemma map_update_same: "f y = f (xs ! i) \<Longrightarrow> map f (xs[i := y]) = map f xs"
  by (cases "i < length xs") (auto intro!: nth_equalityI simp: nth_list_update)

lemma filter_map_cong:
  assumes "map f xs = map f ys" and "\<And>x y. f x = f y \<Longrightarrow> P x = P y"
  shows "map f (filter P xs) = map f (filter P ys)"
  using assms(1)
proof (induction xs arbitrary: ys)
  case (Cons x xs)
  then obtain y ys' where "ys = y # ys'" "f x = f y" "map f xs = map f ys'" by (cases ys) auto
  with Cons.IH assms(2) [of x y] show ?case by simp
qed simp

lemma nth_update: "xs[i := y] ! j = (if i = j \<and> i < length xs then y else xs ! j)"
  by (cases "i < length xs") (simp_all add: nth_list_update list_update_beyond)

lemma take_drop_append_exact [codec_simps]:
  "length xs = i \<Longrightarrow> length ys = n \<Longrightarrow> take n (drop i (xs @ ys @ zs)) = ys"
  by simp

subsection \<open>Words\<close>

lemma unat_of_nat_small: "n < 2 ^ LENGTH('a) \<Longrightarrow> unat (of_nat n :: 'a::len word) = n"
  by (simp add: unat_of_nat take_bit_nat_eq_self)

end
