(* ===== verification/Wire_Types.thy ===== *)
theory Wire_Types
  imports Qnetd_Prelude
begin

text \<open>
  The protocol types of \<^verbatim>\<open>components/qnetd/tlv.h\<close>, lines 11--146: the enumerations with
  their wire values, \<open>RingId\<close>, \<open>TieBreaker\<close>, \<open>NodeInfo\<close> and \<open>NodeList\<close>.

  An enumeration with a fixed underlying type holds every value of that type. Where
  the source casts an unchecked wire value (\<open>MsgType\<close>, \<open>TlvOpt\<close>, \<open>Algorithm\<close>,
  \<open>NodeState\<close>), the datatype has one more constructor for the values without an
  enumerator; where the cast is behind a range check, it has the enumerators only.
\<close>

subsection \<open>Enumerations\<close>

datatype msg_type =
    MsgType_PREINIT | MsgType_PREINIT_REPLY | MsgType_STARTTLS | MsgType_INIT
  | MsgType_INIT_REPLY | MsgType_SERVER_ERROR | MsgType_SET_OPTION
  | MsgType_SET_OPTION_REPLY | MsgType_ECHO_REQUEST | MsgType_ECHO_REPLY
  | MsgType_NODE_LIST | MsgType_NODE_LIST_REPLY | MsgType_ASK_FOR_VOTE
  | MsgType_ASK_FOR_VOTE_REPLY | MsgType_VOTE_INFO | MsgType_VOTE_INFO_REPLY
  | MsgType_HEURISTICS_CHANGE | MsgType_HEURISTICS_CHANGE_REPLY
  | MsgType_OTHER u16

definition msg_types :: "msg_type list" where
  "msg_types =
     [MsgType_PREINIT, MsgType_PREINIT_REPLY, MsgType_STARTTLS, MsgType_INIT,
      MsgType_INIT_REPLY, MsgType_SERVER_ERROR, MsgType_SET_OPTION,
      MsgType_SET_OPTION_REPLY, MsgType_ECHO_REQUEST, MsgType_ECHO_REPLY,
      MsgType_NODE_LIST, MsgType_NODE_LIST_REPLY, MsgType_ASK_FOR_VOTE,
      MsgType_ASK_FOR_VOTE_REPLY, MsgType_VOTE_INFO, MsgType_VOTE_INFO_REPLY,
      MsgType_HEURISTICS_CHANGE, MsgType_HEURISTICS_CHANGE_REPLY]"

text \<open>The cast \<^verbatim>\<open>MsgType(v)\<close> and the cast \<^verbatim>\<open>uint16_t(t)\<close>.\<close>

definition MsgType_of :: "u16 \<Rightarrow> msg_type" where
  "MsgType_of v = (if unat v < 18 then msg_types ! unat v else MsgType_OTHER v)"

fun MsgType_u16 :: "msg_type \<Rightarrow> u16" where
  "MsgType_u16 MsgType_PREINIT = 0"
| "MsgType_u16 MsgType_PREINIT_REPLY = 1"
| "MsgType_u16 MsgType_STARTTLS = 2"
| "MsgType_u16 MsgType_INIT = 3"
| "MsgType_u16 MsgType_INIT_REPLY = 4"
| "MsgType_u16 MsgType_SERVER_ERROR = 5"
| "MsgType_u16 MsgType_SET_OPTION = 6"
| "MsgType_u16 MsgType_SET_OPTION_REPLY = 7"
| "MsgType_u16 MsgType_ECHO_REQUEST = 8"
| "MsgType_u16 MsgType_ECHO_REPLY = 9"
| "MsgType_u16 MsgType_NODE_LIST = 10"
| "MsgType_u16 MsgType_NODE_LIST_REPLY = 11"
| "MsgType_u16 MsgType_ASK_FOR_VOTE = 12"
| "MsgType_u16 MsgType_ASK_FOR_VOTE_REPLY = 13"
| "MsgType_u16 MsgType_VOTE_INFO = 14"
| "MsgType_u16 MsgType_VOTE_INFO_REPLY = 15"
| "MsgType_u16 MsgType_HEURISTICS_CHANGE = 16"
| "MsgType_u16 MsgType_HEURISTICS_CHANGE_REPLY = 17"
| "MsgType_u16 (MsgType_OTHER v) = v"

datatype tlv_opt =
    TlvOpt_MSG_SEQ_NUMBER | TlvOpt_CLUSTER_NAME | TlvOpt_TLS_SUPPORTED
  | TlvOpt_TLS_CLIENT_CERT_REQUIRED | TlvOpt_SUPPORTED_MESSAGES | TlvOpt_SUPPORTED_OPTIONS
  | TlvOpt_REPLY_ERROR_CODE | TlvOpt_SERVER_MAXIMUM_REQUEST_SIZE
  | TlvOpt_SERVER_MAXIMUM_REPLY_SIZE | TlvOpt_NODE_ID
  | TlvOpt_SUPPORTED_DECISION_ALGORITHMS | TlvOpt_DECISION_ALGORITHM
  | TlvOpt_HEARTBEAT_INTERVAL | TlvOpt_RING_ID | TlvOpt_CONFIG_VERSION
  | TlvOpt_DATA_CENTER_ID | TlvOpt_NODE_STATE | TlvOpt_NODE_INFO | TlvOpt_NODE_LIST_TYPE
  | TlvOpt_VOTE | TlvOpt_QUORATE | TlvOpt_TIE_BREAKER | TlvOpt_HEURISTICS
  | TlvOpt_KEEP_ACTIVE_PARTITION_TIE_BREAKER
  | TlvOpt_OTHER u16

definition tlv_opts :: "tlv_opt list" where
  "tlv_opts =
     [TlvOpt_MSG_SEQ_NUMBER, TlvOpt_CLUSTER_NAME, TlvOpt_TLS_SUPPORTED,
      TlvOpt_TLS_CLIENT_CERT_REQUIRED, TlvOpt_SUPPORTED_MESSAGES, TlvOpt_SUPPORTED_OPTIONS,
      TlvOpt_REPLY_ERROR_CODE, TlvOpt_SERVER_MAXIMUM_REQUEST_SIZE,
      TlvOpt_SERVER_MAXIMUM_REPLY_SIZE, TlvOpt_NODE_ID,
      TlvOpt_SUPPORTED_DECISION_ALGORITHMS, TlvOpt_DECISION_ALGORITHM,
      TlvOpt_HEARTBEAT_INTERVAL, TlvOpt_RING_ID, TlvOpt_CONFIG_VERSION,
      TlvOpt_DATA_CENTER_ID, TlvOpt_NODE_STATE, TlvOpt_NODE_INFO, TlvOpt_NODE_LIST_TYPE,
      TlvOpt_VOTE, TlvOpt_QUORATE, TlvOpt_TIE_BREAKER, TlvOpt_HEURISTICS,
      TlvOpt_KEEP_ACTIVE_PARTITION_TIE_BREAKER]"

definition TlvOpt_of :: "u16 \<Rightarrow> tlv_opt" where
  "TlvOpt_of v = (if unat v < 24 then tlv_opts ! unat v else TlvOpt_OTHER v)"

fun TlvOpt_u16 :: "tlv_opt \<Rightarrow> u16" where
  "TlvOpt_u16 TlvOpt_MSG_SEQ_NUMBER = 0"
| "TlvOpt_u16 TlvOpt_CLUSTER_NAME = 1"
| "TlvOpt_u16 TlvOpt_TLS_SUPPORTED = 2"
| "TlvOpt_u16 TlvOpt_TLS_CLIENT_CERT_REQUIRED = 3"
| "TlvOpt_u16 TlvOpt_SUPPORTED_MESSAGES = 4"
| "TlvOpt_u16 TlvOpt_SUPPORTED_OPTIONS = 5"
| "TlvOpt_u16 TlvOpt_REPLY_ERROR_CODE = 6"
| "TlvOpt_u16 TlvOpt_SERVER_MAXIMUM_REQUEST_SIZE = 7"
| "TlvOpt_u16 TlvOpt_SERVER_MAXIMUM_REPLY_SIZE = 8"
| "TlvOpt_u16 TlvOpt_NODE_ID = 9"
| "TlvOpt_u16 TlvOpt_SUPPORTED_DECISION_ALGORITHMS = 10"
| "TlvOpt_u16 TlvOpt_DECISION_ALGORITHM = 11"
| "TlvOpt_u16 TlvOpt_HEARTBEAT_INTERVAL = 12"
| "TlvOpt_u16 TlvOpt_RING_ID = 13"
| "TlvOpt_u16 TlvOpt_CONFIG_VERSION = 14"
| "TlvOpt_u16 TlvOpt_DATA_CENTER_ID = 15"
| "TlvOpt_u16 TlvOpt_NODE_STATE = 16"
| "TlvOpt_u16 TlvOpt_NODE_INFO = 17"
| "TlvOpt_u16 TlvOpt_NODE_LIST_TYPE = 18"
| "TlvOpt_u16 TlvOpt_VOTE = 19"
| "TlvOpt_u16 TlvOpt_QUORATE = 20"
| "TlvOpt_u16 TlvOpt_TIE_BREAKER = 21"
| "TlvOpt_u16 TlvOpt_HEURISTICS = 22"
| "TlvOpt_u16 TlvOpt_KEEP_ACTIVE_PARTITION_TIE_BREAKER = 23"
| "TlvOpt_u16 (TlvOpt_OTHER v) = v"

datatype tls_supported = TlsSupported_UNSUPPORTED | TlsSupported_SUPPORTED | TlsSupported_REQUIRED

fun TlsSupported_u8 :: "tls_supported \<Rightarrow> u8" where
  "TlsSupported_u8 TlsSupported_UNSUPPORTED = 0"
| "TlsSupported_u8 TlsSupported_SUPPORTED = 1"
| "TlsSupported_u8 TlsSupported_REQUIRED = 2"

text \<open>The casts below stand behind a range check of the decoder (\<^verbatim>\<open>d[0] > 2\<close> and so on),
  so their last branch is the last enumerator.\<close>

definition TlsSupported_of :: "u8 \<Rightarrow> tls_supported" where
  "TlsSupported_of v =
     (if v = 0 then TlsSupported_UNSUPPORTED
      else if v = 1 then TlsSupported_SUPPORTED else TlsSupported_REQUIRED)"

datatype reply_error_code =
    NO_ERROR | UNSUPPORTED_NEEDED_MESSAGE | UNSUPPORTED_NEEDED_OPTION | TLS_REQUIRED
  | UNSUPPORTED_MESSAGE | MESSAGE_TOO_LONG | PREINIT_REQUIRED
  | DOESNT_CONTAIN_REQUIRED_OPTION | UNEXPECTED_MESSAGE | ERROR_DECODING_MSG
  | INTERNAL_ERROR | INIT_REQUIRED | UNSUPPORTED_DECISION_ALGORITHM
  | INVALID_HEARTBEAT_INTERVAL | UNSUPPORTED_DECISION_ALGORITHM_MESSAGE
  | TIE_BREAKER_DIFFERS_FROM_OTHER_NODES | ALGORITHM_DIFFERS_FROM_OTHER_NODES
  | DUPLICATE_NODE_ID | INVALID_CONFIG_NODE_LIST | INVALID_MEMBERSHIP_NODE_LIST

fun ReplyErrorCode_u16 :: "reply_error_code \<Rightarrow> u16" where
  "ReplyErrorCode_u16 NO_ERROR = 0"
| "ReplyErrorCode_u16 UNSUPPORTED_NEEDED_MESSAGE = 1"
| "ReplyErrorCode_u16 UNSUPPORTED_NEEDED_OPTION = 2"
| "ReplyErrorCode_u16 TLS_REQUIRED = 3"
| "ReplyErrorCode_u16 UNSUPPORTED_MESSAGE = 4"
| "ReplyErrorCode_u16 MESSAGE_TOO_LONG = 5"
| "ReplyErrorCode_u16 PREINIT_REQUIRED = 6"
| "ReplyErrorCode_u16 DOESNT_CONTAIN_REQUIRED_OPTION = 7"
| "ReplyErrorCode_u16 UNEXPECTED_MESSAGE = 8"
| "ReplyErrorCode_u16 ERROR_DECODING_MSG = 9"
| "ReplyErrorCode_u16 INTERNAL_ERROR = 10"
| "ReplyErrorCode_u16 INIT_REQUIRED = 11"
| "ReplyErrorCode_u16 UNSUPPORTED_DECISION_ALGORITHM = 12"
| "ReplyErrorCode_u16 INVALID_HEARTBEAT_INTERVAL = 13"
| "ReplyErrorCode_u16 UNSUPPORTED_DECISION_ALGORITHM_MESSAGE = 14"
| "ReplyErrorCode_u16 TIE_BREAKER_DIFFERS_FROM_OTHER_NODES = 15"
| "ReplyErrorCode_u16 ALGORITHM_DIFFERS_FROM_OTHER_NODES = 16"
| "ReplyErrorCode_u16 DUPLICATE_NODE_ID = 17"
| "ReplyErrorCode_u16 INVALID_CONFIG_NODE_LIST = 18"
| "ReplyErrorCode_u16 INVALID_MEMBERSHIP_NODE_LIST = 19"

datatype algorithm =
    Algorithm_TEST | Algorithm_FFSPLIT | Algorithm_TWONODELMS | Algorithm_LMS | Algorithm_OTHER u16

definition Algorithm_of :: "u16 \<Rightarrow> algorithm" where
  "Algorithm_of v =
     (if v = 0 then Algorithm_TEST else if v = 1 then Algorithm_FFSPLIT
      else if v = 2 then Algorithm_TWONODELMS else if v = 3 then Algorithm_LMS
      else Algorithm_OTHER v)"

fun Algorithm_u16 :: "algorithm \<Rightarrow> u16" where
  "Algorithm_u16 Algorithm_TEST = 0"
| "Algorithm_u16 Algorithm_FFSPLIT = 1"
| "Algorithm_u16 Algorithm_TWONODELMS = 2"
| "Algorithm_u16 Algorithm_LMS = 3"
| "Algorithm_u16 (Algorithm_OTHER v) = v"

datatype node_state =
    NodeState_NOT_SET | NodeState_MEMBER | NodeState_DEAD | NodeState_LEAVING | NodeState_OTHER u8

definition NodeState_of :: "u8 \<Rightarrow> node_state" where
  "NodeState_of v =
     (if v = 0 then NodeState_NOT_SET else if v = 1 then NodeState_MEMBER
      else if v = 2 then NodeState_DEAD else if v = 3 then NodeState_LEAVING
      else NodeState_OTHER v)"

fun NodeState_u8 :: "node_state \<Rightarrow> u8" where
  "NodeState_u8 NodeState_NOT_SET = 0"
| "NodeState_u8 NodeState_MEMBER = 1"
| "NodeState_u8 NodeState_DEAD = 2"
| "NodeState_u8 NodeState_LEAVING = 3"
| "NodeState_u8 (NodeState_OTHER v) = v"

datatype node_list_type = INITIAL_CONFIG | CHANGED_CONFIG | MEMBERSHIP | QUORUM

definition NodeListType_of :: "u8 \<Rightarrow> node_list_type" where
  "NodeListType_of v =
     (if v = 0 then INITIAL_CONFIG else if v = 1 then CHANGED_CONFIG
      else if v = 2 then MEMBERSHIP else QUORUM)"

fun NodeListType_u8 :: "node_list_type \<Rightarrow> u8" where
  "NodeListType_u8 INITIAL_CONFIG = 0"
| "NodeListType_u8 CHANGED_CONFIG = 1"
| "NodeListType_u8 MEMBERSHIP = 2"
| "NodeListType_u8 QUORUM = 3"

datatype vote =
    Vote_UNDEFINED | Vote_ACK | Vote_NACK | Vote_ASK_LATER | Vote_WAIT_FOR_REPLY | Vote_NO_CHANGE

definition Vote_of :: "u8 \<Rightarrow> vote" where
  "Vote_of v =
     (if v = 0 then Vote_UNDEFINED else if v = 1 then Vote_ACK else if v = 2 then Vote_NACK
      else if v = 3 then Vote_ASK_LATER else if v = 4 then Vote_WAIT_FOR_REPLY
      else Vote_NO_CHANGE)"

fun Vote_u8 :: "vote \<Rightarrow> u8" where
  "Vote_u8 Vote_UNDEFINED = 0"
| "Vote_u8 Vote_ACK = 1"
| "Vote_u8 Vote_NACK = 2"
| "Vote_u8 Vote_ASK_LATER = 3"
| "Vote_u8 Vote_WAIT_FOR_REPLY = 4"
| "Vote_u8 Vote_NO_CHANGE = 5"

datatype heuristics = Heuristics_UNDEFINED | Heuristics_PASS | Heuristics_FAIL

definition Heuristics_of :: "u8 \<Rightarrow> heuristics" where
  "Heuristics_of v =
     (if v = 0 then Heuristics_UNDEFINED else if v = 1 then Heuristics_PASS else Heuristics_FAIL)"

fun Heuristics_u8 :: "heuristics \<Rightarrow> u8" where
  "Heuristics_u8 Heuristics_UNDEFINED = 0"
| "Heuristics_u8 Heuristics_PASS = 1"
| "Heuristics_u8 Heuristics_FAIL = 2"

datatype tie_breaker_mode = LOWEST | HIGHEST | NODE_ID

definition TieBreakerMode_of :: "u8 \<Rightarrow> tie_breaker_mode" where
  "TieBreakerMode_of v = (if v = 1 then LOWEST else if v = 2 then HIGHEST else NODE_ID)"

fun TieBreakerMode_u8 :: "tie_breaker_mode \<Rightarrow> u8" where
  "TieBreakerMode_u8 LOWEST = 1"
| "TieBreakerMode_u8 HIGHEST = 2"
| "TieBreakerMode_u8 NODE_ID = 3"

subsection \<open>Structures\<close>

record ring_id =
  ring_node_id :: u32
  ring_seq :: u64

definition RingId :: ring_id where
  "RingId = \<lparr>ring_node_id = 0, ring_seq = 0\<rparr>"

text \<open>\<open>RingId::operator==\<close> compares both fields, so it is equality of records;
  \<open>operator!=\<close> is its negation. \<open>TieBreaker::operator==\<close> is coarser than equality.\<close>

definition ring_id_eq :: "ring_id \<Rightarrow> ring_id \<Rightarrow> bool" where
  "ring_id_eq r q \<longleftrightarrow> ring_node_id r = ring_node_id q \<and> ring_seq r = ring_seq q"

record tie_breaker =
  tb_mode :: tie_breaker_mode
  tb_node_id :: u32

definition TieBreaker :: tie_breaker where
  "TieBreaker = \<lparr>tb_mode = LOWEST, tb_node_id = 0\<rparr>"

definition tie_breaker_eq :: "tie_breaker \<Rightarrow> tie_breaker \<Rightarrow> bool" where
  "tie_breaker_eq t u \<longleftrightarrow>
     (if tb_mode t \<noteq> tb_mode u then False
      else tb_mode t \<noteq> NODE_ID \<or> tb_node_id t = tb_node_id u)"

record node_info =
  ni_node_id :: u32
  ni_data_center_id :: u32
  ni_state :: node_state

definition NodeInfo :: node_info where
  "NodeInfo = \<lparr>ni_node_id = 0, ni_data_center_id = 0, ni_state = NodeState_NOT_SET\<rparr>"

text \<open>\<open>NodeList\<close> wraps one vector; \<open>empty\<close>, \<open>size\<close> and \<open>clear\<close> are those of the list.\<close>

type_synonym node_list = "node_info list"

definition node_list_find :: "node_list \<Rightarrow> u32 \<Rightarrow> node_info option" where
  "node_list_find nodes nid = List.find (\<lambda>n. ni_node_id n = nid) nodes"

definition node_ids :: "node_list \<Rightarrow> u32 set" where
  "node_ids nodes = ni_node_id ` set nodes"

subsection \<open>Facts\<close>

lemma msg_types_wire_values: "map MsgType_u16 msg_types = map of_nat [0..<18]"
  by (simp add: msg_types_def upt_rec)

lemma tlv_opts_wire_values: "map TlvOpt_u16 tlv_opts = map of_nat [0..<24]"
  by (simp add: tlv_opts_def upt_rec)

lemma length_msg_types [simp]: "length msg_types = 18"
  by (simp add: msg_types_def)

lemma length_tlv_opts [simp]: "length tlv_opts = 24"
  by (simp add: tlv_opts_def)

lemma msg_types_wire: "n < 18 \<Longrightarrow> MsgType_u16 (msg_types ! n) = of_nat n"
  using arg_cong [OF msg_types_wire_values, of "\<lambda>xs. xs ! n"] by (simp del: upt_rec_numeral)

lemma tlv_opts_wire: "n < 24 \<Longrightarrow> TlvOpt_u16 (tlv_opts ! n) = of_nat n"
  using arg_cong [OF tlv_opts_wire_values, of "\<lambda>xs. xs ! n"] by (simp del: upt_rec_numeral)

lemma MsgType_u16_of [simp]: "MsgType_u16 (MsgType_of v) = v"
  by (simp add: MsgType_of_def msg_types_wire)

lemma TlvOpt_u16_of [simp]: "TlvOpt_u16 (TlvOpt_of v) = v"
  by (simp add: TlvOpt_of_def tlv_opts_wire)

lemma Algorithm_u16_of [simp]: "Algorithm_u16 (Algorithm_of v) = v"
  by (simp add: Algorithm_of_def)

lemma NodeState_u8_of [simp]: "NodeState_u8 (NodeState_of v) = v"
  by (simp add: NodeState_of_def)

text \<open>Evaluation of the casts on wire values.\<close>

lemma TlvOpt_of_numerals [simp]:
  "TlvOpt_of 0 = TlvOpt_MSG_SEQ_NUMBER"
  "TlvOpt_of 1 = TlvOpt_CLUSTER_NAME"
  "TlvOpt_of 2 = TlvOpt_TLS_SUPPORTED"
  "TlvOpt_of 3 = TlvOpt_TLS_CLIENT_CERT_REQUIRED"
  "TlvOpt_of 4 = TlvOpt_SUPPORTED_MESSAGES"
  "TlvOpt_of 5 = TlvOpt_SUPPORTED_OPTIONS"
  "TlvOpt_of 6 = TlvOpt_REPLY_ERROR_CODE"
  "TlvOpt_of 7 = TlvOpt_SERVER_MAXIMUM_REQUEST_SIZE"
  "TlvOpt_of 8 = TlvOpt_SERVER_MAXIMUM_REPLY_SIZE"
  "TlvOpt_of 9 = TlvOpt_NODE_ID"
  "TlvOpt_of 10 = TlvOpt_SUPPORTED_DECISION_ALGORITHMS"
  "TlvOpt_of 11 = TlvOpt_DECISION_ALGORITHM"
  "TlvOpt_of 12 = TlvOpt_HEARTBEAT_INTERVAL"
  "TlvOpt_of 13 = TlvOpt_RING_ID"
  "TlvOpt_of 14 = TlvOpt_CONFIG_VERSION"
  "TlvOpt_of 15 = TlvOpt_DATA_CENTER_ID"
  "TlvOpt_of 16 = TlvOpt_NODE_STATE"
  "TlvOpt_of 17 = TlvOpt_NODE_INFO"
  "TlvOpt_of 18 = TlvOpt_NODE_LIST_TYPE"
  "TlvOpt_of 19 = TlvOpt_VOTE"
  "TlvOpt_of 20 = TlvOpt_QUORATE"
  "TlvOpt_of 21 = TlvOpt_TIE_BREAKER"
  "TlvOpt_of 22 = TlvOpt_HEURISTICS"
  "TlvOpt_of 23 = TlvOpt_KEEP_ACTIVE_PARTITION_TIE_BREAKER"
  by (simp_all add: TlvOpt_of_def tlv_opts_def)

lemma MsgType_of_numerals [simp]:
  "MsgType_of 0 = MsgType_PREINIT"
  "MsgType_of 1 = MsgType_PREINIT_REPLY"
  "MsgType_of 2 = MsgType_STARTTLS"
  "MsgType_of 3 = MsgType_INIT"
  "MsgType_of 4 = MsgType_INIT_REPLY"
  "MsgType_of 5 = MsgType_SERVER_ERROR"
  "MsgType_of 6 = MsgType_SET_OPTION"
  "MsgType_of 7 = MsgType_SET_OPTION_REPLY"
  "MsgType_of 8 = MsgType_ECHO_REQUEST"
  "MsgType_of 9 = MsgType_ECHO_REPLY"
  "MsgType_of 10 = MsgType_NODE_LIST"
  "MsgType_of 11 = MsgType_NODE_LIST_REPLY"
  "MsgType_of 12 = MsgType_ASK_FOR_VOTE"
  "MsgType_of 13 = MsgType_ASK_FOR_VOTE_REPLY"
  "MsgType_of 14 = MsgType_VOTE_INFO"
  "MsgType_of 15 = MsgType_VOTE_INFO_REPLY"
  "MsgType_of 16 = MsgType_HEURISTICS_CHANGE"
  "MsgType_of 17 = MsgType_HEURISTICS_CHANGE_REPLY"
  by (simp_all add: MsgType_of_def msg_types_def)

text \<open>The other direction: reading back the wire value of an enumerator.\<close>

lemma MsgType_of_u16: "t \<in> set msg_types \<Longrightarrow> MsgType_of (MsgType_u16 t) = t"
  by (auto simp: msg_types_def MsgType_of_def)

lemma TlvOpt_of_u16: "t \<in> set tlv_opts \<Longrightarrow> TlvOpt_of (TlvOpt_u16 t) = t"
  by (auto simp: tlv_opts_def TlvOpt_of_def)

lemma TlsSupported_of_u8 [simp]: "TlsSupported_of (TlsSupported_u8 t) = t"
  by (cases t) (simp_all add: TlsSupported_of_def)

lemma NodeListType_of_u8 [simp]: "NodeListType_of (NodeListType_u8 t) = t"
  by (cases t) (simp_all add: NodeListType_of_def)

lemma Vote_of_u8 [simp]: "Vote_of (Vote_u8 v) = v"
  by (cases v) (simp_all add: Vote_of_def)

lemma Heuristics_of_u8 [simp]: "Heuristics_of (Heuristics_u8 h) = h"
  by (cases h) (simp_all add: Heuristics_of_def)

lemma TieBreakerMode_of_u8 [simp]: "TieBreakerMode_of (TieBreakerMode_u8 t) = t"
  by (cases t) (simp_all add: TieBreakerMode_of_def)

lemma ring_id_eq_iff [simp]: "ring_id_eq r q \<longleftrightarrow> r = q"
  by (auto simp: ring_id_eq_def)

lemma tie_breaker_eq_refl [simp]: "tie_breaker_eq t t"
  by (simp add: tie_breaker_eq_def)

lemma tie_breaker_eq_sym: "tie_breaker_eq t u \<Longrightarrow> tie_breaker_eq u t"
  by (auto simp: tie_breaker_eq_def split: if_splits)

lemma tie_breaker_eq_trans: "tie_breaker_eq t u \<Longrightarrow> tie_breaker_eq u v \<Longrightarrow> tie_breaker_eq t v"
  by (auto simp: tie_breaker_eq_def split: if_splits)

lemma node_list_find_None_iff: "node_list_find nodes nid = None \<longleftrightarrow> nid \<notin> node_ids nodes"
  by (auto simp: node_list_find_def node_ids_def find_eq_None_iff)

lemma node_list_find_Some: "node_list_find nodes nid = Some n \<Longrightarrow> n \<in> set nodes \<and> ni_node_id n = nid"
  by (auto simp: node_list_find_def find_Some_iff)

lemma node_ids_simps [simp]:
  "node_ids [] = {}" "node_ids (n # ns) = insert (ni_node_id n) (node_ids ns)"
  by (auto simp: node_ids_def)

end
