(* ===== verification/Tlv.thy ===== *)
theory Tlv
  imports Wire_Types
begin

unbundle bit_operations_syntax

text \<open>
  The byte level of \<^verbatim>\<open>components/qnetd/tlv.h\<close>, lines 148--275: the big-endian helpers, the
  option writer \<open>TlvWriter\<close> and the option iterator \<open>TlvIterator\<close>.

  A write appends to a buffer and returns it. A read takes the buffer and an offset
  and is checked against the end of the buffer. The locale \<open>be_codec\<close> is the contract
  between the helpers and everything above them; \<open>parse_tlvs\<close> is the specification
  the iterator refines.
\<close>

subsection \<open>Big-endian helpers\<close>

definition be_put16 :: "bytes \<Rightarrow> u16 \<Rightarrow> bytes" where
  "be_put16 b v = b @ [ucast (drop_bit 8 v), ucast v]"

definition be_put32 :: "bytes \<Rightarrow> u32 \<Rightarrow> bytes" where
  "be_put32 b v =
     b @ [ucast (drop_bit 24 v), ucast (drop_bit 16 v), ucast (drop_bit 8 v), ucast v]"

definition be_put64 :: "bytes \<Rightarrow> u64 \<Rightarrow> bytes" where
  "be_put64 b v = be_put32 (be_put32 b (ucast (drop_bit 32 v))) (ucast v)"

definition be_get16 :: "bytes \<Rightarrow> nat \<Rightarrow> u16 ub" where
  "be_get16 b p = do {
     b0 \<leftarrow> at_ub b p;
     b1 \<leftarrow> at_ub b (p + 1);
     Some (push_bit 8 (ucast b0) OR ucast b1)
   }"

definition be_get32 :: "bytes \<Rightarrow> nat \<Rightarrow> u32 ub" where
  "be_get32 b p = do {
     b0 \<leftarrow> at_ub b p;
     b1 \<leftarrow> at_ub b (p + 1);
     b2 \<leftarrow> at_ub b (p + 2);
     b3 \<leftarrow> at_ub b (p + 3);
     Some (push_bit 24 (ucast b0) OR push_bit 16 (ucast b1) OR push_bit 8 (ucast b2) OR ucast b3)
   }"

definition be_get64 :: "bytes \<Rightarrow> nat \<Rightarrow> u64 ub" where
  "be_get64 b p = do {
     hi \<leftarrow> be_get32 b p;
     lo \<leftarrow> be_get32 b (p + 4);
     Some (push_bit 32 (ucast hi) OR ucast lo)
   }"

subsection \<open>The contract of a fixed-width codec\<close>

locale be_codec =
  fixes width :: nat
    and put :: "bytes \<Rightarrow> 'v \<Rightarrow> bytes"
    and get :: "bytes \<Rightarrow> nat \<Rightarrow> 'v ub"
  assumes put_appends: "put b v = b @ put [] v"
    and length_put_Nil: "length (put [] v) = width"
    and get_put_Nil: "get (put [] v) 0 = Some v"
    and get_local: "get (xs @ ys) (length xs + i) = get ys i"
    and get_take: "i + width \<le> length xs \<Longrightarrow> get (xs @ ys) i = get xs i"
    and get_defined: "get b i \<noteq> None \<longleftrightarrow> i + width \<le> length b"
    and put_get: "get b i = Some v \<Longrightarrow> take width (drop i b) = put [] v"
begin

lemma length_put [simp]: "length (put b v) = length b + width"
  by (subst put_appends) (simp add: length_put_Nil)

lemma get_put_at:
  assumes "length b = i"
  shows "get (put b v @ ys) i = Some v"
proof -
  have "get (put b v @ ys) i = get (b @ (put [] v @ ys)) (length b + 0)"
    using assms by (subst put_appends) simp
  also have "\<dots> = get (put [] v @ ys) 0"
    by (rule get_local)
  also have "\<dots> = Some v"
    by (simp add: get_take length_put_Nil get_put_Nil)
  finally show ?thesis .
qed

lemma put_inject: "put [] v = put [] w \<longleftrightarrow> v = w"
  by (metis get_put_Nil option.inject)

lemma get_window:
  assumes "i + width \<le> n" and "n \<le> length b"
  shows "get (take n b) i = get b i"
  using get_take [of i "take n b" "drop n b"] assms by simp

text \<open>A run of values written one after the other is read back element by element.\<close>

lemma get_foldl_put:
  "k < length vs \<Longrightarrow> get (foldl put b vs) (length b + width * k) = Some (vs ! k)"
proof (induction vs arbitrary: b k)
  case Nil
  then show ?case by simp
next
  case (Cons v vs)
  have ext: "\<exists>ys. foldl put c us = c @ ys" for c us
    by (induction us arbitrary: c) (auto, metis append.assoc put_appends)
  show ?case
  proof (cases k)
    case 0
    obtain ys where "foldl put (put b v) vs = put b v @ ys" using ext by blast
    with 0 show ?thesis by (simp add: get_put_at)
  next
    case (Suc j)
    with Cons.prems Cons.IH [of j "put b v"] show ?thesis by (simp add: algebra_simps)
  qed
qed

end

lemma at_ub_eq_None_iff: "at_ub xs i = None \<longleftrightarrow> length xs \<le> i"
  by (auto simp: at_ub_def)

lemma take_drop_2: "i + 2 \<le> length b \<Longrightarrow> take 2 (drop i b) = [b ! i, b ! (i + 1)]"
  by (rule nth_equalityI) (auto simp: nth_Cons' numeral_2_eq_2 less_Suc_eq)

lemma take_drop_4:
  "i + 4 \<le> length b \<Longrightarrow> take 4 (drop i b) = [b ! i, b ! (i + 1), b ! (i + 2), b ! (i + 3)]"
  by (rule nth_equalityI) (auto simp: nth_Cons' numeral_eq_Suc less_Suc_eq)

lemma u16_split:
  "push_bit 8 (ucast (ucast (drop_bit 8 v) :: u8)) OR ucast (ucast v :: u8) = (v :: u16)"
  by (rule bit_word_eqI) (auto simp: bit_simps)

lemma u16_bytes:
  fixes a b :: u8
  defines "w \<equiv> push_bit 8 (ucast a) OR ucast b :: u16"
  shows "ucast (drop_bit 8 w) = a" "ucast w = b"
  by (rule bit_word_eqI; auto simp: w_def bit_simps dest: bit_imp_le_length)+

lemma u32_split:
  "push_bit 24 (ucast (ucast (drop_bit 24 v) :: u8)) OR push_bit 16 (ucast (ucast (drop_bit 16 v) :: u8))
    OR push_bit 8 (ucast (ucast (drop_bit 8 v) :: u8)) OR ucast (ucast v :: u8) = (v :: u32)"
proof (rule bit_word_eqI)
  fix n
  assume "n < LENGTH(32)"
  then consider "n < 8" | "8 \<le> n" "n < 16" | "16 \<le> n" "n < 24" | "24 \<le> n" "n < 32"
    by force
  then show "bit (push_bit 24 (ucast (ucast (drop_bit 24 v) :: u8) :: u32)
      OR push_bit 16 (ucast (ucast (drop_bit 16 v) :: u8))
      OR push_bit 8 (ucast (ucast (drop_bit 8 v) :: u8)) OR ucast (ucast v :: u8)) n = bit v n"
    by cases (auto simp: bit_simps)
qed

lemma u32_bytes:
  fixes a b c d :: u8
  defines "w \<equiv> push_bit 24 (ucast a) OR push_bit 16 (ucast b) OR push_bit 8 (ucast c) OR ucast d :: u32"
  shows "ucast (drop_bit 24 w) = a" "ucast (drop_bit 16 w) = b" "ucast (drop_bit 8 w) = c" "ucast w = d"
  by (rule bit_word_eqI; auto simp: w_def bit_simps dest: bit_imp_le_length)+

lemma u64_split: "push_bit 32 (ucast (ucast (drop_bit 32 v) :: u32)) OR ucast (ucast v :: u32) = (v :: u64)"
  by (rule bit_word_eqI) (auto simp: bit_simps)

lemma u64_words:
  fixes a b :: u32
  defines "w \<equiv> push_bit 32 (ucast a) OR ucast b :: u64"
  shows "ucast (drop_bit 32 w) = a" "ucast w = b"
  by (rule bit_word_eqI; auto simp: w_def bit_simps dest: bit_imp_le_length)+

interpretation be16: be_codec 2 be_put16 be_get16
proof unfold_locales
  fix b xs ys :: bytes and i and v :: u16
  show "be_put16 b v = b @ be_put16 [] v" and "length (be_put16 [] v) = 2"
    by (simp_all add: be_put16_def)
  show "be_get16 (be_put16 [] v) 0 = Some v"
    by (simp add: be_put16_def be_get16_def codec_simps u16_split)
  show "be_get16 (xs @ ys) (length xs + i) = be_get16 ys i"
    by (simp add: be_get16_def at_ub_append)
  show "be_get16 (xs @ ys) i = be_get16 xs i" if "i + 2 \<le> length xs"
    using that by (simp add: be_get16_def nth_append)
  show "be_get16 b i \<noteq> None \<longleftrightarrow> i + 2 \<le> length b"
    by (auto simp: be_get16_def bind_eq_None_conv at_ub_eq_Some_iff at_ub_eq_None_iff
        simp flip: not_le split: Option.bind_splits)
  show "take 2 (drop i b) = be_put16 [] v" if "be_get16 b i = Some v"
  proof -
    from that have len: "i + 2 \<le> length b" and v: "v = push_bit 8 (ucast (b ! i)) OR ucast (b ! (i + 1))"
      by (auto simp: be_get16_def bind_eq_Some_conv at_ub_eq_Some_iff)
    show ?thesis
      by (simp only: take_drop_2 [OF len] v be_put16_def u16_bytes append_Nil)
  qed
qed

interpretation be32: be_codec 4 be_put32 be_get32
proof unfold_locales
  fix b xs ys :: bytes and i and v :: u32
  show "be_put32 b v = b @ be_put32 [] v" and "length (be_put32 [] v) = 4"
    by (simp_all add: be_put32_def)
  show "be_get32 (be_put32 [] v) 0 = Some v"
    by (simp add: be_put32_def be_get32_def codec_simps u32_split)
  show "be_get32 (xs @ ys) (length xs + i) = be_get32 ys i"
    by (simp add: be_get32_def at_ub_append)
  show "be_get32 (xs @ ys) i = be_get32 xs i" if "i + 4 \<le> length xs"
    using that by (simp add: be_get32_def nth_append)
  show "be_get32 b i \<noteq> None \<longleftrightarrow> i + 4 \<le> length b"
    by (auto simp: be_get32_def bind_eq_None_conv at_ub_eq_Some_iff at_ub_eq_None_iff
        simp flip: not_le split: Option.bind_splits)
  show "take 4 (drop i b) = be_put32 [] v" if "be_get32 b i = Some v"
  proof -
    from that have len: "i + 4 \<le> length b"
      and v: "v = push_bit 24 (ucast (b ! i)) OR push_bit 16 (ucast (b ! (i + 1)))
        OR push_bit 8 (ucast (b ! (i + 2))) OR ucast (b ! (i + 3))"
      by (auto simp: be_get32_def bind_eq_Some_conv at_ub_eq_Some_iff)
    show ?thesis
      by (simp only: take_drop_4 [OF len] v be_put32_def u32_bytes append_Nil)
  qed
qed

lemma take_drop_8: "take 8 (drop i b) = take 4 (drop i b) @ take 4 (drop (i + 4) b)"
  by (metis add.commute drop_drop numeral_Bit0 take_add)

interpretation be64: be_codec 8 be_put64 be_get64
proof unfold_locales
  fix b xs ys :: bytes and i and v :: u64
  show "be_put64 b v = b @ be_put64 [] v" and "length (be_put64 [] v) = 8"
    by (simp_all add: be_put64_def be_put32_def)
  have "be_get32 (be_put64 [] v) 0 = Some (ucast (drop_bit 32 v))"
    unfolding be_put64_def by (subst be32.put_appends) (simp add: be32.get_put_at)
  moreover have "be_get32 (be_put64 [] v) 4 = Some (ucast v)"
    unfolding be_put64_def using be32.get_put_at [of "be_put32 [] (ucast (drop_bit 32 v))" 4 _ "[]"] by simp
  ultimately show "be_get64 (be_put64 [] v) 0 = Some v"
    by (simp add: be_get64_def u64_split)
  show "be_get64 (xs @ ys) (length xs + i) = be_get64 ys i"
    by (simp add: be_get64_def be32.get_local add.assoc)
  show "be_get64 (xs @ ys) i = be_get64 xs i" if "i + 8 \<le> length xs"
    using that by (simp add: be_get64_def be32.get_take)
  show "be_get64 b i \<noteq> None \<longleftrightarrow> i + 8 \<le> length b"
    using be32.get_defined [of b i] be32.get_defined [of b "i + 4"]
    by (auto simp: be_get64_def split: Option.bind_splits)
  show "take 8 (drop i b) = be_put64 [] v" if v: "be_get64 b i = Some v"
  proof -
    from v obtain hi lo where "be_get32 b i = Some hi" "be_get32 b (i + 4) = Some lo"
      and "v = push_bit 32 (ucast hi) OR ucast lo"
      by (auto simp: be_get64_def bind_eq_Some_conv)
    moreover from this have "ucast (drop_bit 32 v) = hi" "ucast v = lo"
      by (simp_all only: u64_words)
    ultimately show ?thesis
      by (simp only: take_drop_8 be32.put_get be_put64_def be32.put_appends [of "be_put32 [] hi" lo])
  qed
qed

subsection \<open>TlvWriter\<close>

text \<open>The writer holds a reference to the buffer; here each method takes the buffer and
  returns it. \<open>add\<close> appends type, length and \<open>len\<close> bytes from \<open>data\<close>.\<close>

definition tlv_add :: "bytes \<Rightarrow> tlv_opt \<Rightarrow> bytes \<Rightarrow> u16 \<Rightarrow> bytes" where
  "tlv_add buf opt data len =
     be_put16 (be_put16 buf (TlvOpt_u16 opt)) len @ take (unat len) data"

definition add_u8 :: "bytes \<Rightarrow> tlv_opt \<Rightarrow> u8 \<Rightarrow> bytes" where
  "add_u8 buf opt v = tlv_add buf opt [v] 1"

definition add_u16 :: "bytes \<Rightarrow> tlv_opt \<Rightarrow> u16 \<Rightarrow> bytes" where
  "add_u16 buf opt v = tlv_add buf opt [ucast (drop_bit 8 v), ucast v] 2"

definition add_u32 :: "bytes \<Rightarrow> tlv_opt \<Rightarrow> u32 \<Rightarrow> bytes" where
  "add_u32 buf opt v =
     tlv_add buf opt
       [ucast (drop_bit 24 v), ucast (drop_bit 16 v), ucast (drop_bit 8 v), ucast v] 4"

definition add_u64 :: "bytes \<Rightarrow> tlv_opt \<Rightarrow> u64 \<Rightarrow> bytes" where
  "add_u64 buf opt v =
     tlv_add buf opt (map (\<lambda>i. ucast (drop_bit (56 - 8 * i) v)) [0..<8]) 8"

text \<open>\<open>add_string\<close> truncates the length to 16 bits, as the cast \<^verbatim>\<open>uint16_t(len)\<close> does.\<close>

definition add_string :: "bytes \<Rightarrow> tlv_opt \<Rightarrow> bytes \<Rightarrow> bytes" where
  "add_string buf opt str = tlv_add buf opt str (of_nat (length str))"

definition add_u16_array :: "bytes \<Rightarrow> tlv_opt \<Rightarrow> u16 list \<Rightarrow> nat \<Rightarrow> bytes" where
  "add_u16_array buf opt arr n =
     foldl be_put16 (be_put16 (be_put16 buf (TlvOpt_u16 opt)) (of_nat (n * 2))) (take n arr)"

definition add_ring_id :: "bytes \<Rightarrow> ring_id \<Rightarrow> bytes" where
  "add_ring_id buf r =
     tlv_add buf TlvOpt_RING_ID
       ([ucast (drop_bit 24 (ring_node_id r)), ucast (drop_bit 16 (ring_node_id r)),
         ucast (drop_bit 8 (ring_node_id r)), ucast (ring_node_id r)]
        @ map (\<lambda>i. ucast (drop_bit (56 - 8 * i) (ring_seq r))) [0..<8]) 12"

definition add_tie_breaker :: "bytes \<Rightarrow> tie_breaker \<Rightarrow> bytes" where
  "add_tie_breaker buf tb =
     (let nid = (if tb_mode tb = NODE_ID then tb_node_id tb else 0)
      in tlv_add buf TlvOpt_TIE_BREAKER
           [TieBreakerMode_u8 (tb_mode tb), ucast (drop_bit 24 nid), ucast (drop_bit 16 nid),
            ucast (drop_bit 8 nid), ucast nid] 5)"

definition add_node_info :: "bytes \<Rightarrow> node_info \<Rightarrow> bytes" where
  "add_node_info buf ni =
     (let sub = add_u32 [] TlvOpt_NODE_ID (ni_node_id ni);
          sub = (if ni_data_center_id ni \<noteq> 0
                 then add_u32 sub TlvOpt_DATA_CENTER_ID (ni_data_center_id ni) else sub);
          sub = (if ni_state ni \<noteq> NodeState_NOT_SET
                 then add_u8 sub TlvOpt_NODE_STATE (NodeState_u8 (ni_state ni)) else sub)
      in tlv_add buf TlvOpt_NODE_INFO sub (of_nat (length sub)))"

subsection \<open>TlvIterator\<close>

record tlv_iterator =
  it_p :: bytes
  it_len :: nat
  it_pos :: nat
  it_cur_type :: u16
  it_cur_len :: u16
  it_first :: bool

definition TlvIterator :: "bytes \<Rightarrow> nat \<Rightarrow> tlv_iterator" where
  "TlvIterator payload len =
     \<lparr>it_p = payload, it_len = len, it_pos = 0, it_cur_type = 0, it_cur_len = 0, it_first = True\<rparr>"

text \<open>\<open>next()\<close>: 1 = positioned on an option, 0 = clean end, -1 = malformed.\<close>

definition tlv_next :: "tlv_iterator \<Rightarrow> (int \<times> tlv_iterator) ub" where
  "tlv_next it =
     (let next_pos = (if it_first it then 0 else it_pos it + 4 + unat (it_cur_len it));
          it = it\<lparr>it_first := False\<rparr>
      in if next_pos = it_len it then Some (0, it)
         else if next_pos + 4 > it_len it then Some (-1, it)
         else do {
           t \<leftarrow> be_get16 (it_p it) next_pos;
           l \<leftarrow> be_get16 (it_p it) (next_pos + 2);
           let it = it\<lparr>it_pos := next_pos, it_cur_type := t, it_cur_len := l\<rparr>;
           Some (if it_pos it + 4 + unat (it_cur_len it) > it_len it then -1 else 1, it)
         })"

text \<open>\<open>data()\<close> points at the value of the current option. The model gives the decoder the
  \<open>length()\<close> bytes of that option and no more, so a read past the option's own value
  is as undefined as a read past the payload.\<close>

definition tlv_data :: "tlv_iterator \<Rightarrow> bytes ub" where
  "tlv_data it = slice_ub (it_p it) (it_pos it + 4) (unat (it_cur_len it))"

lemma tlv_next_advances:
  assumes "tlv_next it = Some (r, it')" and "0 < r"
  shows "(if it_first it' then Suc (it_len it') else it_len it' - it_pos it')
    < (if it_first it then Suc (it_len it) else it_len it - it_pos it)"
  using assms by (auto simp: tlv_next_def Let_def bind_eq_Some_conv split: if_splits)

text \<open>
  The loop \<^verbatim>\<open>while ((r = it.next()) > 0) switch (...)\<close> that both decoders run. The body
  gets type, length and data of the option. Its result \<open>Some None\<close> is an early
  \<^verbatim>\<open>return false\<close>; otherwise the loop ends with the last result of \<open>next\<close>.
\<close>

function tlv_loop :: "(u16 \<Rightarrow> u16 \<Rightarrow> bytes \<Rightarrow> 's \<Rightarrow> 's option ub) \<Rightarrow> tlv_iterator \<Rightarrow> 's
    \<Rightarrow> (int \<times> 's) option ub" where
  "tlv_loop body it s =
     (case tlv_next it of
        None \<Rightarrow> None
      | Some (r, it') \<Rightarrow>
          if 0 < r
          then (case tlv_data it' of
                  None \<Rightarrow> None
                | Some d \<Rightarrow>
                    (case body (it_cur_type it') (it_cur_len it') d s of
                       None \<Rightarrow> None
                     | Some None \<Rightarrow> Some None
                     | Some (Some s') \<Rightarrow> tlv_loop body it' s'))
          else Some (Some (r, s)))"
  by pat_completeness auto
termination
  by (relation "measure (\<lambda>(body, it, s). if it_first it then Suc (it_len it) else it_len it - it_pos it)")
    (auto dest: tlv_next_advances)

declare tlv_loop.simps [simp del]

subsection \<open>Specification: a payload as a sequence of options\<close>

text \<open>\<open>tlv_head\<close> splits the first option off a payload, \<open>parse_tlvs\<close> all of them;
  \<open>tlv_encode\<close> is the inverse.\<close>

definition tlv_head :: "bytes \<Rightarrow> (u16 \<times> bytes \<times> bytes) option" where
  "tlv_head bs = do {
     t \<leftarrow> be_get16 bs 0;
     l \<leftarrow> be_get16 bs 2;
     d \<leftarrow> slice_ub bs 4 (unat l);
     Some (t, d, drop (4 + unat l) bs)
   }"

lemma tlv_head_shorter: "tlv_head bs = Some (t, d, r) \<Longrightarrow> length r < length bs"
  by (auto simp: tlv_head_def bind_eq_Some_conv slice_ub_eq_Some_iff)

function parse_tlvs :: "bytes \<Rightarrow> (u16 \<times> bytes) list option" where
  "parse_tlvs bs =
     (if bs = [] then Some []
      else case tlv_head bs of
        None \<Rightarrow> None
      | Some (t, d, r) \<Rightarrow> map_option (Cons (t, d)) (parse_tlvs r))"
  by pat_completeness auto
termination
  by (relation "measure length") (auto dest: tlv_head_shorter)

declare parse_tlvs.simps [simp del]

lemma parse_tlvs_Nil [simp]: "parse_tlvs [] = Some []"
  by (simp add: parse_tlvs.simps)

lemma parse_tlvs_head:
  "tlv_head bs = Some (t, d, r) \<Longrightarrow> parse_tlvs bs = map_option (Cons (t, d)) (parse_tlvs r)"
  by (subst parse_tlvs.simps) (auto dest: tlv_head_shorter)

lemma parse_tlvs_malformed: "bs \<noteq> [] \<Longrightarrow> tlv_head bs = None \<Longrightarrow> parse_tlvs bs = None"
  by (subst parse_tlvs.simps) simp

definition tlv_encode1 :: "u16 \<times> bytes \<Rightarrow> bytes" where
  "tlv_encode1 = (\<lambda>(t, d). be_put16 (be_put16 [] t) (of_nat (length d)) @ d)"

definition tlv_encode :: "(u16 \<times> bytes) list \<Rightarrow> bytes" where
  "tlv_encode ts = concat (map tlv_encode1 ts)"

lemma tlv_encode_simps [simp]:
  "tlv_encode [] = []" "tlv_encode (x # xs) = tlv_encode1 x @ tlv_encode xs"
  by (simp_all add: tlv_encode_def)

lemma length_tlv_encode1: "length (tlv_encode1 (t, d)) = 4 + length d"
  by (simp add: tlv_encode1_def)

lemma tlv_head_encode1:
  assumes "length d < 2 ^ 16"
  shows "tlv_head (tlv_encode1 (t, d) @ r) = Some (t, d, r)"
proof -
  let ?b = "be_put16 (be_put16 [] t) (of_nat (length d))"
  have "be_get16 (?b @ d @ r) 0 = Some t"
    by (subst be16.put_appends) (simp add: be16.get_put_at)
  moreover have "be_get16 (?b @ d @ r) 2 = Some (of_nat (length d))"
    using be16.get_put_at [of "be_put16 [] t" 2] by simp
  moreover have "unat (of_nat (length d) :: u16) = length d"
    using assms by (simp add: unat_of_nat_small)
  ultimately show ?thesis
    by (simp add: tlv_encode1_def tlv_head_def)
qed

lemma tlv_head_decompose:
  assumes "tlv_head bs = Some (t, d, r)"
  shows "bs = tlv_encode1 (t, d) @ r" and "length d < 2 ^ 16"
proof -
  from assms obtain l where tl: "be_get16 bs 0 = Some t" "be_get16 bs 2 = Some l"
    and d: "4 + unat l \<le> length bs" "d = take (unat l) (drop 4 bs)" and r: "r = drop (4 + unat l) bs"
    by (auto simp: tlv_head_def bind_eq_Some_conv slice_ub_eq_Some_iff)
  have len: "length d = unat l" using d by simp
  have "take 4 bs = take 2 bs @ take 2 (drop 2 bs)"
    using take_add [of 2 2 bs] by simp
  also have "\<dots> = be_put16 [] t @ be_put16 [] l"
    using be16.put_get [OF tl(1)] be16.put_get [OF tl(2)] by simp
  also have "\<dots> = be_put16 (be_put16 [] t) l"
    by (simp only: be16.put_appends [of "be_put16 [] t" l])
  finally have hdr: "take 4 bs = be_put16 (be_put16 [] t) (of_nat (length d))"
    using len by simp
  have "bs = take 4 bs @ take (unat l) (drop 4 bs) @ drop (4 + unat l) bs"
    by (metis add.commute append_take_drop_id drop_drop)
  then show "bs = tlv_encode1 (t, d) @ r"
    using hdr d r by (simp add: tlv_encode1_def)
  show "length d < 2 ^ 16"
    using len unsigned_less [of l, where ?'a = nat] by simp
qed

lemma parse_tlvs_encode_append:
  "\<forall>(t, d)\<in>set ts. length d < 2 ^ 16 \<Longrightarrow>
     parse_tlvs (tlv_encode ts @ bs) = map_option ((@) ts) (parse_tlvs bs)"
proof (induction ts)
  case Nil
  show ?case by (cases "parse_tlvs bs") auto
next
  case (Cons x ts)
  obtain t d where x: "x = (t, d)" by (cases x)
  with Cons.prems have "tlv_head (tlv_encode1 x @ tlv_encode ts @ bs) = Some (t, d, tlv_encode ts @ bs)"
    by (simp add: tlv_head_encode1)
  with Cons x show ?case
    by (auto simp: parse_tlvs_head option.map_comp comp_def)
qed

lemma parse_tlvs_encode: "\<forall>(t, d)\<in>set ts. length d < 2 ^ 16 \<Longrightarrow> parse_tlvs (tlv_encode ts) = Some ts"
  using parse_tlvs_encode_append [of ts "[]"] by simp

lemma parse_tlvs_sound: "parse_tlvs bs = Some ts \<Longrightarrow> bs = tlv_encode ts \<and> (\<forall>(t, d)\<in>set ts. length d < 2 ^ 16)"
proof (induction bs arbitrary: ts rule: parse_tlvs.induct)
  case (1 bs)
  show ?case
  proof (cases "bs = []")
    case True
    with "1.prems" show ?thesis by simp
  next
    case False
    with "1.prems" obtain t d r us where h: "tlv_head bs = Some (t, d, r)"
      and us: "parse_tlvs r = Some us" "ts = (t, d) # us"
      by (subst (asm) parse_tlvs.simps) (auto split: option.splits prod.splits)
    have "r = tlv_encode us \<and> (\<forall>(t, d)\<in>set us. length d < 2 ^ 16)"
      using "1.IH" [OF False h refl refl us(1)] .
    with tlv_head_decompose [OF h] us(2) show ?thesis by simp
  qed
qed

subsection \<open>The iterator refines the specification\<close>

definition it_ok :: "tlv_iterator \<Rightarrow> bool" where
  "it_ok it \<longleftrightarrow> it_len it = length (it_p it) \<and>
     (it_first it \<or> it_pos it + 4 + unat (it_cur_len it) \<le> it_len it)"

definition it_rest :: "tlv_iterator \<Rightarrow> bytes" where
  "it_rest it = drop (if it_first it then 0 else it_pos it + 4 + unat (it_cur_len it)) (it_p it)"

lemma it_start [simp]:
  "it_ok (TlvIterator bs (length bs))" "it_rest (TlvIterator bs (length bs)) = bs"
  by (simp_all add: it_ok_def it_rest_def TlvIterator_def)

lemma be_get16_drop: "n \<le> length bs \<Longrightarrow> be_get16 (drop n bs) i = be_get16 bs (n + i)"
  using be16.get_local [of "take n bs" "drop n bs" i] by (simp add: min.absorb2)

lemma tlv_next_end: "it_ok it \<Longrightarrow> it_rest it = [] \<Longrightarrow> \<exists>it'. tlv_next it = Some (0, it')"
  by (auto simp: it_ok_def it_rest_def tlv_next_def Let_def)

lemma tlv_next_malformed:
  assumes "it_ok it" and "it_rest it \<noteq> []" and "tlv_head (it_rest it) = None"
  shows "\<exists>it'. tlv_next it = Some (-1, it')"
proof -
  define n where "n = (if it_first it then 0 else it_pos it + 4 + unat (it_cur_len it))"
  have n: "n < length (it_p it)" and rest: "it_rest it = drop n (it_p it)"
    using assms(1,2) by (auto simp: it_rest_def n_def)
  have len: "it_len it = length (it_p it)" using assms(1) by (simp add: it_ok_def)
  show ?thesis
  proof (cases "n + 4 > length (it_p it)")
    case True
    with n len show ?thesis by (auto simp: tlv_next_def Let_def simp flip: n_def)
  next
    case False
    then obtain t l where tl: "be_get16 (it_p it) n = Some t" "be_get16 (it_p it) (n + 2) = Some l"
      using be16.get_defined [of "it_p it" n] be16.get_defined [of "it_p it" "n + 2"] by auto
    with assms(3) n have "n + 4 + unat l > length (it_p it)"
      by (auto simp: tlv_head_def rest be_get16_drop slice_ub_def split: if_splits)
    with False n len tl show ?thesis by (auto simp: tlv_next_def Let_def simp flip: n_def)
  qed
qed

lemma tlv_next_option:
  assumes "it_ok it" and "tlv_head (it_rest it) = Some (t, d, r)"
  shows "\<exists>it'. tlv_next it = Some (1, it') \<and> it_ok it' \<and> it_rest it' = r \<and> it_cur_type it' = t
    \<and> tlv_data it' = Some d \<and> unat (it_cur_len it') = length d"
proof -
  define n where "n = (if it_first it then 0 else it_pos it + 4 + unat (it_cur_len it))"
  have rest: "it_rest it = drop n (it_p it)" by (simp add: it_rest_def n_def)
  have len: "it_len it = length (it_p it)" using assms(1) by (simp add: it_ok_def)
  have n: "n \<le> length (it_p it)" using assms(1) by (auto simp: it_ok_def n_def)
  from assms(2) n obtain l where tl: "be_get16 (it_p it) n = Some t" "be_get16 (it_p it) (n + 2) = Some l"
    and l: "n + 4 + unat l \<le> length (it_p it)"
    and d: "d = take (unat l) (drop (n + 4) (it_p it))" and r: "r = drop (n + 4 + unat l) (it_p it)"
    by (auto simp: tlv_head_def rest be_get16_drop bind_eq_Some_conv slice_ub_eq_Some_iff algebra_simps)
  let ?it = "it\<lparr>it_first := False, it_pos := n, it_cur_type := t, it_cur_len := l\<rparr>"
  have "tlv_next it = Some (1, ?it)"
    using tl l len by (simp add: tlv_next_def Let_def flip: n_def)
  moreover have "it_ok ?it \<and> it_rest ?it = r \<and> tlv_data ?it = Some d \<and> unat (it_cur_len ?it) = length d"
    using l len d r by (simp add: it_ok_def it_rest_def tlv_data_def slice_ub_def)
  ultimately show ?thesis by auto
qed

subsection \<open>The contract of a decoder\<close>

text \<open>A decoder handles one option at a time. It must be defined on every option whose
  length field is the length of its data; in return the loop is the fold of the
  decoder over the parsed options.\<close>

definition tlv_accept :: "(int \<times> 's) option \<Rightarrow> 's option" where
  "tlv_accept res = (case res of Some (r, s) \<Rightarrow> if r = 0 then Some s else None | None \<Rightarrow> None)"

locale option_decoder =
  fixes body :: "u16 \<Rightarrow> u16 \<Rightarrow> bytes \<Rightarrow> 's \<Rightarrow> 's option ub"
  assumes body_defined: "unat l = length d \<Longrightarrow> body t l d s \<noteq> None"
begin

definition decode_option :: "u16 \<times> bytes \<Rightarrow> 's \<Rightarrow> 's option" where
  "decode_option = (\<lambda>(t, d) s. the (body t (of_nat (length d)) d s))"

lemma body_decode_option: "unat l = length d \<Longrightarrow> body t l d s = Some (decode_option (t, d) s)"
  using body_defined [of l d t s] by (auto simp: decode_option_def dest: sym)

text \<open>The loop never reads outside the payload, and it accepts exactly the payloads that
  parse and on whose options the decoder succeeds.\<close>

lemma tlv_loop_parse:
  assumes "it_ok it"
  shows "\<exists>res. tlv_loop body it s = Some res \<and>
    tlv_accept res = Option.bind (parse_tlvs (it_rest it)) (\<lambda>ts. fold_ub decode_option ts s)"
  using assms
proof (induction "length (it_rest it)" arbitrary: it s rule: less_induct)
  case less
  show ?case
  proof (cases "tlv_head (it_rest it)")
    case None
    show ?thesis
    proof (cases "it_rest it = []")
      case True
      with tlv_next_end [OF less.prems] show ?thesis
        by (subst tlv_loop.simps) (auto simp: tlv_accept_def)
    next
      case False
      with None tlv_next_malformed [OF less.prems] show ?thesis
        by (subst tlv_loop.simps) (auto simp: tlv_accept_def parse_tlvs_malformed)
    qed
  next
    case (Some x)
    then obtain t d r where hd: "tlv_head (it_rest it) = Some (t, d, r)" by (cases x) auto
    obtain it' where it': "tlv_next it = Some (1, it')" "it_ok it'" "it_rest it' = r"
        "it_cur_type it' = t" "tlv_data it' = Some d" "unat (it_cur_len it') = length d"
      using tlv_next_option [OF less.prems hd] by blast
    have shorter: "length (it_rest it') < length (it_rest it)"
      using tlv_head_shorter [OF hd] it'(3) by simp
    have step: "body t (it_cur_len it') d s = Some (decode_option (t, d) s)"
      using it'(6) by (rule body_decode_option)
    show ?thesis
    proof (cases "decode_option (t, d) s")
      case None
      with it' step hd show ?thesis
        by (subst tlv_loop.simps)
          (auto simp: tlv_accept_def parse_tlvs_head split: Option.bind_splits)
    next
      case (Some s')
      with it' step have "tlv_loop body it s = tlv_loop body it' s'"
        by (subst tlv_loop.simps) simp
      moreover obtain res where "tlv_loop body it' s' = Some res"
        "tlv_accept res = Option.bind (parse_tlvs r) (\<lambda>ts. fold_ub decode_option ts s')"
        using less.hyps [OF shorter it'(2)] it'(3) by auto
      ultimately show ?thesis
        using Some hd by (auto simp: parse_tlvs_head map_option_case split: option.splits)
    qed
  qed
qed

lemma tlv_loop_payload:
  "\<exists>res. tlv_loop body (TlvIterator bs (length bs)) s = Some res \<and>
    tlv_accept res = Option.bind (parse_tlvs bs) (\<lambda>ts. fold_ub decode_option ts s)"
  using tlv_loop_parse [of "TlvIterator bs (length bs)" s] by simp

end

subsection \<open>What the writer appends\<close>

lemma u64_bytes_be:
  "map (\<lambda>i. ucast (drop_bit (56 - 8 * i) v) :: u8) [0..<8] = be_put64 [] (v :: u64)"
  by (simp add: be_put64_def be_put32_def upt_rec) (auto intro!: bit_word_eqI simp: bit_simps)

lemma tlv_add_encode:
  assumes "length d < 2 ^ 16" and "l = of_nat (length d)"
  shows "tlv_add buf opt d l = buf @ tlv_encode1 (TlvOpt_u16 opt, d)"
proof -
  have "unat l = length d" using assms by (simp add: unat_of_nat_small)
  moreover have "be_put16 (be_put16 buf (TlvOpt_u16 opt)) l = buf @ be_put16 (be_put16 [] (TlvOpt_u16 opt)) l"
    by (simp add: be_put16_def)
  ultimately show ?thesis using assms by (simp add: tlv_add_def tlv_encode1_def)
qed

lemma writer_encode:
  "add_u8 buf opt v8 = buf @ tlv_encode1 (TlvOpt_u16 opt, [v8])"
  "add_u16 buf opt v16 = buf @ tlv_encode1 (TlvOpt_u16 opt, be_put16 [] v16)"
  "add_u32 buf opt v32 = buf @ tlv_encode1 (TlvOpt_u16 opt, be_put32 [] v32)"
  "add_u64 buf opt v64 = buf @ tlv_encode1 (TlvOpt_u16 opt, be_put64 [] v64)"
  "add_ring_id buf r = buf @ tlv_encode1 (13, be_put32 [] (ring_node_id r) @ be_put64 [] (ring_seq r))"
  "add_tie_breaker buf tb = buf @ tlv_encode1 (21, TieBreakerMode_u8 (tb_mode tb) #
     be_put32 [] (if tb_mode tb = NODE_ID then tb_node_id tb else 0))"
  unfolding add_u8_def add_u16_def add_u32_def add_u64_def add_ring_id_def add_tie_breaker_def Let_def
    u64_bytes_be
  by (subst tlv_add_encode; simp add: be_put16_def be_put32_def be_put64_def)+

lemma add_string_encode:
  "length str < 2 ^ 16 \<Longrightarrow> add_string buf opt str = buf @ tlv_encode1 (TlvOpt_u16 opt, str)"
  by (simp add: add_string_def tlv_add_encode)

lemma foldl_be_put16: "foldl be_put16 b vs = b @ foldl be_put16 [] vs"
proof (induction vs arbitrary: b)
  case Nil
  show ?case by simp
next
  case (Cons v vs)
  have "foldl be_put16 b (v # vs) = be_put16 b v @ foldl be_put16 [] vs"
    using Cons.IH [of "be_put16 b v"] by simp
  also have "\<dots> = b @ be_put16 [] v @ foldl be_put16 [] vs"
    by (simp add: be_put16_def)
  also have "be_put16 [] v @ foldl be_put16 [] vs = foldl be_put16 [] (v # vs)"
    using Cons.IH [of "be_put16 [] v"] by simp
  finally show ?case .
qed

lemma length_foldl_be_put16 [simp]: "length (foldl be_put16 b vs) = length b + 2 * length vs"
  by (induction vs arbitrary: b) auto

lemma add_u16_array_encode:
  assumes "n = length arr" and "length arr < 2 ^ 15"
  shows "add_u16_array buf opt arr n = buf @ tlv_encode1 (TlvOpt_u16 opt, foldl be_put16 [] arr)"
proof -
  have "foldl be_put16 (be_put16 (be_put16 buf t) l) arr
      = buf @ be_put16 (be_put16 [] t) l @ foldl be_put16 [] arr" for t l
    by (subst foldl_be_put16) (simp add: be_put16_def)
  with assms show ?thesis
    by (simp add: add_u16_array_def tlv_encode1_def mult.commute)
qed

end
