(* ===== verification/Msg.thy ===== *)
theory Msg
  imports Tlv
begin

text \<open>
  Frame decoding and encoding: \<^verbatim>\<open>components/qnetd/msg.h\<close> and \<^verbatim>\<open>msg.cpp\<close>. \<open>msg_decode\<close> is the
  option loop of \<open>Tlv\<close> with the switch of the source as its body; the builders append
  options to a frame with the writer. The lemmas show that the decoder is defined on
  every payload, that it is the fold of the switch over the parsed options, and that
  it reads back every frame the builders make.
\<close>

subsection \<open>Constants and the decoded message\<close>

definition MSG_HEADER_LEN :: nat where
  "MSG_HEADER_LEN = 6"

definition MAX_NODES_PER_LIST :: nat where
  "MAX_NODES_PER_LIST = 16"

definition SUPPORTED_MESSAGES :: "u16 list" where
  "SUPPORTED_MESSAGES = [0, 1, 2, 3, 4, 5, 6, 7, 8, 9, 10, 11, 12, 13, 14, 15, 16, 17]"

definition SUPPORTED_OPTIONS :: "u16 list" where
  "SUPPORTED_OPTIONS =
     [0, 1, 2, 3, 4, 5, 6, 7, 8, 9, 10, 11, 12, 13, 14, 15, 16, 17, 18, 19, 20, 21, 22, 23]"

definition SUPPORTED_ALGORITHMS :: "u16 list" where
  "SUPPORTED_ALGORITHMS = [Algorithm_u16 Algorithm_FFSPLIT]"

record msg_decoded =
  m_type :: msg_type
  m_seq_number_set :: bool
  m_seq_number :: u32
  m_cluster_name :: string
  m_tls_supported_set :: bool
  m_tls_supported :: tls_supported
  m_tls_client_cert_required_set :: bool
  m_tls_client_cert_required :: u8
  m_supported_messages_present :: bool
  m_supported_options_present :: bool
  m_node_id_set :: bool
  m_node_id :: u32
  m_decision_algorithm_set :: bool
  m_decision_algorithm :: algorithm
  m_heartbeat_interval_set :: bool
  m_heartbeat_interval :: u32
  m_ring_id_set :: bool
  m_ring_id :: ring_id
  m_config_version_set :: bool
  m_config_version :: u64
  m_nodes :: node_list
  m_node_list_type_set :: bool
  m_node_list_type :: node_list_type
  m_vote_set :: bool
  m_vote :: vote
  m_quorate_set :: bool
  m_quorate :: u8
  m_tie_breaker_set :: bool
  m_tie_breaker :: tie_breaker
  m_heuristics :: heuristics
  m_keep_active_partition_tie_breaker_set :: bool
  m_keep_active_partition_tie_breaker :: u8

definition MsgDecoded :: msg_decoded where
  "MsgDecoded =
    \<lparr>m_type = MsgType_PREINIT,
     m_seq_number_set = False, m_seq_number = 0,
     m_cluster_name = [],
     m_tls_supported_set = False, m_tls_supported = TlsSupported_UNSUPPORTED,
     m_tls_client_cert_required_set = False, m_tls_client_cert_required = 0,
     m_supported_messages_present = False, m_supported_options_present = False,
     m_node_id_set = False, m_node_id = 0,
     m_decision_algorithm_set = False, m_decision_algorithm = Algorithm_TEST,
     m_heartbeat_interval_set = False, m_heartbeat_interval = 0,
     m_ring_id_set = False, m_ring_id = RingId,
     m_config_version_set = False, m_config_version = 0,
     m_nodes = [],
     m_node_list_type_set = False, m_node_list_type = INITIAL_CONFIG,
     m_vote_set = False, m_vote = Vote_UNDEFINED,
     m_quorate_set = False, m_quorate = 0,
     m_tie_breaker_set = False, m_tie_breaker = TieBreaker,
     m_heuristics = Heuristics_UNDEFINED,
     m_keep_active_partition_tie_breaker_set = False,
     m_keep_active_partition_tie_breaker = 0\<rparr>"

subsection \<open>Decoding\<close>

text \<open>\<^verbatim>\<open>reinterpret_cast<const char *>\<close>: a byte read as a character.\<close>

definition chars_of :: "bytes \<Rightarrow> string" where
  "chars_of = map (\<lambda>b. char_of (unat b))"

definition decode_node_info_opt ::
    "u16 \<Rightarrow> u16 \<Rightarrow> bytes \<Rightarrow> bool \<times> node_info \<Rightarrow> (bool \<times> node_info) option ub" where
  "decode_node_info_opt t l d = (\<lambda>(have_id, out).
     case TlvOpt_of t of
       TlvOpt_NODE_ID \<Rightarrow>
         if l \<noteq> 4 then Some None
         else do { v \<leftarrow> be_get32 d 0; Some (Some (True, out\<lparr>ni_node_id := v\<rparr>)) }
     | TlvOpt_DATA_CENTER_ID \<Rightarrow>
         if l \<noteq> 4 then Some None
         else do { v \<leftarrow> be_get32 d 0; Some (Some (have_id, out\<lparr>ni_data_center_id := v\<rparr>)) }
     | TlvOpt_NODE_STATE \<Rightarrow>
         if l \<noteq> 1 then Some None
         else do { v \<leftarrow> at_ub d 0; Some (Some (have_id, out\<lparr>ni_state := NodeState_of v\<rparr>)) }
     | _ \<Rightarrow> Some (Some (have_id, out)))"

definition decode_node_info :: "bytes \<Rightarrow> node_info option ub" where
  "decode_node_info data = do {
     res \<leftarrow> tlv_loop decode_node_info_opt (TlvIterator data (length data)) (False, NodeInfo);
     Some (case tlv_accept res of
             Some (have_id, out) \<Rightarrow> if have_id then Some out else None
           | None \<Rightarrow> None)
   }"

definition msg_decode_opt ::
    "u16 \<Rightarrow> u16 \<Rightarrow> bytes \<Rightarrow> msg_decoded \<Rightarrow> msg_decoded option ub" where
  "msg_decode_opt t l d out =
    (case TlvOpt_of t of
       TlvOpt_MSG_SEQ_NUMBER \<Rightarrow>
         if l \<noteq> 4 then Some None
         else do { v \<leftarrow> be_get32 d 0; Some (Some (out\<lparr>m_seq_number := v, m_seq_number_set := True\<rparr>)) }
     | TlvOpt_CLUSTER_NAME \<Rightarrow>
         do { n \<leftarrow> slice_ub d 0 (unat l); Some (Some (out\<lparr>m_cluster_name := chars_of n\<rparr>)) }
     | TlvOpt_TLS_SUPPORTED \<Rightarrow>
         if l \<noteq> 1 then Some None
         else do { v \<leftarrow> at_ub d 0;
           if v > 2 then Some None
           else Some (Some (out\<lparr>m_tls_supported := TlsSupported_of v, m_tls_supported_set := True\<rparr>)) }
     | TlvOpt_TLS_CLIENT_CERT_REQUIRED \<Rightarrow>
         if l \<noteq> 1 then Some None
         else do { v \<leftarrow> at_ub d 0;
           Some (Some (out\<lparr>m_tls_client_cert_required := v, m_tls_client_cert_required_set := True\<rparr>)) }
     | TlvOpt_SUPPORTED_MESSAGES \<Rightarrow>
         if unat l mod 2 \<noteq> 0 then Some None
         else Some (Some (out\<lparr>m_supported_messages_present := True\<rparr>))
     | TlvOpt_SUPPORTED_OPTIONS \<Rightarrow>
         if unat l mod 2 \<noteq> 0 then Some None
         else Some (Some (out\<lparr>m_supported_options_present := True\<rparr>))
     | TlvOpt_NODE_ID \<Rightarrow>
         if l \<noteq> 4 then Some None
         else do { v \<leftarrow> be_get32 d 0; Some (Some (out\<lparr>m_node_id := v, m_node_id_set := True\<rparr>)) }
     | TlvOpt_DECISION_ALGORITHM \<Rightarrow>
         if l \<noteq> 2 then Some None
         else do { v \<leftarrow> be_get16 d 0;
           Some (Some (out\<lparr>m_decision_algorithm := Algorithm_of v, m_decision_algorithm_set := True\<rparr>)) }
     | TlvOpt_HEARTBEAT_INTERVAL \<Rightarrow>
         if l \<noteq> 4 then Some None
         else do { v \<leftarrow> be_get32 d 0;
           Some (Some (out\<lparr>m_heartbeat_interval := v, m_heartbeat_interval_set := True\<rparr>)) }
     | TlvOpt_RING_ID \<Rightarrow>
         if l \<noteq> 12 then Some None
         else do { n \<leftarrow> be_get32 d 0; q \<leftarrow> be_get64 d 4;
           Some (Some (out\<lparr>m_ring_id := \<lparr>ring_node_id = n, ring_seq = q\<rparr>, m_ring_id_set := True\<rparr>)) }
     | TlvOpt_CONFIG_VERSION \<Rightarrow>
         if l \<noteq> 8 then Some None
         else do { v \<leftarrow> be_get64 d 0;
           Some (Some (out\<lparr>m_config_version := v, m_config_version_set := True\<rparr>)) }
     | TlvOpt_NODE_INFO \<Rightarrow>
         do { ni \<leftarrow> decode_node_info d;
           case ni of
             None \<Rightarrow> Some None
           | Some ni \<Rightarrow>
               if length (m_nodes out) \<ge> MAX_NODES_PER_LIST then Some None
               else Some (Some (out\<lparr>m_nodes := m_nodes out @ [ni]\<rparr>)) }
     | TlvOpt_NODE_LIST_TYPE \<Rightarrow>
         if l \<noteq> 1 then Some None
         else do { v \<leftarrow> at_ub d 0;
           if v > 3 then Some None
           else Some (Some (out\<lparr>m_node_list_type := NodeListType_of v, m_node_list_type_set := True\<rparr>)) }
     | TlvOpt_VOTE \<Rightarrow>
         if l \<noteq> 1 then Some None
         else do { v \<leftarrow> at_ub d 0;
           if v > 5 then Some None
           else Some (Some (out\<lparr>m_vote := Vote_of v, m_vote_set := True\<rparr>)) }
     | TlvOpt_QUORATE \<Rightarrow>
         if l \<noteq> 1 then Some None
         else do { v \<leftarrow> at_ub d 0;
           if v > 1 then Some None
           else Some (Some (out\<lparr>m_quorate := v, m_quorate_set := True\<rparr>)) }
     | TlvOpt_TIE_BREAKER \<Rightarrow>
         if l \<noteq> 5 then Some None
         else do { v \<leftarrow> at_ub d 0;
           if v < 1 \<or> v > 3 then Some None
           else do { n \<leftarrow> be_get32 d 1;
             Some (Some (out\<lparr>m_tie_breaker := \<lparr>tb_mode = TieBreakerMode_of v, tb_node_id = n\<rparr>,
                              m_tie_breaker_set := True\<rparr>)) } }
     | TlvOpt_HEURISTICS \<Rightarrow>
         if l \<noteq> 1 then Some None
         else do { v \<leftarrow> at_ub d 0;
           if v > 2 then Some None
           else Some (Some (out\<lparr>m_heuristics := Heuristics_of v\<rparr>)) }
     | TlvOpt_KEEP_ACTIVE_PARTITION_TIE_BREAKER \<Rightarrow>
         if l \<noteq> 1 then Some None
         else do { v \<leftarrow> at_ub d 0;
           Some (Some (out\<lparr>m_keep_active_partition_tie_breaker := v,
                            m_keep_active_partition_tie_breaker_set := True\<rparr>)) }
     | _ \<Rightarrow> Some (Some out))"

definition msg_decode :: "msg_type \<Rightarrow> bytes \<Rightarrow> msg_decoded option ub" where
  "msg_decode type payload =
     map_option tlv_accept
       (tlv_loop msg_decode_opt (TlvIterator payload (length payload)) (MsgDecoded\<lparr>m_type := type\<rparr>))"

subsection \<open>Building frames\<close>

type_synonym frame = bytes

definition begin_frame :: "msg_type \<Rightarrow> frame" where
  "begin_frame type = be_put32 (be_put16 [] (MsgType_u16 type)) 0"

text \<open>\<open>end_frame\<close> patches the payload length into bytes 2 to 5.\<close>

definition end_frame :: "frame \<Rightarrow> frame" where
  "end_frame f =
     (let len = (of_nat (length f - MSG_HEADER_LEN) :: u32)
      in f[2 := ucast (drop_bit 24 len), 3 := ucast (drop_bit 16 len),
           4 := ucast (drop_bit 8 len), 5 := ucast len])"

definition build_preinit_reply :: "bool \<Rightarrow> u32 \<Rightarrow> tls_supported \<Rightarrow> u8 \<Rightarrow> frame" where
  "build_preinit_reply seq_set seq tls cert_required =
     (let f = begin_frame MsgType_PREINIT_REPLY;
          f = (if seq_set then add_u32 f TlvOpt_MSG_SEQ_NUMBER seq else f);
          f = add_u8 f TlvOpt_TLS_SUPPORTED (TlsSupported_u8 tls);
          f = add_u8 f TlvOpt_TLS_CLIENT_CERT_REQUIRED cert_required
      in end_frame f)"

definition build_server_error :: "bool \<Rightarrow> u32 \<Rightarrow> reply_error_code \<Rightarrow> frame" where
  "build_server_error seq_set seq code =
     (let f = begin_frame MsgType_SERVER_ERROR;
          f = (if seq_set then add_u32 f TlvOpt_MSG_SEQ_NUMBER seq else f);
          f = add_u16 f TlvOpt_REPLY_ERROR_CODE (ReplyErrorCode_u16 code)
      in end_frame f)"

definition build_init_reply ::
    "bool \<Rightarrow> u32 \<Rightarrow> reply_error_code \<Rightarrow> bool \<Rightarrow> bool \<Rightarrow> u32 \<Rightarrow> u32 \<Rightarrow> frame" where
  "build_init_reply seq_set seq code include_supported_messages include_supported_options
      max_request_size max_reply_size =
     (let f = begin_frame MsgType_INIT_REPLY;
          f = (if seq_set then add_u32 f TlvOpt_MSG_SEQ_NUMBER seq else f);
          f = add_u16 f TlvOpt_REPLY_ERROR_CODE (ReplyErrorCode_u16 code);
          f = (if include_supported_messages
               then add_u16_array f TlvOpt_SUPPORTED_MESSAGES SUPPORTED_MESSAGES 18 else f);
          f = (if include_supported_options
               then add_u16_array f TlvOpt_SUPPORTED_OPTIONS SUPPORTED_OPTIONS 24 else f);
          f = add_u32 f TlvOpt_SERVER_MAXIMUM_REQUEST_SIZE max_request_size;
          f = add_u32 f TlvOpt_SERVER_MAXIMUM_REPLY_SIZE max_reply_size;
          f = add_u16_array f TlvOpt_SUPPORTED_DECISION_ALGORITHMS SUPPORTED_ALGORITHMS 1
      in end_frame f)"

definition build_set_option_reply :: "bool \<Rightarrow> u32 \<Rightarrow> bool \<Rightarrow> u32 \<Rightarrow> bool \<Rightarrow> u8 \<Rightarrow> frame" where
  "build_set_option_reply seq_set seq hb_set hb kaptb_set kaptb =
     (let f = begin_frame MsgType_SET_OPTION_REPLY;
          f = (if seq_set then add_u32 f TlvOpt_MSG_SEQ_NUMBER seq else f);
          f = (if hb_set then add_u32 f TlvOpt_HEARTBEAT_INTERVAL hb else f);
          f = (if kaptb_set then add_u8 f TlvOpt_KEEP_ACTIVE_PARTITION_TIE_BREAKER kaptb else f)
      in end_frame f)"

definition build_echo_reply :: "bytes \<Rightarrow> frame" where
  "build_echo_reply request_frame =
     request_frame[0 := ucast (drop_bit 8 (MsgType_u16 MsgType_ECHO_REPLY)),
                   1 := ucast (MsgType_u16 MsgType_ECHO_REPLY)]"

definition build_node_list_reply :: "u32 \<Rightarrow> node_list_type \<Rightarrow> ring_id \<Rightarrow> vote \<Rightarrow> frame" where
  "build_node_list_reply seq type ring v =
     (let f = begin_frame MsgType_NODE_LIST_REPLY;
          f = add_u32 f TlvOpt_MSG_SEQ_NUMBER seq;
          f = add_u8 f TlvOpt_NODE_LIST_TYPE (NodeListType_u8 type);
          f = add_ring_id f ring;
          f = add_u8 f TlvOpt_VOTE (Vote_u8 v)
      in end_frame f)"

definition build_vote_info :: "u32 \<Rightarrow> ring_id \<Rightarrow> vote \<Rightarrow> frame" where
  "build_vote_info seq ring v =
     (let f = begin_frame MsgType_VOTE_INFO;
          f = add_u32 f TlvOpt_MSG_SEQ_NUMBER seq;
          f = add_u8 f TlvOpt_VOTE (Vote_u8 v);
          f = add_ring_id f ring
      in end_frame f)"

definition build_heuristics_change_reply :: "bool \<Rightarrow> u32 \<Rightarrow> vote \<Rightarrow> frame" where
  "build_heuristics_change_reply seq_set seq v =
     (let f = begin_frame MsgType_HEURISTICS_CHANGE_REPLY;
          f = (if seq_set then add_u32 f TlvOpt_MSG_SEQ_NUMBER seq else f);
          f = add_u8 f TlvOpt_VOTE (Vote_u8 v)
      in end_frame f)"

subsection \<open>Names for the log and the status line\<close>

fun vote_str :: "vote \<Rightarrow> string" where
  "vote_str Vote_UNDEFINED = ''undef''"
| "vote_str Vote_ACK = ''ACK''"
| "vote_str Vote_NACK = ''NACK''"
| "vote_str Vote_ASK_LATER = ''ask-later''"
| "vote_str Vote_WAIT_FOR_REPLY = ''wait''"
| "vote_str Vote_NO_CHANGE = ''no-change''"

fun msg_type_str :: "msg_type \<Rightarrow> string" where
  "msg_type_str MsgType_PREINIT = ''preinit''"
| "msg_type_str MsgType_PREINIT_REPLY = ''preinit-reply''"
| "msg_type_str MsgType_STARTTLS = ''starttls''"
| "msg_type_str MsgType_INIT = ''init''"
| "msg_type_str MsgType_INIT_REPLY = ''init-reply''"
| "msg_type_str MsgType_SERVER_ERROR = ''server-error''"
| "msg_type_str MsgType_SET_OPTION = ''set-option''"
| "msg_type_str MsgType_SET_OPTION_REPLY = ''set-option-reply''"
| "msg_type_str MsgType_ECHO_REQUEST = ''echo-request''"
| "msg_type_str MsgType_ECHO_REPLY = ''echo-reply''"
| "msg_type_str MsgType_NODE_LIST = ''node-list''"
| "msg_type_str MsgType_NODE_LIST_REPLY = ''node-list-reply''"
| "msg_type_str MsgType_ASK_FOR_VOTE = ''ask-for-vote''"
| "msg_type_str MsgType_ASK_FOR_VOTE_REPLY = ''ask-for-vote-reply''"
| "msg_type_str MsgType_VOTE_INFO = ''vote-info''"
| "msg_type_str MsgType_VOTE_INFO_REPLY = ''vote-info-reply''"
| "msg_type_str MsgType_HEURISTICS_CHANGE = ''heuristics-change''"
| "msg_type_str MsgType_HEURISTICS_CHANGE_REPLY = ''heuristics-change-reply''"
| "msg_type_str (MsgType_OTHER v) = ''?''"

subsection \<open>The decoders meet the contract\<close>

lemma bind_ne_None_iff: "Option.bind x f \<noteq> None \<longleftrightarrow> (\<exists>y. x = Some y \<and> f y \<noteq> None)"
  by (cases x) auto

lemma u16_is_length:
  assumes "unat (l :: u16) = length d"
  shows "l = 1 \<Longrightarrow> length d = 1" "l = numeral n \<Longrightarrow> length d = unat (numeral n :: u16)"
  using assms by simp_all

lemma option_reads_defined:
  assumes "unat (l :: u16) = length d"
  shows "l = 1 \<Longrightarrow> \<exists>v. at_ub d 0 = Some v"
    and "l = 2 \<Longrightarrow> \<exists>v. be_get16 d 0 = Some v"
    and "l = 4 \<Longrightarrow> \<exists>v. be_get32 d 0 = Some v"
    and "l = 5 \<Longrightarrow> \<exists>v w. at_ub d 0 = Some v \<and> be_get32 d 1 = Some w"
    and "l = 8 \<Longrightarrow> \<exists>v. be_get64 d 0 = Some v"
    and "l = 12 \<Longrightarrow> \<exists>v w. be_get32 d 0 = Some v \<and> be_get64 d 4 = Some w"
    and "slice_ub d 0 (unat l) = Some d"
  using assms be16.get_defined [of d 0] be32.get_defined [of d 0] be32.get_defined [of d 1]
    be64.get_defined [of d 0] be64.get_defined [of d 4]
  by (auto simp: at_ub_def slice_ub_def)

interpretation ni: option_decoder decode_node_info_opt
proof
  fix l t :: u16 and d :: bytes and s :: "bool \<times> node_info"
  assume "unat l = length d"
  note reads = option_reads_defined [OF this]
  then show "decode_node_info_opt t l d s \<noteq> None"
    by (auto simp: decode_node_info_opt_def split: prod.splits tlv_opt.splits dest: reads(1-6))
qed

lemma decode_node_info_defined: "decode_node_info d \<noteq> None"
  using ni.tlv_loop_payload [of d "(False, NodeInfo)"] by (auto simp: decode_node_info_def)

interpretation md: option_decoder msg_decode_opt
proof
  fix l t :: u16 and d :: bytes and s :: msg_decoded
  assume "unat l = length d"
  note reads = option_reads_defined [OF this]
  show "msg_decode_opt t l d s \<noteq> None"
  proof (cases "TlvOpt_of t = TlvOpt_CLUSTER_NAME")
    case True
    with reads(7) show ?thesis by (simp add: msg_decode_opt_def)
  next
    case False
    with decode_node_info_defined [of d] show ?thesis
      by (auto simp: msg_decode_opt_def split: tlv_opt.splits option.splits dest: reads(1-6))
  qed
qed

lemma msg_decode_parse:
  "msg_decode t bs =
     Some (Option.bind (parse_tlvs bs) (\<lambda>ts. fold_ub md.decode_option ts (MsgDecoded\<lparr>m_type := t\<rparr>)))"
  using md.tlv_loop_payload [of bs "MsgDecoded\<lparr>m_type := t\<rparr>"] by (auto simp: msg_decode_def)

text \<open>Evaluation of the decoder on a concrete payload.\<close>

definition msg_decode_option :: "u16 \<times> bytes \<Rightarrow> msg_decoded \<Rightarrow> msg_decoded option" where
  "msg_decode_option opt out = the (msg_decode_opt (fst opt) (of_nat (length (snd opt))) (snd opt) out)"

lemma msg_decode_code [code]:
  "msg_decode t bs =
     Some (case parse_tlvs bs of None \<Rightarrow> None
           | Some ts \<Rightarrow> fold_ub msg_decode_option ts (MsgDecoded\<lparr>m_type := t\<rparr>))"
proof -
  have "md.decode_option = msg_decode_option"
    by (simp add: fun_eq_iff msg_decode_option_def md.decode_option_def split_beta)
  then show ?thesis by (simp add: msg_decode_parse split: option.split)
qed

lemma decode_node_info_parse:
  "decode_node_info d =
     Some (Option.bind (parse_tlvs d) (\<lambda>ts. Option.bind (fold_ub ni.decode_option ts (False, NodeInfo))
       (\<lambda>(have_id, out). if have_id then Some out else None)))"
  using ni.tlv_loop_payload [of d "(False, NodeInfo)"]
  by (auto simp: decode_node_info_def split: option.splits Option.bind_splits prod.splits)

subsection \<open>Frames\<close>

definition frame_of :: "msg_type \<Rightarrow> bytes \<Rightarrow> frame" where
  "frame_of t pl = be_put32 (be_put16 [] (MsgType_u16 t)) (of_nat (length pl)) @ pl"

lemma end_frame_begin: "end_frame (begin_frame t @ pl) = frame_of t pl"
  by (simp add: end_frame_def begin_frame_def frame_of_def be_put32_def be_put16_def MSG_HEADER_LEN_def
      Let_def)

lemma frame_of_header:
  "be_get16 (frame_of t pl) 0 = Some (MsgType_u16 t)"
  "be_get32 (frame_of t pl) 2 = Some (of_nat (length pl))"
  "drop 6 (frame_of t pl) = pl" "length (frame_of t pl) = 6 + length pl"
proof -
  show "be_get16 (frame_of t pl) 0 = Some (MsgType_u16 t)"
    unfolding frame_of_def by (subst be32.put_appends) (simp add: be16.get_put_at)
  show "be_get32 (frame_of t pl) 2 = Some (of_nat (length pl))"
    unfolding frame_of_def by (rule be32.get_put_at) simp
qed (simp_all add: frame_of_def)

definition decode_frame :: "frame \<Rightarrow> msg_decoded option ub" where
  "decode_frame f = do {
     t \<leftarrow> be_get16 f 0;
     msg_decode (MsgType_of t) (drop MSG_HEADER_LEN f)
   }"

lemma decode_frame_of:
  assumes "\<forall>(t, d)\<in>set ts. length d < 2 ^ 16" and "t \<in> set msg_types"
  shows "decode_frame (frame_of t (tlv_encode ts)) =
    Some (fold_ub md.decode_option ts (MsgDecoded\<lparr>m_type := t\<rparr>))"
  using parse_tlvs_encode_append [OF assms(1), of "[]"] assms(2)
  by (simp add: decode_frame_def frame_of_header MSG_HEADER_LEN_def MsgType_of_u16 msg_decode_parse)

text \<open>What one option of the writer does to the decoded message.\<close>

lemma be_get_put_Nil [simp]:
  "be_get16 (be_put16 [] v) 0 = Some v" "be_get32 (be_put32 [] w) 0 = Some w"
  "be_get64 (be_put64 [] x) 0 = Some x" "at_ub (y # ys) 0 = Some y"
  by (simp_all add: be16.get_put_Nil be32.get_put_Nil be64.get_put_Nil)

lemma ring_id_collapse [simp]: "\<lparr>ring_node_id = ring_node_id r, ring_seq = ring_seq r\<rparr> = r"
  by simp

lemma be_get_ring [simp]:
  "be_get32 (be_put32 [] n @ be_put64 [] q) 0 = Some n"
  "be_get64 (be_put32 [] n @ be_put64 [] q) 4 = Some q"
  "be_get32 (z # be_put32 [] n) 1 = Some n"
  using be32.get_put_at [of "[]" 0] be64.get_local [of "be_put32 [] n" "be_put64 [] q" 0]
    be32.get_local [of "[z]" "be_put32 [] n" 0] be64.get_put_Nil [of q] be32.get_put_Nil [of n]
  by simp_all

lemma enum_ranges [simp]:
  "TlsSupported_u8 tls \<le> 2" "NodeListType_u8 ty \<le> 3" "Vote_u8 v \<le> 5" "Heuristics_u8 h \<le> 2"
  "TieBreakerMode_u8 tb \<le> 3" "1 \<le> TieBreakerMode_u8 tb"
  by (cases tls; cases ty; cases v; cases h; cases tb; simp)+

lemma decode_option_simps [codec_simps]:
  "md.decode_option (0, be_put32 [] seq) out = Some (out\<lparr>m_seq_number := seq, m_seq_number_set := True\<rparr>)"
  "md.decode_option (2, [TlsSupported_u8 tls]) out = Some (out\<lparr>m_tls_supported := tls, m_tls_supported_set := True\<rparr>)"
  "md.decode_option (3, [b]) out =
     Some (out\<lparr>m_tls_client_cert_required := b, m_tls_client_cert_required_set := True\<rparr>)"
  "md.decode_option (6, d) out = Some out"
  "md.decode_option (7, d) out = Some out"
  "md.decode_option (8, d) out = Some out"
  "md.decode_option (10, d) out = Some out"
  "md.decode_option (12, be_put32 [] w) out =
     Some (out\<lparr>m_heartbeat_interval := w, m_heartbeat_interval_set := True\<rparr>)"
  "md.decode_option (13, be_put32 [] n @ be_put64 [] q) out =
     Some (out\<lparr>m_ring_id := \<lparr>ring_node_id = n, ring_seq = q\<rparr>, m_ring_id_set := True\<rparr>)"
  "md.decode_option (18, [NodeListType_u8 ty]) out =
     Some (out\<lparr>m_node_list_type := ty, m_node_list_type_set := True\<rparr>)"
  "md.decode_option (19, [Vote_u8 v]) out = Some (out\<lparr>m_vote := v, m_vote_set := True\<rparr>)"
  "md.decode_option (23, [b]) out =
     Some (out\<lparr>m_keep_active_partition_tie_breaker := b, m_keep_active_partition_tie_breaker_set := True\<rparr>)"
  by (simp_all add: md.decode_option_def msg_decode_opt_def not_less)


lemma decode_option_heuristics [codec_simps]:
  "md.decode_option (22, [Heuristics_u8 h]) out = Some (out\<lparr>m_heuristics := h\<rparr>)"
  by (cases h) (simp_all add: md.decode_option_def msg_decode_opt_def not_less Heuristics_of_def)

lemma decode_option_even [codec_simps]:
  assumes "even (length d)" and "length d < 2 ^ 16"
  shows "md.decode_option (4, d) out = Some (out\<lparr>m_supported_messages_present := True\<rparr>)"
    and "md.decode_option (5, d) out = Some (out\<lparr>m_supported_options_present := True\<rparr>)"
  using assms by (simp_all add: md.decode_option_def msg_decode_opt_def unat_of_nat_small)

lemmas builder_defs =
  build_preinit_reply_def build_server_error_def build_init_reply_def build_set_option_reply_def
  build_node_list_reply_def build_vote_info_def build_heuristics_change_reply_def

text \<open>A frame made by \<open>begin_frame\<close>, the writer and \<open>end_frame\<close> decodes to the fold over the
  options that were written.\<close>

lemma decode_built_frame:
  assumes "f = end_frame (begin_frame t @ tlv_encode ts)" and "t \<in> set msg_types"
    and "\<forall>(t, d)\<in>set ts. length d < 2 ^ 16"
    and "fold_ub md.decode_option ts (MsgDecoded\<lparr>m_type := t\<rparr>) = Some out"
  shows "decode_frame f = Some (Some out)"
  using assms by (simp add: end_frame_begin decode_frame_of)

lemma vote_info_roundtrip:
  "decode_frame (build_vote_info seq ring v) =
     Some (Some (MsgDecoded\<lparr>m_type := MsgType_VOTE_INFO, m_seq_number := seq, m_seq_number_set := True,
       m_vote := v, m_vote_set := True, m_ring_id := ring, m_ring_id_set := True\<rparr>))"
  by (rule decode_built_frame [where t = MsgType_VOTE_INFO and ts = "[(0, be_put32 [] seq), (19, [Vote_u8 v]),
    (13, be_put32 [] (ring_node_id ring) @ be_put64 [] (ring_seq ring))]"])
    (auto simp: build_vote_info_def writer_encode msg_types_def codec_simps)

lemma preinit_reply_roundtrip:
  "decode_frame (build_preinit_reply seq_set seq tls cert) =
     Some (Some (MsgDecoded\<lparr>m_type := MsgType_PREINIT_REPLY,
       m_seq_number := (if seq_set then seq else 0), m_seq_number_set := seq_set,
       m_tls_supported := tls, m_tls_supported_set := True,
       m_tls_client_cert_required := cert, m_tls_client_cert_required_set := True\<rparr>))"
  by (rule decode_built_frame [where t = MsgType_PREINIT_REPLY and ts = "(if seq_set then [(0, be_put32 [] seq)] else []) @ [(2, [TlsSupported_u8 tls]), (3, [cert])]"])
    (auto simp: build_preinit_reply_def writer_encode msg_types_def codec_simps MsgDecoded_def)

lemma server_error_roundtrip:
  "decode_frame (build_server_error seq_set seq code) =
     Some (Some (MsgDecoded\<lparr>m_type := MsgType_SERVER_ERROR,
       m_seq_number := (if seq_set then seq else 0), m_seq_number_set := seq_set\<rparr>))"
  by (rule decode_built_frame [where t = MsgType_SERVER_ERROR and ts = "(if seq_set then [(0, be_put32 [] seq)] else []) @ [(6, be_put16 [] (ReplyErrorCode_u16 code))]"])
    (auto simp: build_server_error_def writer_encode msg_types_def codec_simps MsgDecoded_def)

lemma node_list_reply_roundtrip:
  "decode_frame (build_node_list_reply seq ty ring v) =
     Some (Some (MsgDecoded\<lparr>m_type := MsgType_NODE_LIST_REPLY, m_seq_number := seq, m_seq_number_set := True,
       m_node_list_type := ty, m_node_list_type_set := True, m_ring_id := ring, m_ring_id_set := True,
       m_vote := v, m_vote_set := True\<rparr>))"
  by (rule decode_built_frame [where t = MsgType_NODE_LIST_REPLY and ts = "[(0, be_put32 [] seq), (18, [NodeListType_u8 ty]),
    (13, be_put32 [] (ring_node_id ring) @ be_put64 [] (ring_seq ring)), (19, [Vote_u8 v])]"])
    (auto simp: build_node_list_reply_def writer_encode msg_types_def codec_simps)

lemma heuristics_change_reply_roundtrip:
  "decode_frame (build_heuristics_change_reply seq_set seq v) =
     Some (Some (MsgDecoded\<lparr>m_type := MsgType_HEURISTICS_CHANGE_REPLY,
       m_seq_number := (if seq_set then seq else 0), m_seq_number_set := seq_set,
       m_vote := v, m_vote_set := True\<rparr>))"
  by (rule decode_built_frame [where t = MsgType_HEURISTICS_CHANGE_REPLY and ts = "(if seq_set then [(0, be_put32 [] seq)] else []) @ [(19, [Vote_u8 v])]"])
    (auto simp: build_heuristics_change_reply_def writer_encode msg_types_def codec_simps MsgDecoded_def)

lemma set_option_reply_roundtrip:
  "decode_frame (build_set_option_reply seq_set seq hb_set hb kaptb_set kaptb) =
     Some (Some (MsgDecoded\<lparr>m_type := MsgType_SET_OPTION_REPLY,
       m_seq_number := (if seq_set then seq else 0), m_seq_number_set := seq_set,
       m_heartbeat_interval := (if hb_set then hb else 0), m_heartbeat_interval_set := hb_set,
       m_keep_active_partition_tie_breaker := (if kaptb_set then kaptb else 0),
       m_keep_active_partition_tie_breaker_set := kaptb_set\<rparr>))"
  by (rule decode_built_frame [where t = MsgType_SET_OPTION_REPLY and ts = "(if seq_set then [(0, be_put32 [] seq)] else []) @ (if hb_set then [(12, be_put32 [] hb)] else [])
    @ (if kaptb_set then [(23, [kaptb])] else [])"])
    (auto simp: build_set_option_reply_def writer_encode msg_types_def codec_simps MsgDecoded_def)

lemma init_reply_roundtrip:
  "decode_frame (build_init_reply seq_set seq code msgs opts max_req max_rep) =
     Some (Some (MsgDecoded\<lparr>m_type := MsgType_INIT_REPLY,
       m_seq_number := (if seq_set then seq else 0), m_seq_number_set := seq_set,
       m_supported_messages_present := msgs, m_supported_options_present := opts\<rparr>))"
proof -
  have lens: "length SUPPORTED_MESSAGES = 18" "length SUPPORTED_OPTIONS = 24" "length SUPPORTED_ALGORITHMS = 1"
    by (auto simp: SUPPORTED_MESSAGES_def SUPPORTED_OPTIONS_def SUPPORTED_ALGORITHMS_def)
  show ?thesis
    by (rule decode_built_frame [where t = MsgType_INIT_REPLY and ts = "(if seq_set then [(0, be_put32 [] seq)] else []) @ [(6, be_put16 [] (ReplyErrorCode_u16 code))]
    @ (if msgs then [(4, foldl be_put16 [] SUPPORTED_MESSAGES)] else [])
    @ (if opts then [(5, foldl be_put16 [] SUPPORTED_OPTIONS)] else [])
    @ [(7, be_put32 [] max_req), (8, be_put32 [] max_rep), (10, foldl be_put16 [] SUPPORTED_ALGORITHMS)]"])
      (auto simp: build_init_reply_def writer_encode add_u16_array_encode lens msg_types_def codec_simps MsgDecoded_def)
qed

lemma echo_reply_roundtrip:
  assumes "MSG_HEADER_LEN \<le> length f"
  shows "be_get16 (build_echo_reply f) 0 = Some (MsgType_u16 MsgType_ECHO_REPLY)"
    and "drop 2 (build_echo_reply f) = drop 2 f" and "length (build_echo_reply f) = length f"
proof -
  obtain a b r where f: "f = a # b # r"
    using assms by (cases f; cases "tl f") (auto simp: MSG_HEADER_LEN_def)
  then show "be_get16 (build_echo_reply f) 0 = Some (MsgType_u16 MsgType_ECHO_REPLY)"
    and "drop 2 (build_echo_reply f) = drop 2 f" and "length (build_echo_reply f) = length f"
    by (simp_all add: build_echo_reply_def be_get16_def codec_simps)
qed

subsection \<open>Node lists\<close>

definition node_info_tlvs :: "node_info \<Rightarrow> (u16 \<times> bytes) list" where
  "node_info_tlvs n =
     (9, be_put32 [] (ni_node_id n)) #
     (if ni_data_center_id n \<noteq> 0 then [(15, be_put32 [] (ni_data_center_id n))] else []) @
     (if ni_state n \<noteq> NodeState_NOT_SET then [(16, [NodeState_u8 (ni_state n)])] else [])"

lemma node_info_tlvs_small: "\<forall>(t, d)\<in>set (node_info_tlvs n). length d < 2 ^ 16"
  by (auto simp: node_info_tlvs_def)

lemma length_node_info_tlvs: "length (tlv_encode (node_info_tlvs n)) < 2 ^ 16"
  by (auto simp: node_info_tlvs_def length_tlv_encode1)

lemma add_node_info_encode: "add_node_info buf n = buf @ tlv_encode1 (17, tlv_encode (node_info_tlvs n))"
proof -
  have "add_node_info buf n = tlv_add buf TlvOpt_NODE_INFO (tlv_encode (node_info_tlvs n))
      (of_nat (length (tlv_encode (node_info_tlvs n))))"
    by (simp add: add_node_info_def node_info_tlvs_def writer_encode Let_def add.assoc)
  also have "\<dots> = buf @ tlv_encode1 (17, tlv_encode (node_info_tlvs n))"
    by (subst tlv_add_encode [OF length_node_info_tlvs]) simp_all
  finally show ?thesis .
qed

definition wire_node :: "node_info \<Rightarrow> bool" where
  "wire_node n \<longleftrightarrow> NodeState_of (NodeState_u8 (ni_state n)) = ni_state n"

lemma node_info_decode_simps [codec_simps]:
  "ni.decode_option (9, be_put32 [] w) (h, n) = Some (True, n\<lparr>ni_node_id := w\<rparr>)"
  "ni.decode_option (15, be_put32 [] w) (h, n) = Some (h, n\<lparr>ni_data_center_id := w\<rparr>)"
  "ni.decode_option (16, [b]) (h, n) = Some (h, n\<lparr>ni_state := NodeState_of b\<rparr>)"
  by (simp_all add: ni.decode_option_def decode_node_info_opt_def)

lemma node_info_roundtrip:
  assumes "wire_node n"
  shows "decode_node_info (tlv_encode (node_info_tlvs n)) = Some (Some n)"
proof -
  have "parse_tlvs (tlv_encode (node_info_tlvs n)) = Some (node_info_tlvs n)"
    using parse_tlvs_encode_append [OF node_info_tlvs_small, of n "[]"] by simp
  moreover have "fold_ub ni.decode_option (node_info_tlvs n) (False, NodeInfo) = Some (True, n)"
    using assms by (auto simp: node_info_tlvs_def codec_simps NodeInfo_def wire_node_def)
  ultimately show ?thesis by (simp add: decode_node_info_parse)
qed

lemma decode_option_node_info [codec_simps]:
  assumes "wire_node n"
  shows "md.decode_option (17, tlv_encode (node_info_tlvs n)) out =
    (if length (m_nodes out) < MAX_NODES_PER_LIST then Some (out\<lparr>m_nodes := m_nodes out @ [n]\<rparr>) else None)"
  using node_info_roundtrip [OF assms]
  by (simp add: md.decode_option_def msg_decode_opt_def not_less del: tlv_encode_simps)

lemma decode_node_infos:
  assumes "\<forall>n\<in>set ns. wire_node n"
  shows "fold_ub md.decode_option (map (\<lambda>n. (17, tlv_encode (node_info_tlvs n))) ns) out =
    (if ns = [] \<or> length (m_nodes out) + length ns \<le> MAX_NODES_PER_LIST
     then Some (out\<lparr>m_nodes := m_nodes out @ ns\<rparr>) else None)"
  using assms
proof (induction ns arbitrary: out)
  case Nil
  show ?case by simp
next
  case (Cons n ns)
  then show ?case by (auto simp: decode_option_node_info simp del: tlv_encode_simps)
qed

text \<open>The decoder accepts no more than sixteen nodes, and keeps the type of the frame.\<close>

lemma decode_option_bounds:
  assumes "md.decode_option (t, d) out = Some out'" and "length d < 2 ^ 16"
    and "length (m_nodes out) \<le> MAX_NODES_PER_LIST"
  shows "length (m_nodes out') \<le> MAX_NODES_PER_LIST \<and> m_type out' = m_type out"
proof -
  have "msg_decode_opt t (of_nat (length d)) d out = Some (Some out')"
    using md.body_decode_option [of "of_nat (length d)" d t out] assms(1,2)
    by (simp add: unat_of_nat_small)
  with assms(3) show ?thesis
    by (cases "TlvOpt_of t")
      (auto simp: msg_decode_opt_def bind_eq_Some_conv split: if_split_asm option.split_asm)
qed

lemma msg_decode_bounds:
  assumes "msg_decode t bs = Some (Some m)"
  shows "length (m_nodes m) \<le> MAX_NODES_PER_LIST" and "m_type m = t"
proof -
  from assms obtain ts where ts: "parse_tlvs bs = Some ts"
    and fold: "fold_ub md.decode_option ts (MsgDecoded\<lparr>m_type := t\<rparr>) = Some m"
    by (auto simp: msg_decode_parse bind_eq_Some_conv)
  have "length (m_nodes m) \<le> MAX_NODES_PER_LIST \<and> m_type m = t"
  proof (rule fold_ub_result [OF fold])
    fix x out out'
    assume "x \<in> set ts" and "md.decode_option x out = Some out'"
      and "length (m_nodes out) \<le> MAX_NODES_PER_LIST \<and> m_type out = t"
    moreover from this parse_tlvs_sound [OF ts] have "length (snd x) < 2 ^ 16" by auto
    ultimately show "length (m_nodes out') \<le> MAX_NODES_PER_LIST \<and> m_type out' = t"
      using decode_option_bounds [of "fst x" "snd x" out out'] by simp
  qed (simp add: MsgDecoded_def)
  then show "length (m_nodes m) \<le> MAX_NODES_PER_LIST" and "m_type m = t" by auto
qed

lemma msg_decode_defined: "\<exists>r. msg_decode t bs = Some r"
  by (simp add: msg_decode_parse)

end
