(* ===== verification/Server_State.thy ===== *)
theory Server_State
  imports Msg
begin

text \<open>
  The state of the server core: \<^verbatim>\<open>components/qnetd/server.h\<close>. \<open>server\<close> is the class \<open>Server\<close>
  with its arrays of sessions and clusters; \<open>outs\<close> records, in order, what the server
  asks of its environment: frames handed to \<open>Transport::send_frame\<close>, connections closed
  with \<open>Transport::close_connection\<close>, and calls of \<open>on_state_change\<close>. \<open>Transport\<close> may not
  call back into the server, so nothing comes back from these calls. Log lines are not
  modelled.

  Slots are \<^verbatim>\<open>int\<close> in the source; the entry points check their range, after which they
  are natural numbers here.
\<close>

subsection \<open>Constants\<close>

definition MAX_CLIENTS :: nat where
  "MAX_CLIENTS = 8"

definition MAX_CLUSTERS :: nat where
  "MAX_CLUSTERS = 2"

definition HEARTBEAT_MIN_MS :: u32 where
  "HEARTBEAT_MIN_MS = 1000"

definition HEARTBEAT_MAX_MS :: u32 where
  "HEARTBEAT_MAX_MS = 2 * 60 * 1000"

definition PREACTIVE_TIMEOUT_MS :: u64 where
  "PREACTIVE_TIMEOUT_MS = 30000"

text \<open>\<^verbatim>\<open>uint64_t(DPD_COEFFICIENT * heartbeat_ms)\<close> with the coefficient 1.5: the product of
  a 32-bit integer and 1.5 is exact in a double, and the cast truncates.\<close>

definition dpd_interval :: "u32 \<Rightarrow> u64" where
  "dpd_interval heartbeat_ms = of_nat (3 * unat heartbeat_ms div 2)"

lemma unat_ucast_64: "unat (ucast (h :: u32) :: u64) = unat h"
  by (simp add: unsigned_ucast_eq take_bit_nat_eq_self_iff less_trans [OF unsigned_less])

lemma unat_dpd_interval: "unat (dpd_interval h) = 3 * unat h div 2"
proof -
  have "unat h < 2 ^ 32" using unsigned_less [of h] by simp
  then show ?thesis unfolding dpd_interval_def by (simp add: unsigned_of_nat take_bit_nat_eq_self_iff)
qed

lemma dpd_interval_code [code]: "dpd_interval h = drop_bit 1 (3 * ucast h)"
proof (rule word_unat_eq_iff [THEN iffD2])
  have h: "unat h < 2 ^ 32" using unsigned_less [of h] by simp
  have "unat (3 * ucast h :: u64) = 3 * unat h"
    using h unat_mult_lem [of "3 :: u64" "ucast h"] by (simp add: unat_ucast_64)
  then show "unat (dpd_interval h) = unat (drop_bit 1 (3 * ucast h :: u64))"
    by (simp add: unat_dpd_interval unat_div_distrib drop_bit_eq_div)
qed

subsection \<open>Sessions, clusters, the server\<close>

datatype phase = FREE | WAIT_PREINIT | WAIT_INIT | ACTIVE

datatype ff_client_state = Client_WAITING_FOR_CHANGE | SENDING_NACK | SENDING_ACK

datatype ff_cluster_state =
    Cluster_WAITING_FOR_CHANGE | WAITING_FOR_STABLE_MEMBERSHIP | SENDING_NACKS | SENDING_ACKS

record cluster_info =
  cl_used :: bool
  cl_name :: string
  cl_members :: int
  cl_state :: ff_cluster_state
  quorate_partition :: node_list

definition Cluster :: cluster_info where
  "Cluster = \<lparr>cl_used = False, cl_name = [], cl_members = 0,
     cl_state = Cluster_WAITING_FOR_CHANGE, quorate_partition = []\<rparr>"

record session =
  phase :: phase
  peer :: string
  cluster_name :: string
  cluster :: int
  node_id :: u32
  last_ring_id :: ring_id
  heartbeat_ms :: u32
  tie_breaker :: tie_breaker
  algorithm :: algorithm
  keep_active_partition_tb :: bool
  config_list :: node_list
  config_version_set :: bool
  config_version :: u64
  membership_list :: node_list
  quorum_list :: node_list
  last_heuristics :: heuristics
  last_sent_vote :: vote
  last_ack_nack :: vote
  ff_state :: ff_client_state
  vote_info_seq :: u32
  deadline_ms :: u64
  schedule_disconnect :: bool
  rx :: bytes

definition Session :: session where
  "Session =
    \<lparr>phase = FREE, peer = [], cluster_name = [], cluster = -1, node_id = 0,
     last_ring_id = RingId, heartbeat_ms = 0, tie_breaker = TieBreaker,
     algorithm = Algorithm_FFSPLIT, keep_active_partition_tb = True, config_list = [],
     config_version_set = False, config_version = 0, membership_list = [], quorum_list = [],
     last_heuristics = Heuristics_UNDEFINED, last_sent_vote = Vote_UNDEFINED,
     last_ack_nack = Vote_UNDEFINED, ff_state = Client_WAITING_FOR_CHANGE,
     vote_info_seq = 0, deadline_ms = 0, schedule_disconnect = False, rx = []\<rparr>"

datatype out_event =
    SendFrame nat frame
  | CloseConnection nat
  | StateChange

record server =
  sessions :: "session list"
  clusters :: "cluster_info list"
  pending_close :: "nat list"
  processing :: bool
  decisions :: u32
  max_rx_frame :: u32
  on_state_change :: bool
  outs :: "out_event list"

definition Server :: "u32 \<Rightarrow> bool \<Rightarrow> server" where
  "Server max_rx has_callback =
    \<lparr>sessions = replicate MAX_CLIENTS Session, clusters = replicate MAX_CLUSTERS Cluster,
     pending_close = [], processing = False, decisions = 0, max_rx_frame = max_rx,
     on_state_change = has_callback, outs = []\<rparr>"

subsection \<open>Access\<close>

definition session_at :: "server \<Rightarrow> nat \<Rightarrow> session ub" where
  "session_at srv slot = at_ub (sessions srv) slot"

definition cluster_at :: "server \<Rightarrow> int \<Rightarrow> cluster_info ub" where
  "cluster_at srv c = (if c < 0 then None else at_ub (clusters srv) (nat c))"

definition set_session :: "server \<Rightarrow> nat \<Rightarrow> session \<Rightarrow> server" where
  "set_session srv slot s = srv\<lparr>sessions := (sessions srv)[slot := s]\<rparr>"

definition set_cluster :: "server \<Rightarrow> int \<Rightarrow> cluster_info \<Rightarrow> server" where
  "set_cluster srv c cl = srv\<lparr>clusters := (clusters srv)[nat c := cl]\<rparr>"

text \<open>The test the cluster walks share: \<^verbatim>\<open>s.phase == Phase::ACTIVE && s.cluster == cluster\<close>.\<close>

definition active_in :: "session \<Rightarrow> int \<Rightarrow> bool" where
  "active_in s c \<longleftrightarrow> phase s = ACTIVE \<and> cluster s = c"

subsection \<open>Plumbing\<close>

definition send_frame :: "server \<Rightarrow> nat \<Rightarrow> frame \<Rightarrow> server" where
  "send_frame srv slot f = srv\<lparr>outs := outs srv @ [SendFrame slot f]\<rparr>"

definition send_err :: "server \<Rightarrow> nat \<Rightarrow> msg_decoded \<Rightarrow> reply_error_code \<Rightarrow> server" where
  "send_err srv slot m code =
     send_frame srv slot (build_server_error (m_seq_number_set m) (m_seq_number m) code)"

definition close_connection :: "server \<Rightarrow> nat \<Rightarrow> server" where
  "close_connection srv slot = srv\<lparr>outs := outs srv @ [CloseConnection slot]\<rparr>"

definition notify :: "server \<Rightarrow> server" where
  "notify srv = (if on_state_change srv then srv\<lparr>outs := outs srv @ [StateChange]\<rparr> else srv)"

definition reschedule_dpd :: "session \<Rightarrow> u64 \<Rightarrow> session" where
  "reschedule_dpd s now_ms =
     (if phase s = ACTIVE \<and> heartbeat_ms s > 0
      then s\<lparr>deadline_ms := now_ms + dpd_interval (heartbeat_ms s)\<rparr>
      else if phase s \<noteq> FREE \<and> phase s \<noteq> ACTIVE
      then s\<lparr>deadline_ms := now_ms + PREACTIVE_TIMEOUT_MS\<rparr>
      else s)"

subsection \<open>What the plumbing leaves unchanged\<close>

lemma plumbing_frame [simp]:
  "sessions (send_frame srv i f) = sessions srv" "clusters (send_frame srv i f) = clusters srv"
  "pending_close (send_frame srv i f) = pending_close srv" "processing (send_frame srv i f) = processing srv"
  "decisions (send_frame srv i f) = decisions srv" "max_rx_frame (send_frame srv i f) = max_rx_frame srv"
  "on_state_change (send_frame srv i f) = on_state_change srv"
  "outs (send_frame srv i f) = outs srv @ [SendFrame i f]"
  "sessions (close_connection srv i) = sessions srv" "clusters (close_connection srv i) = clusters srv"
  "pending_close (close_connection srv i) = pending_close srv"
  "processing (close_connection srv i) = processing srv"
  "decisions (close_connection srv i) = decisions srv"
  "max_rx_frame (close_connection srv i) = max_rx_frame srv"
  "on_state_change (close_connection srv i) = on_state_change srv"
  "outs (close_connection srv i) = outs srv @ [CloseConnection i]"
  "sessions (notify srv) = sessions srv" "clusters (notify srv) = clusters srv"
  "pending_close (notify srv) = pending_close srv" "processing (notify srv) = processing srv"
  "decisions (notify srv) = decisions srv" "max_rx_frame (notify srv) = max_rx_frame srv"
  "on_state_change (notify srv) = on_state_change srv"
  by (simp_all add: send_frame_def close_connection_def notify_def)

lemma set_session_frame [simp]:
  "sessions (set_session srv i s) = (sessions srv)[i := s]" "clusters (set_session srv i s) = clusters srv"
  "pending_close (set_session srv i s) = pending_close srv"
  "processing (set_session srv i s) = processing srv"
  "decisions (set_session srv i s) = decisions srv"
  "max_rx_frame (set_session srv i s) = max_rx_frame srv"
  "on_state_change (set_session srv i s) = on_state_change srv" "outs (set_session srv i s) = outs srv"
  by (simp_all add: set_session_def)

lemma set_cluster_frame [simp]:
  "sessions (set_cluster srv c cl) = sessions srv" "clusters (set_cluster srv c cl) = (clusters srv)[nat c := cl]"
  "pending_close (set_cluster srv c cl) = pending_close srv"
  "processing (set_cluster srv c cl) = processing srv"
  "decisions (set_cluster srv c cl) = decisions srv"
  "max_rx_frame (set_cluster srv c cl) = max_rx_frame srv"
  "on_state_change (set_cluster srv c cl) = on_state_change srv" "outs (set_cluster srv c cl) = outs srv"
  by (simp_all add: set_cluster_def)

lemma reschedule_dpd_frame [simp]:
  "phase (reschedule_dpd s now) = phase s" "peer (reschedule_dpd s now) = peer s"
  "cluster_name (reschedule_dpd s now) = cluster_name s" "cluster (reschedule_dpd s now) = cluster s"
  "node_id (reschedule_dpd s now) = node_id s" "last_ring_id (reschedule_dpd s now) = last_ring_id s"
  "heartbeat_ms (reschedule_dpd s now) = heartbeat_ms s"
  "tie_breaker (reschedule_dpd s now) = tie_breaker s" "algorithm (reschedule_dpd s now) = algorithm s"
  "keep_active_partition_tb (reschedule_dpd s now) = keep_active_partition_tb s"
  "config_list (reschedule_dpd s now) = config_list s"
  "membership_list (reschedule_dpd s now) = membership_list s"
  "quorum_list (reschedule_dpd s now) = quorum_list s"
  "last_heuristics (reschedule_dpd s now) = last_heuristics s"
  "last_sent_vote (reschedule_dpd s now) = last_sent_vote s"
  "last_ack_nack (reschedule_dpd s now) = last_ack_nack s" "ff_state (reschedule_dpd s now) = ff_state s"
  "vote_info_seq (reschedule_dpd s now) = vote_info_seq s"
  "schedule_disconnect (reschedule_dpd s now) = schedule_disconnect s" "rx (reschedule_dpd s now) = rx s"
  by (simp_all add: reschedule_dpd_def)

lemma session_at_Some [simp]: "i < length (sessions srv) \<Longrightarrow> session_at srv i = Some (sessions srv ! i)"
  by (simp add: session_at_def)

lemma session_at_eq_Some_iff: "session_at srv i = Some s \<longleftrightarrow> i < length (sessions srv) \<and> s = sessions srv ! i"
  by (simp add: session_at_def at_ub_eq_Some_iff)

lemma cluster_at_Some [simp]:
  "0 \<le> c \<Longrightarrow> nat c < length (clusters srv) \<Longrightarrow> cluster_at srv c = Some (clusters srv ! nat c)"
  by (simp add: cluster_at_def)

lemma cluster_at_eq_Some_iff:
  "cluster_at srv c = Some cl \<longleftrightarrow> 0 \<le> c \<and> nat c < length (clusters srv) \<and> cl = clusters srv ! nat c"
  by (auto simp: cluster_at_def at_ub_eq_Some_iff)

end
