(* ===== verification/Ffsplit.thy ===== *)
theory Ffsplit
  imports Server_State
begin

text \<open>
  The decision algorithm: \<^verbatim>\<open>components/qnetd/server.cpp\<close>, lines 462--779. A decision looks
  at all active clients of one cluster. The client that triggered it takes part with
  the lists it is just reporting (\<open>trigger_view\<close>), the others with what the server
  stored. Pointers to a session become slot numbers, so that the comparison of
  addresses is a comparison of slots.
\<close>

subsection \<open>The trigger and the effective view of a client\<close>

record trigger_view =
  tv_slot :: nat
  tv_leaving :: bool
  tv_ring_id :: ring_id
  tv_config :: node_list
  tv_membership :: node_list
  tv_heuristics :: heuristics

definition skip_in_cluster_walk :: "server \<Rightarrow> session \<Rightarrow> trigger_view \<Rightarrow> bool" where
  "skip_in_cluster_walk srv s tv \<longleftrightarrow> tv_leaving tv \<and> node_id s = node_id (sessions srv ! tv_slot tv)"

definition eff_config :: "server \<Rightarrow> nat \<Rightarrow> trigger_view \<Rightarrow> node_list" where
  "eff_config srv i tv =
     (if \<not> tv_leaving tv \<and> i = tv_slot tv then tv_config tv else config_list (sessions srv ! i))"

definition eff_membership :: "server \<Rightarrow> nat \<Rightarrow> trigger_view \<Rightarrow> node_list" where
  "eff_membership srv i tv =
     (if \<not> tv_leaving tv \<and> i = tv_slot tv then tv_membership tv else membership_list (sessions srv ! i))"

definition eff_ring :: "server \<Rightarrow> nat \<Rightarrow> trigger_view \<Rightarrow> ring_id" where
  "eff_ring srv i tv =
     (if \<not> tv_leaving tv \<and> i = tv_slot tv then tv_ring_id tv else last_ring_id (sessions srv ! i))"

definition eff_heuristics :: "server \<Rightarrow> nat \<Rightarrow> trigger_view \<Rightarrow> heuristics" where
  "eff_heuristics srv i tv =
     (if \<not> tv_leaving tv \<and> i = tv_slot tv then tv_heuristics tv else last_heuristics (sessions srv ! i))"

text \<open>The condition under which the walks over a cluster do not \<^verbatim>\<open>continue\<close>.\<close>

definition in_walk :: "server \<Rightarrow> int \<Rightarrow> trigger_view \<Rightarrow> nat \<Rightarrow> bool" where
  "in_walk srv c tv i \<longleftrightarrow>
     active_in (sessions srv ! i) c \<and> \<not> skip_in_cluster_walk srv (sessions srv ! i) tv"

subsection \<open>Stability\<close>

definition ffsplit_is_stable :: "server \<Rightarrow> trigger_view \<Rightarrow> bool" where
  "ffsplit_is_stable srv tv =
    (let c = cluster (sessions srv ! tv_slot tv) in
      list_all (\<lambda>i. \<not> in_walk srv c tv i \<or>
        list_all (\<lambda>j. i = j \<or> \<not> in_walk srv c tv j \<or>
          list_all (\<lambda>n. node_list_find (eff_config srv j tv) (ni_node_id n) \<noteq> None)
            (eff_config srv i tv))
          [0..<MAX_CLIENTS])
        [0..<MAX_CLIENTS]
      \<and>
      list_all (\<lambda>i. \<not> in_walk srv c tv i \<or>
        list_all (\<lambda>n.
          case List.find (\<lambda>j. node_id (sessions srv ! j) = ni_node_id n \<and> in_walk srv c tv j)
                 [0..<MAX_CLIENTS] of
            None \<Rightarrow> True
          | Some j \<Rightarrow>
              ring_id_eq (eff_ring srv i tv) (eff_ring srv j tv) \<and>
              list_all (\<lambda>n3. node_list_find (eff_membership srv j tv) (ni_node_id n3) \<noteq> None)
                (eff_membership srv i tv))
          (eff_membership srv i tv))
        [0..<MAX_CLIENTS])"

subsection \<open>Comparing partitions\<close>

definition ffsplit_is_preferred_partition :: "server \<Rightarrow> nat \<Rightarrow> node_list \<Rightarrow> node_list \<Rightarrow> bool ub" where
  "ffsplit_is_preferred_partition srv c cfg mem = do {
     preferred \<leftarrow>
       (case tb_mode (tie_breaker (sessions srv ! c)) of
          LOWEST \<Rightarrow>
            (case cfg of
               [] \<Rightarrow> None
             | front # _ \<Rightarrow>
                 Some (foldl (\<lambda>p n. if ni_node_id n < p then ni_node_id n else p) (ni_node_id front) cfg))
        | HIGHEST \<Rightarrow>
            (case cfg of
               [] \<Rightarrow> None
             | front # _ \<Rightarrow>
                 Some (foldl (\<lambda>p n. if ni_node_id n > p then ni_node_id n else p) (ni_node_id front) cfg))
        | NODE_ID \<Rightarrow> Some (tb_node_id (tie_breaker (sessions srv ! c))));
     Some (node_list_find mem preferred \<noteq> None)
   }"

definition ffsplit_partition_stats ::
    "server \<Rightarrow> nat option \<Rightarrow> node_list option \<Rightarrow> heuristics \<Rightarrow> nat \<times> nat \<times> nat" where
  "ffsplit_partition_stats srv c mem h =
    (case (c, mem) of
       (Some c, Some mem) \<Rightarrow>
         foldl (\<lambda>(clients, pass, fail) n.
           case List.find (\<lambda>i. active_in (sessions srv ! i) (cluster (sessions srv ! c))
                               \<and> node_id (sessions srv ! i) = ni_node_id n) [0..<MAX_CLIENTS] of
             None \<Rightarrow> (clients, pass, fail)
           | Some i \<Rightarrow>
               (let eff = (if i = c then h else last_heuristics (sessions srv ! i))
                in (clients + 1,
                    if eff = Heuristics_PASS then pass + 1 else pass,
                    if eff \<noteq> Heuristics_PASS \<and> eff = Heuristics_FAIL then fail + 1 else fail)))
           (0, 0, 0) mem
     | _ \<Rightarrow> (0, 0, 0))"

text \<open>\<open>score\<close> is computed in \<^verbatim>\<open>int64_t\<close>; the counts are at most sixteen.\<close>

definition ffsplit_partition_better ::
    "server \<Rightarrow> nat \<Rightarrow> node_list \<Rightarrow> node_list \<Rightarrow> heuristics
     \<Rightarrow> nat option \<Rightarrow> node_list option \<Rightarrow> node_list option \<Rightarrow> heuristics
     \<Rightarrow> node_list \<Rightarrow> bool \<Rightarrow> bool ub" where
  "ffsplit_partition_better srv c1 cfg1 mem1 h1 c2 cfg2 mem2 h2 prev_quorate keep_active_tb =
    (if length cfg1 mod 2 \<noteq> 0 then Some (length mem1 > length cfg1 div 2)
     else if length mem1 > length cfg1 div 2 then Some True
     else if length mem1 < length cfg1 div 2 then Some False
     else
       (let (n1, p1, f1) = ffsplit_partition_stats srv (Some c1) (Some mem1) h1;
            (n2, p2, f2) = ffsplit_partition_stats srv c2 mem2 h2;
            score1 = int n1 + (int p1 - int f1);
            score2 = int n2 + (int p2 - int f2)
        in if score1 \<noteq> score2 then Some (score1 > score2)
           else if n1 \<noteq> n2 then Some (n1 > n2)
           else
             (case c2 of
                Some c2' \<Rightarrow>
                  let in1 = (node_list_find prev_quorate (node_id (sessions srv ! c1)) \<noteq> None);
                      in2 = (node_list_find prev_quorate (node_id (sessions srv ! c2')) \<noteq> None)
                  in if keep_active_tb \<and> in1 \<noteq> in2 then Some in1
                     else ffsplit_is_preferred_partition srv c1 cfg1 mem1
              | None \<Rightarrow> ffsplit_is_preferred_partition srv c1 cfg1 mem1)))"

text \<open>The four variables \<open>best\<close>, \<open>best_cfg\<close>, \<open>best_mem\<close> and \<open>best_h\<close> of the selection loop.\<close>

type_synonym best_partition = "nat option \<times> node_list option \<times> node_list option \<times> heuristics"

definition ffsplit_select_step ::
    "server \<Rightarrow> trigger_view \<Rightarrow> int \<Rightarrow> node_list \<Rightarrow> bool \<Rightarrow> nat \<Rightarrow> best_partition \<Rightarrow> best_partition ub" where
  "ffsplit_select_step srv tv c prev_quorate keep_active_tb i best =
    (if \<not> in_walk srv c tv i then Some best
     else
       (let cfg = eff_config srv i tv; mem = eff_membership srv i tv; h = eff_heuristics srv i tv
        in if cfg = [] \<or> mem = [] then Some best
           else do {
             let (b, b_cfg, b_mem, b_h) = best;
             better \<leftarrow> ffsplit_partition_better srv i cfg mem h b b_cfg b_mem b_h
                        prev_quorate keep_active_tb;
             Some (if better then (Some i, Some cfg, Some mem, h) else best)
           }))"

definition ffsplit_keep_active_tb :: "server \<Rightarrow> int \<Rightarrow> bool" where
  "ffsplit_keep_active_tb srv c =
     list_all (\<lambda>i. active_in (sessions srv ! i) c \<longrightarrow> keep_active_partition_tb (sessions srv ! i))
       [0..<MAX_CLIENTS]"

definition ffsplit_select_partition :: "server \<Rightarrow> trigger_view \<Rightarrow> node_list option ub" where
  "ffsplit_select_partition srv tv = do {
     let c = cluster (sessions srv ! tv_slot tv);
     cl \<leftarrow> cluster_at srv c;
     let keep_active_tb = ffsplit_keep_active_tb srv c;
     (best, best_cfg, best_mem, best_h) \<leftarrow>
       fold_ub (ffsplit_select_step srv tv c (quorate_partition cl) keep_active_tb) [0..<MAX_CLIENTS]
         (None, None, None, Heuristics_UNDEFINED);
     Some best_mem
   }"

subsection \<open>Votes\<close>

definition ffsplit_update_states :: "server \<Rightarrow> trigger_view \<Rightarrow> node_list option \<Rightarrow> server" where
  "ffsplit_update_states srv tv winner =
    (let c = cluster (sessions srv ! tv_slot tv) in
     srv\<lparr>sessions := map (\<lambda>s.
       if \<not> active_in s c then s
       else if skip_in_cluster_walk srv s tv then s\<lparr>ff_state := Client_WAITING_FOR_CHANGE\<rparr>
       else if (case winner of None \<Rightarrow> True | Some w \<Rightarrow> node_list_find w (node_id s) = None)
       then s\<lparr>ff_state := SENDING_NACK\<rparr>
       else s\<lparr>ff_state := SENDING_ACK\<rparr>) (sessions srv)\<rparr>)"

definition ffsplit_send_vote ::
    "trigger_view \<Rightarrow> bool \<Rightarrow> int \<Rightarrow> nat \<Rightarrow> server \<times> nat \<Rightarrow> server \<times> nat" where
  "ffsplit_send_vote tv send_acks c i = (\<lambda>(srv, sent).
     if \<not> in_walk srv c tv i then (srv, sent)
     else
       (let s = sessions srv ! i;
            v = (if send_acks \<and> ff_state s = SENDING_ACK then Vote_ACK
                 else if \<not> send_acks \<and> ff_state s = SENDING_NACK then Vote_NACK
                 else Vote_UNDEFINED)
        in if v = Vote_UNDEFINED then (srv, sent)
           else
             (let ring = eff_ring srv i tv;
                  s = s\<lparr>vote_info_seq := vote_info_seq s + 1, last_sent_vote := v, last_ack_nack := v\<rparr>
              in (send_frame (set_session srv i s) i (build_vote_info (vote_info_seq s) ring v),
                  sent + 1))))"

definition ffsplit_send_votes :: "server \<Rightarrow> trigger_view \<Rightarrow> bool \<Rightarrow> server \<times> nat" where
  "ffsplit_send_votes srv tv send_acks =
     fold (ffsplit_send_vote tv send_acks (cluster (sessions srv ! tv_slot tv)))
       [0..<MAX_CLIENTS] (srv, 0)"

definition ffsplit_count_state :: "server \<Rightarrow> int \<Rightarrow> ff_client_state \<Rightarrow> nat" where
  "ffsplit_count_state srv c st =
     length (filter (\<lambda>i. active_in (sessions srv ! i) c \<and> ff_state (sessions srv ! i) = st)
       [0..<MAX_CLIENTS])"

subsection \<open>A decision\<close>

definition ffsplit_do :: "server \<Rightarrow> trigger_view \<Rightarrow> (server \<times> reply_error_code \<times> vote) ub" where
  "ffsplit_do srv tv = do {
     s \<leftarrow> session_at srv (tv_slot tv);
     let c = cluster s;
     cl \<leftarrow> cluster_at srv c;
     let cl = cl\<lparr>cl_state := WAITING_FOR_STABLE_MEMBERSHIP\<rparr>;
     let srv = set_cluster srv c cl;
     if \<not> ffsplit_is_stable srv tv then Some (srv, NO_ERROR, Vote_WAIT_FOR_REPLY)
     else do {
       winner \<leftarrow> ffsplit_select_partition srv tv;
       let srv = srv\<lparr>decisions := decisions srv + 1\<rparr>;
       let new_quorate = (case winner of None \<Rightarrow> [] | Some w \<Rightarrow> w);
       let srv = ffsplit_update_states srv tv winner;
       let cl = cl\<lparr>quorate_partition := new_quorate, cl_state := SENDING_NACKS\<rparr>;
       let (srv, sent) = ffsplit_send_votes (set_cluster srv c cl) tv False;
       if sent = 0
       then
         (let cl = cl\<lparr>cl_state := SENDING_ACKS\<rparr>;
              (srv, sent) = ffsplit_send_votes (set_cluster srv c cl) tv True;
              cl = (if sent = 0 then cl\<lparr>cl_state := Cluster_WAITING_FOR_CHANGE\<rparr> else cl)
          in Some (set_cluster srv c cl, NO_ERROR, Vote_NO_CHANGE))
       else Some (srv, NO_ERROR, Vote_NO_CHANGE)
     }
   }"

subsection \<open>Clusters\<close>

definition find_or_create_cluster :: "server \<Rightarrow> string \<Rightarrow> server \<times> int" where
  "find_or_create_cluster srv name =
    (case List.find (\<lambda>i. cl_used (clusters srv ! i) \<and> cl_name (clusters srv ! i) = name) [0..<MAX_CLUSTERS] of
       Some i \<Rightarrow> (srv, int i)
     | None \<Rightarrow>
         (case List.find (\<lambda>i. \<not> cl_used (clusters srv ! i)) [0..<MAX_CLUSTERS] of
            Some i \<Rightarrow> (set_cluster srv (int i) (Cluster\<lparr>cl_used := True, cl_name := name\<rparr>), int i)
          | None \<Rightarrow> (srv, -1)))"

definition leave_cluster :: "server \<Rightarrow> nat \<Rightarrow> server ub" where
  "leave_cluster srv slot = do {
     s \<leftarrow> session_at srv slot;
     if phase s \<noteq> ACTIVE \<or> cluster s < 0 then Some srv
     else do {
       let tv = \<lparr>tv_slot = slot, tv_leaving = True, tv_ring_id = last_ring_id s,
                 tv_config = config_list s, tv_membership = membership_list s,
                 tv_heuristics = last_heuristics s\<rparr>;
       (srv, code, result) \<leftarrow> ffsplit_do srv tv;
       cl \<leftarrow> cluster_at srv (cluster s);
       let cl = cl\<lparr>cl_members := cl_members cl - 1\<rparr>;
       let cl = (if cl_members cl \<le> 0 then Cluster else cl);
       let srv = set_cluster srv (cluster s) cl;
       s \<leftarrow> session_at srv slot;
       Some (set_session srv slot (s\<lparr>cluster := -1\<rparr>))
     }
   }"

definition cluster_client_by_node_id :: "server \<Rightarrow> int \<Rightarrow> u32 \<Rightarrow> int \<Rightarrow> nat option" where
  "cluster_client_by_node_id srv c nid except_slot =
     List.find (\<lambda>i. int i \<noteq> except_slot \<and> phase (sessions srv ! i) = ACTIVE \<and>
       cluster (sessions srv ! i) = c \<and> node_id (sessions srv ! i) = nid) [0..<MAX_CLIENTS]"

end
