(* ===== verification/Ffsplit_Facts.thy ===== *)
theory Ffsplit_Facts
  imports Ffsplit
begin

text \<open>
  The decision in closed form. \<open>ffsplit_do\<close> sends its votes in a loop that updates the
  sessions as it goes; \<open>ffsplit_do_spec\<close> states its effect at once: which sessions lose,
  which win, what each session looks like afterwards, and which frames go out in which
  order.
\<close>

subsection \<open>The part of a session a decision does not touch\<close>

definition core :: "session \<Rightarrow> session" where
  "core s = s\<lparr>ff_state := Client_WAITING_FOR_CHANGE, vote_info_seq := 0,
     last_sent_vote := Vote_UNDEFINED, last_ack_nack := Vote_UNDEFINED\<rparr>"

lemma core_updates [simp]:
  "core (s\<lparr>ff_state := a\<rparr>) = core s" "core (s\<lparr>vote_info_seq := q\<rparr>) = core s"
  "core (s\<lparr>last_sent_vote := v\<rparr>) = core s" "core (s\<lparr>last_ack_nack := v\<rparr>) = core s"
  by (simp_all add: core_def)

lemma core_sel [simp]:
  "phase (core s) = phase s" "peer (core s) = peer s" "cluster_name (core s) = cluster_name s"
  "cluster (core s) = cluster s" "node_id (core s) = node_id s"
  "last_ring_id (core s) = last_ring_id s" "heartbeat_ms (core s) = heartbeat_ms s"
  "tie_breaker (core s) = tie_breaker s" "algorithm (core s) = algorithm s"
  "keep_active_partition_tb (core s) = keep_active_partition_tb s"
  "config_list (core s) = config_list s" "config_version_set (core s) = config_version_set s"
  "config_version (core s) = config_version s" "membership_list (core s) = membership_list s"
  "quorum_list (core s) = quorum_list s" "last_heuristics (core s) = last_heuristics s"
  "deadline_ms (core s) = deadline_ms s" "schedule_disconnect (core s) = schedule_disconnect s"
  "rx (core s) = rx s"
  by (simp_all add: core_def)

lemma core_eq_fields:
  assumes "core s = core t"
  shows "phase s = phase t" "peer s = peer t" "cluster_name s = cluster_name t"
    "cluster s = cluster t" "node_id s = node_id t" "last_ring_id s = last_ring_id t"
    "heartbeat_ms s = heartbeat_ms t" "tie_breaker s = tie_breaker t" "algorithm s = algorithm t"
    "keep_active_partition_tb s = keep_active_partition_tb t" "config_list s = config_list t"
    "config_version_set s = config_version_set t" "config_version s = config_version t"
    "membership_list s = membership_list t" "quorum_list s = quorum_list t"
    "last_heuristics s = last_heuristics t" "deadline_ms s = deadline_ms t"
    "schedule_disconnect s = schedule_disconnect t" "rx s = rx t"
  using arg_cong [OF assms, of phase] arg_cong [OF assms, of peer]
    arg_cong [OF assms, of cluster_name] arg_cong [OF assms, of cluster]
    arg_cong [OF assms, of node_id] arg_cong [OF assms, of last_ring_id]
    arg_cong [OF assms, of heartbeat_ms] arg_cong [OF assms, of tie_breaker]
    arg_cong [OF assms, of algorithm] arg_cong [OF assms, of keep_active_partition_tb]
    arg_cong [OF assms, of config_list] arg_cong [OF assms, of config_version_set]
    arg_cong [OF assms, of config_version] arg_cong [OF assms, of membership_list]
    arg_cong [OF assms, of quorum_list] arg_cong [OF assms, of last_heuristics]
    arg_cong [OF assms, of deadline_ms] arg_cong [OF assms, of schedule_disconnect]
    arg_cong [OF assms, of rx]
  by (simp_all only: core_sel)

lemma active_in_core: "core s = core t \<Longrightarrow> active_in s c \<longleftrightarrow> active_in t c"
  by (simp add: active_in_def core_eq_fields [of s t])

definition same_core :: "server \<Rightarrow> server \<Rightarrow> bool" where
  "same_core srv srv' \<longleftrightarrow> map core (sessions srv') = map core (sessions srv)"

lemma same_core_nth: "same_core srv srv' \<Longrightarrow> i < length (sessions srv) \<Longrightarrow>
    core (sessions srv' ! i) = core (sessions srv ! i)"
  unfolding same_core_def by (metis length_map nth_map)

lemma same_core_length: "same_core srv srv' \<Longrightarrow> length (sessions srv') = length (sessions srv)"
  unfolding same_core_def by (metis length_map)

subsection \<open>Sending votes\<close>

text \<open>Closed form of \<open>ffsplit_send_votes\<close>: which slots get a vote, the session
  afterwards, and the frames in the order of the slots.\<close>

definition vote_target :: "server \<Rightarrow> trigger_view \<Rightarrow> bool \<Rightarrow> int \<Rightarrow> nat \<Rightarrow> bool" where
  "vote_target srv tv acks c i \<longleftrightarrow> in_walk srv c tv i \<and>
     ff_state (sessions srv ! i) = (if acks then SENDING_ACK else SENDING_NACK)"

definition vote_cast :: "bool \<Rightarrow> vote" where
  "vote_cast acks = (if acks then Vote_ACK else Vote_NACK)"

definition voted :: "bool \<Rightarrow> session \<Rightarrow> session" where
  "voted acks s = s\<lparr>vote_info_seq := vote_info_seq s + 1, last_sent_vote := vote_cast acks,
     last_ack_nack := vote_cast acks\<rparr>"

definition vote_event :: "server \<Rightarrow> trigger_view \<Rightarrow> bool \<Rightarrow> nat \<Rightarrow> out_event" where
  "vote_event srv tv acks i = SendFrame i
     (build_vote_info (vote_info_seq (sessions srv ! i) + 1) (eff_ring srv i tv) (vote_cast acks))"

lemma core_voted [simp]: "core (voted acks s) = core s"
  by (simp add: voted_def)

lemma ffsplit_send_vote_eq:
  "ffsplit_send_vote tv acks c i (srv, n) =
    (if vote_target srv tv acks c i
     then (srv\<lparr>sessions := (sessions srv)[i := voted acks (sessions srv ! i)],
               outs := outs srv @ [vote_event srv tv acks i]\<rparr>, n + 1)
     else (srv, n))"
  by (auto simp: ffsplit_send_vote_def vote_target_def voted_def vote_event_def vote_cast_def Let_def
      send_frame_def set_session_def)

lemma in_walk_cong:
  assumes "same_core srv srv'" and "i < length (sessions srv)" and "tv_slot tv < length (sessions srv)"
  shows "in_walk srv' c tv i = in_walk srv c tv i"
  using core_eq_fields [OF same_core_nth [OF assms(1,2)]] core_eq_fields [OF same_core_nth [OF assms(1,3)]]
  by (simp add: in_walk_def skip_in_cluster_walk_def active_in_def)

lemma send_votes_fold:
  assumes "distinct is" and "set is \<subseteq> {..<length (sessions srv)}" and "tv_slot tv < length (sessions srv)"
  shows "fold (ffsplit_send_vote tv acks c) is (srv, n) =
    (srv\<lparr>sessions := map (\<lambda>i. if i \<in> set is \<and> vote_target srv tv acks c i
             then voted acks (sessions srv ! i) else sessions srv ! i) [0..<length (sessions srv)],
         outs := outs srv @ map (vote_event srv tv acks) (filter (vote_target srv tv acks c) is)\<rparr>,
     n + length (filter (vote_target srv tv acks c) is))"
  using assms
proof (induction "is" arbitrary: srv n)
  case Nil
  then show ?case by (simp add: map_nth)
next
  case (Cons i "is")
  define srv1 where "srv1 = (if vote_target srv tv acks c i
     then srv\<lparr>sessions := (sessions srv)[i := voted acks (sessions srv ! i)],
              outs := outs srv @ [vote_event srv tv acks i]\<rparr> else srv)"
  have i: "i < length (sessions srv)" "i \<notin> set is" using Cons.prems by auto
  have core1: "same_core srv srv1"
    using i by (auto simp: same_core_def srv1_def map_update)
      (metis core_voted list_update_id map_update nth_map)
  have len1: "length (sessions srv1) = length (sessions srv)" by (simp add: srv1_def)
  have same: "sessions srv1 ! j = sessions srv ! j" if "j \<in> set is" for j
    using that i by (auto simp: srv1_def nth_list_update)
  have tgt: "vote_target srv1 tv acks c j = vote_target srv tv acks c j" if "j \<in> set is" for j
    using that Cons.prems in_walk_cong [OF core1, of j tv c] same [OF that]
    by (auto simp: vote_target_def)
  have ev: "vote_event srv1 tv acks j = vote_event srv tv acks j" if "j \<in> set is" for j
    using same [OF that] by (simp add: vote_event_def eff_ring_def)
  have "fold (ffsplit_send_vote tv acks c) (i # is) (srv, n) =
      fold (ffsplit_send_vote tv acks c) is (srv1, if vote_target srv tv acks c i then n + 1 else n)"
    by (simp add: ffsplit_send_vote_eq srv1_def)
  also have "\<dots> = (srv1\<lparr>sessions := map (\<lambda>j. if j \<in> set is \<and> vote_target srv1 tv acks c j
             then voted acks (sessions srv1 ! j) else sessions srv1 ! j) [0..<length (sessions srv1)],
         outs := outs srv1 @ map (vote_event srv1 tv acks) (filter (vote_target srv1 tv acks c) is)\<rparr>,
     (if vote_target srv tv acks c i then n + 1 else n) + length (filter (vote_target srv1 tv acks c) is))"
    using Cons.prems len1 by (intro Cons.IH) auto
  also have "map (\<lambda>j. if j \<in> set is \<and> vote_target srv1 tv acks c j
             then voted acks (sessions srv1 ! j) else sessions srv1 ! j) [0..<length (sessions srv1)]
      = map (\<lambda>j. if j \<in> set (i # is) \<and> vote_target srv tv acks c j
             then voted acks (sessions srv ! j) else sessions srv ! j) [0..<length (sessions srv)]"
    using i tgt same by (auto simp: len1 srv1_def nth_list_update)
  also have "filter (vote_target srv1 tv acks c) is = filter (vote_target srv tv acks c) is"
    using tgt by (intro filter_cong) auto
  also have "map (vote_event srv1 tv acks) (filter (vote_target srv tv acks c) is)
      = map (vote_event srv tv acks) (filter (vote_target srv tv acks c) is)"
    using ev by (intro map_cong) auto
  finally show ?case by (simp add: srv1_def)
qed


lemma ffsplit_send_votes_closed:
  assumes "length (sessions srv) = MAX_CLIENTS" and "tv_slot tv < MAX_CLIENTS"
    and "c = cluster (sessions srv ! tv_slot tv)"
  shows "ffsplit_send_votes srv tv acks =
    (srv\<lparr>sessions := map (\<lambda>i. if vote_target srv tv acks c i
             then voted acks (sessions srv ! i) else sessions srv ! i) [0..<MAX_CLIENTS],
         outs := outs srv @ map (vote_event srv tv acks) (filter (vote_target srv tv acks c) [0..<MAX_CLIENTS])\<rparr>,
     length (filter (vote_target srv tv acks c) [0..<MAX_CLIENTS]))"
proof -
  have "ffsplit_send_votes srv tv acks =
    (srv\<lparr>sessions := map (\<lambda>i. if i \<in> set [0..<MAX_CLIENTS] \<and> vote_target srv tv acks c i
             then voted acks (sessions srv ! i) else sessions srv ! i) [0..<MAX_CLIENTS],
         outs := outs srv @ map (vote_event srv tv acks) (filter (vote_target srv tv acks c) [0..<MAX_CLIENTS])\<rparr>,
     0 + length (filter (vote_target srv tv acks c) [0..<MAX_CLIENTS]))"
    using send_votes_fold [of "[0..<MAX_CLIENTS]" srv tv acks c 0] assms
    by (simp add: ffsplit_send_votes_def lessThan_atLeast0)
  moreover have "map (\<lambda>i. if i \<in> set [0..<MAX_CLIENTS] \<and> vote_target srv tv acks c i
             then voted acks (sessions srv ! i) else sessions srv ! i) [0..<MAX_CLIENTS] =
      map (\<lambda>i. if vote_target srv tv acks c i
             then voted acks (sessions srv ! i) else sessions srv ! i) [0..<MAX_CLIENTS]"
    by simp
  ultimately show ?thesis by simp
qed

subsection \<open>The decision in closed form\<close>

definition loses :: "node_list option \<Rightarrow> session \<Rightarrow> bool" where
  "loses winner s = (case winner of None \<Rightarrow> True | Some w \<Rightarrow> node_id s \<notin> node_ids w)"

definition losers :: "server \<Rightarrow> trigger_view \<Rightarrow> int \<Rightarrow> node_list option \<Rightarrow> nat list" where
  "losers srv tv c winner =
     filter (\<lambda>i. in_walk srv c tv i \<and> loses winner (sessions srv ! i)) [0..<MAX_CLIENTS]"

definition winners :: "server \<Rightarrow> trigger_view \<Rightarrow> int \<Rightarrow> node_list option \<Rightarrow> nat list" where
  "winners srv tv c winner =
     filter (\<lambda>i. in_walk srv c tv i \<and> \<not> loses winner (sessions srv ! i)) [0..<MAX_CLIENTS]"

text \<open>What a decision does to one session: a loser is told at once, a winner only when
  there is no loser.\<close>

definition decide_session :: "server \<Rightarrow> trigger_view \<Rightarrow> int \<Rightarrow> node_list option \<Rightarrow> session \<Rightarrow> session" where
  "decide_session srv tv c winner s =
    (if \<not> active_in s c then s
     else if skip_in_cluster_walk srv s tv then s\<lparr>ff_state := Client_WAITING_FOR_CHANGE\<rparr>
     else if loses winner s then voted False (s\<lparr>ff_state := SENDING_NACK\<rparr>)
     else if losers srv tv c winner \<noteq> [] then s\<lparr>ff_state := SENDING_ACK\<rparr>
     else voted True (s\<lparr>ff_state := SENDING_ACK\<rparr>))"

definition apply_decision :: "server \<Rightarrow> trigger_view \<Rightarrow> int \<Rightarrow> cluster_info \<Rightarrow> node_list option \<Rightarrow> server" where
  "apply_decision srv tv c cl winner = srv\<lparr>
     sessions := map (decide_session srv tv c winner) (sessions srv),
     clusters := (clusters srv)[nat c := cl\<lparr>
       quorate_partition := (case winner of None \<Rightarrow> [] | Some w \<Rightarrow> w),
       cl_state := (if losers srv tv c winner \<noteq> [] then SENDING_NACKS
                    else if winners srv tv c winner \<noteq> [] then SENDING_ACKS
                    else Cluster_WAITING_FOR_CHANGE)\<rparr>],
     decisions := decisions srv + 1,
     outs := outs srv @
       (if losers srv tv c winner \<noteq> []
        then map (vote_event srv tv False) (losers srv tv c winner)
        else map (vote_event srv tv True) (winners srv tv c winner))\<rparr>"

lemma ffsplit_is_stable_cong: "sessions srv' = sessions srv \<Longrightarrow> ffsplit_is_stable srv' tv = ffsplit_is_stable srv tv"
  by (simp only: ffsplit_is_stable_def in_walk_def skip_in_cluster_walk_def eff_config_def
      eff_membership_def eff_ring_def)

lemma ffsplit_partition_better_cong:
  assumes "sessions srv' = sessions srv"
  shows "ffsplit_partition_better srv' = ffsplit_partition_better srv"
proof -
  have "ffsplit_partition_stats srv' = ffsplit_partition_stats srv"
    and "ffsplit_is_preferred_partition srv' = ffsplit_is_preferred_partition srv"
    by (intro ext; simp only: ffsplit_partition_stats_def ffsplit_is_preferred_partition_def assms)+
  then show ?thesis
    by (intro ext) (simp only: ffsplit_partition_better_def assms)
qed

lemma select_step_cong:
  assumes "sessions srv' = sessions srv"
  shows "ffsplit_select_step srv' = ffsplit_select_step srv"
  by (intro ext) (simp only: ffsplit_select_step_def in_walk_def skip_in_cluster_walk_def eff_config_def
      eff_membership_def eff_heuristics_def assms ffsplit_partition_better_cong [OF assms])

lemma ffsplit_select_partition_cong:
  assumes "sessions srv' = sessions srv"
    and "map_option quorate_partition (cluster_at srv' (cluster (sessions srv ! tv_slot tv)))
       = map_option quorate_partition (cluster_at srv (cluster (sessions srv ! tv_slot tv)))"
  shows "ffsplit_select_partition srv' tv = ffsplit_select_partition srv tv"
  using assms(2)
  by (cases "cluster_at srv (cluster (sessions srv ! tv_slot tv))";
      cases "cluster_at srv' (cluster (sessions srv ! tv_slot tv))")
    (simp_all add: ffsplit_select_partition_def assms(1) select_step_cong [OF assms(1)] ffsplit_keep_active_tb_def)

lemma loses_find: "(case winner of None \<Rightarrow> True | Some w \<Rightarrow> node_list_find w (node_id s) = None) = loses winner s"
  by (auto simp: loses_def node_list_find_None_iff split: option.splits)

lemma voted_sel [simp]:
  "ff_state (voted a s) = ff_state s" "node_id (voted a s) = node_id s" "phase (voted a s) = phase s"
  "cluster (voted a s) = cluster s"
  by (simp_all add: voted_def)


definition update_session :: "server \<Rightarrow> trigger_view \<Rightarrow> int \<Rightarrow> node_list option \<Rightarrow> session \<Rightarrow> session" where
  "update_session srv tv c winner s =
    (if \<not> active_in s c then s
     else if skip_in_cluster_walk srv s tv then s\<lparr>ff_state := Client_WAITING_FOR_CHANGE\<rparr>
     else if loses winner s then s\<lparr>ff_state := SENDING_NACK\<rparr>
     else s\<lparr>ff_state := SENDING_ACK\<rparr>)"

lemma ffsplit_update_states_map:
  "c = cluster (sessions srv ! tv_slot tv) \<Longrightarrow> ffsplit_update_states srv tv winner =
     srv\<lparr>sessions := map (update_session srv tv c winner) (sessions srv)\<rparr>"
  by (simp add: ffsplit_update_states_def update_session_def [abs_def] loses_find)

lemma core_update_session [simp]: "core (update_session srv tv c winner s) = core s"
  by (simp add: update_session_def)

lemma update_session_sel [simp]:
  "node_id (update_session srv tv c winner s) = node_id s"
  "phase (update_session srv tv c winner s) = phase s"
  "cluster (update_session srv tv c winner s) = cluster s"
  "last_ring_id (update_session srv tv c winner s) = last_ring_id s"
  "vote_info_seq (update_session srv tv c winner s) = vote_info_seq s"
  by (simp_all add: update_session_def)

text \<open>Between the update of the states and the sending of votes: \<open>srv1\<close> is \<open>srv\<close> with
  the new states.\<close>

lemma updated_target:
  assumes len: "length (sessions srv) = MAX_CLIENTS" and slot: "tv_slot tv < MAX_CLIENTS"
    and srv1: "sessions srv1 = map (update_session srv tv c winner) (sessions srv)"
    and i: "i < MAX_CLIENTS"
  shows "vote_target srv1 tv acks c i \<longleftrightarrow>
     in_walk srv c tv i \<and> (loses winner (sessions srv ! i) \<longleftrightarrow> \<not> acks)"
proof -
  have walk: "in_walk srv1 c tv i = in_walk srv c tv i"
    using len slot i by (intro in_walk_cong) (simp_all add: same_core_def srv1)
  have "ff_state (sessions srv1 ! i) = (if loses winner (sessions srv ! i) then SENDING_NACK else SENDING_ACK)"
    if "in_walk srv c tv i"
    using that len i by (simp add: srv1 update_session_def in_walk_def)
  then show ?thesis by (auto simp: vote_target_def walk split: if_splits)
qed

lemma updated_targets:
  assumes "length (sessions srv) = MAX_CLIENTS" and "tv_slot tv < MAX_CLIENTS"
    and "sessions srv1 = map (update_session srv tv c winner) (sessions srv)"
  shows "filter (vote_target srv1 tv acks c) [0..<MAX_CLIENTS] =
     (if acks then winners srv tv c winner else losers srv tv c winner)"
  by (auto simp: winners_def losers_def updated_target [OF assms] intro!: filter_cong)

lemma decided_sessions:
  assumes len: "length (sessions srv) = MAX_CLIENTS" and slot: "tv_slot tv < MAX_CLIENTS"
    and srv1: "sessions srv1 = map (update_session srv tv c winner) (sessions srv)"
    and acks: "acks \<longleftrightarrow> losers srv tv c winner = []"
  shows "map (\<lambda>i. if vote_target srv1 tv acks c i then voted acks (sessions srv1 ! i) else sessions srv1 ! i)
      [0..<MAX_CLIENTS] = map (decide_session srv tv c winner) (sessions srv)"
proof -
  have "(if vote_target srv1 tv acks c i then voted acks (sessions srv1 ! i) else sessions srv1 ! i) =
      decide_session srv tv c winner (sessions srv ! i)" if i: "i < MAX_CLIENTS" for i
  proof (cases "in_walk srv c tv i")
    case False
    with i len show ?thesis
      by (auto simp: updated_target [OF len slot srv1] srv1 decide_session_def update_session_def in_walk_def)
  next
    case True
    have "losers srv tv c winner \<noteq> []" if "loses winner (sessions srv ! i)"
      using True that i by (auto simp: losers_def filter_empty_conv)
    with True i len acks show ?thesis
      by (auto simp: updated_target [OF len slot srv1] srv1 decide_session_def update_session_def in_walk_def)
  qed
  then have "map (\<lambda>i. if vote_target srv1 tv acks c i then voted acks (sessions srv1 ! i) else sessions srv1 ! i)
      [0..<MAX_CLIENTS] = map (\<lambda>i. decide_session srv tv c winner (sessions srv ! i)) [0..<MAX_CLIENTS]"
    by (intro map_cong) simp_all
  also have "\<dots> = map (decide_session srv tv c winner) (sessions srv)"
    using len by (intro nth_equalityI) simp_all
  finally show ?thesis .
qed

lemma send_votes_decided:
  assumes len: "length (sessions srv) = MAX_CLIENTS" and slot: "tv_slot tv < MAX_CLIENTS"
    and c: "c = cluster (sessions srv ! tv_slot tv)"
    and srv1: "sessions srv1 = map (update_session srv tv c winner) (sessions srv)"
    and acks: "acks \<longleftrightarrow> losers srv tv c winner = []"
    and hit: "hit = (if acks then winners srv tv c winner else losers srv tv c winner)"
  shows "ffsplit_send_votes srv1 tv acks =
    (srv1\<lparr>sessions := map (decide_session srv tv c winner) (sessions srv),
          outs := outs srv1 @ map (vote_event srv tv acks) hit\<rparr>, length hit)"
proof -
  have ev: "map (vote_event srv1 tv acks) hit = map (vote_event srv tv acks) hit"
    using len by (auto simp: hit vote_event_def eff_ring_def srv1 winners_def losers_def)
  have len1: "length (sessions srv1) = MAX_CLIENTS" and c1: "c = cluster (sessions srv1 ! tv_slot tv)"
    using len slot c by (simp_all add: srv1)
  show ?thesis
    unfolding ffsplit_send_votes_closed [OF len1 slot c1] decided_sessions [OF len slot srv1 acks]
      updated_targets [OF len slot srv1] hit [symmetric] ev ..
qed

lemma send_votes_no_target:
  assumes len: "length (sessions srv) = MAX_CLIENTS" and slot: "tv_slot tv < MAX_CLIENTS"
    and c: "c = cluster (sessions srv ! tv_slot tv)"
    and srv1: "sessions srv1 = map (update_session srv tv c winner) (sessions srv)"
    and none: "losers srv tv c winner = []"
  shows "ffsplit_send_votes srv1 tv False = (srv1, 0)"
proof -
  have "\<not> vote_target srv1 tv False c i" if "i < MAX_CLIENTS" for i
    using none that by (auto simp: updated_target [OF len slot srv1] losers_def filter_empty_conv)
  then have same: "map (\<lambda>i. if vote_target srv1 tv False c i then voted False (sessions srv1 ! i) else sessions srv1 ! i)
      [0..<MAX_CLIENTS] = sessions srv1"
    using len by (intro nth_equalityI) (simp_all add: srv1)
  have len1: "length (sessions srv1) = MAX_CLIENTS" and c1: "c = cluster (sessions srv1 ! tv_slot tv)"
    using len slot c by (simp_all add: srv1)
  show ?thesis
    unfolding ffsplit_send_votes_closed [OF len1 slot c1] updated_targets [OF len slot srv1] same none
    by simp
qed

lemma ffsplit_do_spec:
  assumes len: "length (sessions srv) = MAX_CLIENTS" and slot: "tv_slot tv < MAX_CLIENTS"
    and c: "c = cluster (sessions srv ! tv_slot tv)" and cl: "cluster_at srv c = Some cl"
  shows "ffsplit_do srv tv =
    (if \<not> ffsplit_is_stable srv tv
     then Some (set_cluster srv c (cl\<lparr>cl_state := WAITING_FOR_STABLE_MEMBERSHIP\<rparr>), NO_ERROR, Vote_WAIT_FOR_REPLY)
     else map_option (\<lambda>winner. (apply_decision srv tv c cl winner, NO_ERROR, Vote_NO_CHANGE))
       (ffsplit_select_partition srv tv))"
proof -
  let ?cl0 = "cl\<lparr>cl_state := WAITING_FOR_STABLE_MEMBERSHIP\<rparr>"
  let ?srv0 = "set_cluster srv c ?cl0"
  have stab: "ffsplit_is_stable ?srv0 tv = ffsplit_is_stable srv tv"
    by (rule ffsplit_is_stable_cong) simp
  have cl_at: "0 \<le> c" "nat c < length (clusters srv)" "cl = clusters srv ! nat c"
    using cl by (auto simp: cluster_at_eq_Some_iff)
  have sel: "ffsplit_select_partition ?srv0 tv = ffsplit_select_partition srv tv"
    by (rule ffsplit_select_partition_cong) (use cl_at in \<open>simp_all flip: c\<close>)
  show ?thesis
  proof (cases "ffsplit_is_stable srv tv \<and> ffsplit_select_partition srv tv \<noteq> None")
    case False
    with len slot cl show ?thesis by (auto simp: ffsplit_do_def stab sel simp flip: c)
  next
    case True
    then obtain winner where w: "ffsplit_select_partition srv tv = Some winner" by auto
    define base where "base = ffsplit_update_states (?srv0\<lparr>decisions := decisions srv + 1\<rparr>) tv winner"
    have base: "base = ?srv0\<lparr>decisions := decisions srv + 1,
        sessions := map (update_session srv tv c winner) (sessions srv)\<rparr>"
      using c by (simp add: base_def ffsplit_update_states_map update_session_def [abs_def]
          skip_in_cluster_walk_def)
    have sess: "sessions (set_cluster base c k) = map (update_session srv tv c winner) (sessions srv)" for k
      by (simp add: base)
    let ?k1 = "cl\<lparr>quorate_partition := case winner of None \<Rightarrow> [] | Some w \<Rightarrow> w, cl_state := SENDING_NACKS\<rparr>"
    let ?k2 = "?k1\<lparr>cl_state := SENDING_ACKS\<rparr>"
    have run: "ffsplit_do srv tv =
      (case ffsplit_send_votes (set_cluster base c ?k1) tv False of (srv1, sent) \<Rightarrow>
         if sent = 0 then (case ffsplit_send_votes (set_cluster srv1 c ?k2) tv True of (srv2, sent) \<Rightarrow>
           Some (set_cluster srv2 c (if sent = 0 then ?k2\<lparr>cl_state := Cluster_WAITING_FOR_CHANGE\<rparr> else ?k2),
             NO_ERROR, Vote_NO_CHANGE))
         else Some (srv1, NO_ERROR, Vote_NO_CHANGE))"
      using True w len slot cl by (simp add: ffsplit_do_def stab sel Let_def case_prod_unfold flip: c base_def)
    show ?thesis
    proof (cases "losers srv tv c winner = []")
      case False
      then show ?thesis
        unfolding run send_votes_decided [OF len slot c sess, of False "losers srv tv c winner", simplified False, simplified]
        using True w cl_at(1) by (simp add: base apply_decision_def set_cluster_def)
    next
      case none: True
      have two: "set_cluster (set_cluster base c k) c k' = set_cluster base c k'" for k k'
        by (simp add: set_cluster_def)
      show ?thesis
        unfolding run send_votes_no_target [OF len slot c sess none] two prod.case
          send_votes_decided [OF len slot c sess, of True "winners srv tv c winner", simplified none, simplified]
        using True w cl_at(1) none by (simp add: base apply_decision_def set_cluster_def)
    qed
  qed
qed

end
