(* ===== verification/Select_Facts.thy ===== *)
theory Select_Facts
  imports Ffsplit_Facts "HOL-Library.Product_Lexorder"
begin

text \<open>
  What \<open>ffsplit_select_partition\<close> selects and what \<open>ffsplit_is_stable\<close> tests. The selection
  loop is shown equal to a fold that keeps the slot of the best client
  (\<open>ffsplit_select_partition_eq\<close>), and the comparison of two partitions of half the nodes
  to the lexicographic order of \<open>tie_key\<close>. From these follow when a partition is
  selected at all, that a majority wins, and that a tie is broken by the order.
\<close>

subsection \<open>Candidates\<close>

definition candidate :: "server \<Rightarrow> trigger_view \<Rightarrow> int \<Rightarrow> nat \<Rightarrow> bool" where
  "candidate srv tv c i \<longleftrightarrow> in_walk srv c tv i \<and> eff_config srv i tv \<noteq> [] \<and> eff_membership srv i tv \<noteq> []"

lemma select_step_eq:
  "ffsplit_select_step srv tv c prev keep i (b, b_cfg, b_mem, b_h) =
    (if candidate srv tv c i
     then map_option (\<lambda>better. if better then (Some i, Some (eff_config srv i tv), Some (eff_membership srv i tv),
                                          eff_heuristics srv i tv)
                               else (b, b_cfg, b_mem, b_h))
       (ffsplit_partition_better srv i (eff_config srv i tv) (eff_membership srv i tv) (eff_heuristics srv i tv)
         b b_cfg b_mem b_h prev keep)
     else Some (b, b_cfg, b_mem, b_h))"
  by (auto simp: ffsplit_select_step_def candidate_def Let_def map_option_case split: option.split Option.bind_split)

subsection \<open>Tie breaking\<close>

definition preferred_node :: "tie_breaker \<Rightarrow> node_list \<Rightarrow> u32" where
  "preferred_node tb cfg =
    (case tb_mode tb of LOWEST \<Rightarrow> Min (node_ids cfg) | HIGHEST \<Rightarrow> Max (node_ids cfg) | NODE_ID \<Rightarrow> tb_node_id tb)"

lemma foldl_min_node: "foldl (\<lambda>p n. if ni_node_id n < p then ni_node_id n else p) p cfg = Min (insert p (node_ids cfg))"
proof (induction cfg arbitrary: p)
  case Nil
  then show ?case by simp
next
  case (Cons n cfg)
  have "finite (node_ids cfg)" by (simp add: node_ids_def)
  then have "Min (insert p (insert (ni_node_id n) (node_ids cfg))) = Min (insert (min (ni_node_id n) p) (node_ids cfg))"
    by (cases "node_ids cfg = {}") (auto simp: min.assoc min.commute min.left_commute)
  moreover have "(if ni_node_id n < p then ni_node_id n else p) = min (ni_node_id n) p"
    by (auto simp: min_def)
  ultimately show ?case using Cons.IH [of "min (ni_node_id n) p"] by (simp del: Min_insert)
qed

lemma foldl_max_node: "foldl (\<lambda>p n. if ni_node_id n > p then ni_node_id n else p) p cfg = Max (insert p (node_ids cfg))"
proof (induction cfg arbitrary: p)
  case Nil
  then show ?case by simp
next
  case (Cons n cfg)
  have "finite (node_ids cfg)" by (simp add: node_ids_def)
  then have "Max (insert p (insert (ni_node_id n) (node_ids cfg))) = Max (insert (max p (ni_node_id n)) (node_ids cfg))"
    by (cases "node_ids cfg = {}") (auto simp: max.assoc)
  moreover have "(if ni_node_id n > p then ni_node_id n else p) = max p (ni_node_id n)"
    by (auto simp: max_def)
  ultimately show ?case using Cons.IH [of "max p (ni_node_id n)"] by (simp del: Max_insert)
qed

lemma is_preferred_partition_eq:
  assumes "cfg \<noteq> []"
  shows "ffsplit_is_preferred_partition srv i cfg mem =
     Some (preferred_node (tie_breaker (sessions srv ! i)) cfg \<in> node_ids mem)"
proof -
  obtain front rest where cfg: "cfg = front # rest" using assms by (cases cfg) auto
  have "node_list_find mem nid \<noteq> None \<longleftrightarrow> nid \<in> node_ids mem" for nid
    by (simp add: node_list_find_None_iff)
  then show ?thesis
    by (simp only: cfg ffsplit_is_preferred_partition_def preferred_node_def foldl_min_node foldl_max_node
        list.case bind.bind_lunit) (cases "tb_mode (tie_breaker (sessions srv ! i))"; simp)
qed


type_synonym tie_key = "int \<times> nat \<times> bool \<times> bool"

definition tie_key :: "server \<Rightarrow> trigger_view \<Rightarrow> node_list \<Rightarrow> bool \<Rightarrow> nat \<Rightarrow> tie_key" where
  "tie_key srv tv prev keep i =
    (case ffsplit_partition_stats srv (Some i) (Some (eff_membership srv i tv)) (eff_heuristics srv i tv) of
       (n, p, f) \<Rightarrow>
         (int n + (int p - int f), n, keep \<and> node_id (sessions srv ! i) \<in> node_ids prev,
          preferred_node (tie_breaker (sessions srv ! i)) (eff_config srv i tv) \<in> node_ids (eff_membership srv i tv)))"

definition quorate_size :: "server \<Rightarrow> trigger_view \<Rightarrow> nat \<Rightarrow> bool" where
  "quorate_size srv tv i \<longleftrightarrow>
    (if even (length (eff_config srv i tv))
     then 2 * length (eff_membership srv i tv) \<ge> length (eff_config srv i tv)
     else 2 * length (eff_membership srv i tv) > length (eff_config srv i tv))"

definition majority :: "server \<Rightarrow> trigger_view \<Rightarrow> nat \<Rightarrow> bool" where
  "majority srv tv i \<longleftrightarrow> 2 * length (eff_membership srv i tv) > length (eff_config srv i tv)"

text \<open>\<open>best\<close> before any candidate, and after candidate \<open>b\<close>.\<close>

definition best_of :: "server \<Rightarrow> trigger_view \<Rightarrow> nat option \<Rightarrow> best_partition" where
  "best_of srv tv b = (case b of None \<Rightarrow> (None, None, None, Heuristics_UNDEFINED)
     | Some b \<Rightarrow> (Some b, Some (eff_config srv b tv), Some (eff_membership srv b tv), eff_heuristics srv b tv))"

definition takes_over :: "server \<Rightarrow> trigger_view \<Rightarrow> node_list \<Rightarrow> bool \<Rightarrow> nat \<Rightarrow> nat option \<Rightarrow> bool" where
  "takes_over srv tv prev keep i b \<longleftrightarrow> majority srv tv i \<or> quorate_size srv tv i \<and>
    (case (tie_key srv tv prev keep i, b) of
      ((score, n, _, pref), None) \<Rightarrow> score > 0 \<or> score = 0 \<and> (n > 0 \<or> pref)
    | ((score, n, prev_i, pref), Some b) \<Rightarrow>
        tie_key srv tv prev keep b < (score, n, prev_i, pref) \<or>
        tie_key srv tv prev keep b = (score, n, prev_i, pref) \<and> pref)"

lemma tie_order:
  fixes s1 s2 :: int and n1 n2 :: nat
  shows "(s2, n2, keep \<and> in2, pref2) < (s1, n1, keep \<and> in1, pref1) \<or>
      (s2, n2, keep \<and> in2, pref2) = (s1, n1, keep \<and> in1, pref1) \<and> pref1 \<longleftrightarrow>
    (if s1 \<noteq> s2 then s2 < s1 else if n1 \<noteq> n2 then n2 < n1 else if keep \<and> in1 \<noteq> in2 then in1 else pref1)"
  by (cases "s1 = s2"; cases "n1 = n2"; cases keep; cases in1; cases in2; cases pref1; cases pref2) auto

lemma partition_better_sizes:
  assumes cfg: "cfg \<noteq> []"
  shows "ffsplit_partition_better srv i cfg mem h b b_cfg b_mem b_h prev keep =
    Some (2 * length mem > length cfg \<or> even (length cfg) \<and> 2 * length mem = length cfg \<and>
      (case (ffsplit_partition_stats srv (Some i) (Some mem) h, ffsplit_partition_stats srv b b_mem b_h) of
        ((n1, p1, f1), (n2, p2, f2)) \<Rightarrow>
          (if int n1 + (int p1 - int f1) \<noteq> int n2 + (int p2 - int f2)
           then int n1 + (int p1 - int f1) > int n2 + (int p2 - int f2)
           else if n1 \<noteq> n2 then n1 > n2
           else if keep \<and> b \<noteq> None \<and> (node_id (sessions srv ! i) \<in> node_ids prev) \<noteq>
                     (node_id (sessions srv ! the b) \<in> node_ids prev)
           then node_id (sessions srv ! i) \<in> node_ids prev
           else preferred_node (tie_breaker (sessions srv ! i)) cfg \<in> node_ids mem)))"
proof -
  have find: "node_list_find l x \<noteq> None \<longleftrightarrow> x \<in> node_ids l" for l x
    by (simp add: node_list_find_None_iff)
  consider (odd) "odd (length cfg)" | (less) "even (length cfg)" "length mem < length cfg div 2"
    | (greater) "even (length cfg)" "length mem > length cfg div 2"
    | (half) "even (length cfg)" "length mem = length cfg div 2"
    by linarith
  then show ?thesis
  proof cases
    case odd
    then have "length mem > length cfg div 2 \<longleftrightarrow> 2 * length mem > length cfg" by presburger
    moreover have "length cfg mod 2 \<noteq> 0" using odd by presburger
    ultimately show ?thesis using odd by (simp only: ffsplit_partition_better_def if_True simp_thms)
  next
    case less
    then have "2 * length mem < length cfg" by presburger
    with less show ?thesis by (simp add: ffsplit_partition_better_def)
  next
    case greater
    then have "2 * length mem > length cfg" by presburger
    with greater show ?thesis by (simp add: ffsplit_partition_better_def)
  next
    case half
    then have len: "2 * length mem = length cfg" by presburger
    obtain n1 p1 f1 where s1: "ffsplit_partition_stats srv (Some i) (Some mem) h = (n1, p1, f1)" by (metis prod_cases3)
    obtain n2 p2 f2 where s2: "ffsplit_partition_stats srv b b_mem b_h = (n2, p2, f2)" by (metis prod_cases3)
    show ?thesis
      using half len unfolding ffsplit_partition_better_def s1 s2 prod.case Let_def find is_preferred_partition_eq [OF cfg]
      by (cases b) simp_all
  qed
qed

lemma select_step_best:
  "ffsplit_select_step srv tv c prev keep i (best_of srv tv b) =
    Some (best_of srv tv (if candidate srv tv c i \<and> takes_over srv tv prev keep i b then Some i else b))"
proof (cases "candidate srv tv c i")
  case False
  then show ?thesis by (cases b) (simp_all add: best_of_def select_step_eq)
next
  case True
  then have cfg: "eff_config srv i tv \<noteq> []" by (simp add: candidate_def)
  obtain n1 p1 f1 where s1: "ffsplit_partition_stats srv (Some i) (Some (eff_membership srv i tv)) (eff_heuristics srv i tv) = (n1, p1, f1)"
    by (metis prod_cases3)
  have size: "2 * length (eff_membership srv i tv) > length (eff_config srv i tv) \<or>
       even (length (eff_config srv i tv)) \<and> 2 * length (eff_membership srv i tv) = length (eff_config srv i tv) \<and> P
     \<longleftrightarrow> majority srv tv i \<or> quorate_size srv tv i \<and> P" for P
    by (auto simp: majority_def quorate_size_def)
  show ?thesis
  proof (cases b)
    case None
    have s2: "ffsplit_partition_stats srv None None Heuristics_UNDEFINED = (0, 0, 0)"
      by (simp add: ffsplit_partition_stats_def)
    have "ffsplit_partition_better srv i (eff_config srv i tv) (eff_membership srv i tv) (eff_heuristics srv i tv)
        None None None Heuristics_UNDEFINED prev keep = Some (takes_over srv tv prev keep i None)"
      unfolding partition_better_sizes [OF cfg] size takes_over_def
      by (simp add: s1 s2 tie_key_def)
    with True None show ?thesis by (simp add: best_of_def select_step_eq)
  next
    case (Some b')
    obtain n2 p2 f2 where s2: "ffsplit_partition_stats srv (Some b') (Some (eff_membership srv b' tv)) (eff_heuristics srv b' tv) = (n2, p2, f2)"
      by (metis prod_cases3)
    have "ffsplit_partition_better srv i (eff_config srv i tv) (eff_membership srv i tv) (eff_heuristics srv i tv)
        (Some b') (Some (eff_config srv b' tv)) (Some (eff_membership srv b' tv)) (eff_heuristics srv b' tv) prev keep =
        Some (takes_over srv tv prev keep i (Some b'))"
      unfolding partition_better_sizes [OF cfg] size takes_over_def
      by (simp only: s1 s2 tie_key_def prod.case option.case option.sel tie_order option.simps simp_thms)
    with True Some show ?thesis by (simp add: best_of_def select_step_eq)
  qed
qed


subsection \<open>The selected client\<close>

definition select_client :: "server \<Rightarrow> trigger_view \<Rightarrow> int \<Rightarrow> node_list \<Rightarrow> bool \<Rightarrow> nat list \<Rightarrow> nat option" where
  "select_client srv tv c prev keep is =
     fold (\<lambda>i b. if candidate srv tv c i \<and> takes_over srv tv prev keep i b then Some i else b) is None"

lemma select_client_Nil [simp]: "select_client srv tv c prev keep [] = None"
  by (simp add: select_client_def)

lemma select_client_snoc [simp]: "select_client srv tv c prev keep (is @ [i]) =
    (if candidate srv tv c i \<and> takes_over srv tv prev keep i (select_client srv tv c prev keep is)
     then Some i else select_client srv tv c prev keep is)"
  by (simp add: select_client_def)

lemma select_fold: "fold_ub (ffsplit_select_step srv tv c prev keep) is (best_of srv tv b) =
    Some (best_of srv tv
      (fold (\<lambda>i b. if candidate srv tv c i \<and> takes_over srv tv prev keep i b then Some i else b) is b))"
  by (induction "is" arbitrary: b) (simp_all add: select_step_best)

lemma ffsplit_select_partition_eq:
  assumes "cluster_at srv (cluster (sessions srv ! tv_slot tv)) = Some cl"
    and "c = cluster (sessions srv ! tv_slot tv)"
  shows "ffsplit_select_partition srv tv =
    Some (map_option (\<lambda>i. eff_membership srv i tv)
      (select_client srv tv c (quorate_partition cl) (ffsplit_keep_active_tb srv c) [0..<MAX_CLIENTS]))"
proof -
  have "fold_ub (ffsplit_select_step srv tv c (quorate_partition cl) (ffsplit_keep_active_tb srv c)) [0..<MAX_CLIENTS]
      (None, None, None, Heuristics_UNDEFINED) = Some (best_of srv tv
        (select_client srv tv c (quorate_partition cl) (ffsplit_keep_active_tb srv c) [0..<MAX_CLIENTS]))"
    using select_fold [of srv tv c "quorate_partition cl" "ffsplit_keep_active_tb srv c" "[0..<MAX_CLIENTS]" None]
    by (simp add: select_client_def best_of_def)
  then show ?thesis
    using assms(1) unfolding assms(2)
    by (cases "select_client srv tv c (quorate_partition cl) (ffsplit_keep_active_tb srv c) [0..<MAX_CLIENTS]")
      (simp_all add: ffsplit_select_partition_def Let_def best_of_def assms(2))
qed

lemma takes_over_quorate: "takes_over srv tv prev keep i b \<Longrightarrow> quorate_size srv tv i"
  by (auto simp: takes_over_def majority_def quorate_size_def)

lemma select_client_Some:
  "select_client srv tv c prev keep is = Some b \<Longrightarrow> b \<in> set is \<and> candidate srv tv c b \<and> quorate_size srv tv b"
  by (induction "is" rule: rev_induct) (auto dest: takes_over_quorate split: if_splits)

subsection \<open>Statistics\<close>

text \<open>The first connected client with a node id, and the heuristics it counts with.\<close>

definition node_slot :: "server \<Rightarrow> int \<Rightarrow> u32 \<Rightarrow> nat option" where
  "node_slot srv c nid =
     List.find (\<lambda>i. active_in (sessions srv ! i) c \<and> node_id (sessions srv ! i) = nid) [0..<MAX_CLIENTS]"

definition node_heuristics :: "server \<Rightarrow> nat \<Rightarrow> heuristics \<Rightarrow> node_info \<Rightarrow> heuristics option" where
  "node_heuristics srv i h n =
     map_option (\<lambda>j. if j = i then h else last_heuristics (sessions srv ! j))
       (node_slot srv (cluster (sessions srv ! i)) (ni_node_id n))"

lemma partition_stats_eq:
  "ffsplit_partition_stats srv (Some i) (Some mem) h =
    (length (filter (\<lambda>n. node_heuristics srv i h n \<noteq> None) mem),
     length (filter (\<lambda>n. node_heuristics srv i h n = Some Heuristics_PASS) mem),
     length (filter (\<lambda>n. node_heuristics srv i h n = Some Heuristics_FAIL) mem))"
proof -
  have "foldl (\<lambda>(clients, pass, fail) n.
           case List.find (\<lambda>j. active_in (sessions srv ! j) (cluster (sessions srv ! i))
                               \<and> node_id (sessions srv ! j) = ni_node_id n) [0..<MAX_CLIENTS] of
             None \<Rightarrow> (clients, pass, fail)
           | Some j \<Rightarrow>
               (let eff = (if j = i then h else last_heuristics (sessions srv ! j))
                in (clients + 1,
                    if eff = Heuristics_PASS then pass + 1 else pass,
                    if eff \<noteq> Heuristics_PASS \<and> eff = Heuristics_FAIL then fail + 1 else fail)))
           (a, b, d) mem =
    (a + length (filter (\<lambda>n. node_heuristics srv i h n \<noteq> None) mem),
     b + length (filter (\<lambda>n. node_heuristics srv i h n = Some Heuristics_PASS) mem),
     d + length (filter (\<lambda>n. node_heuristics srv i h n = Some Heuristics_FAIL) mem))" for a b d :: nat
  proof (induction mem arbitrary: a b d)
    case (Cons n mem)
    show ?case
      by (cases "List.find (\<lambda>j. active_in (sessions srv ! j) (cluster (sessions srv ! i))
            \<and> node_id (sessions srv ! j) = ni_node_id n) [0..<MAX_CLIENTS]")
        (simp_all add: Cons node_heuristics_def node_slot_def Let_def)
  qed simp
  then show ?thesis by (simp add: ffsplit_partition_stats_def)
qed

lemma partition_stats_bounds:
  assumes "ffsplit_partition_stats srv (Some i) (Some mem) h = (n, p, f)"
  shows "p + f \<le> n" "n \<le> length mem"
  using assms by (auto simp: partition_stats_eq intro!: filter_split_le)

lemma partition_stats_own:
  assumes "ffsplit_partition_stats srv (Some i) (Some mem) h = (n, p, f)"
    and "phase (sessions srv ! i) = ACTIVE" "i < MAX_CLIENTS" "node_id (sessions srv ! i) \<in> node_ids mem"
  shows "n > 0"
proof -
  obtain x where x: "x \<in> set mem" "ni_node_id x = node_id (sessions srv ! i)"
    using assms(4) by (auto simp: node_ids_def)
  have "node_slot srv (cluster (sessions srv ! i)) (ni_node_id x) \<noteq> None"
    using assms(2,3) x(2) by (auto simp: node_slot_def find_eq_None_iff active_in_def)
  then have "x \<in> set (filter (\<lambda>n. node_heuristics srv i h n \<noteq> None) mem)"
    using x(1) by (auto simp: node_heuristics_def)
  from length_pos_if_in_set [OF this] show ?thesis
    using assms(1) by (auto simp: partition_stats_eq)
qed


subsection \<open>What is selected\<close>

text \<open>Every client lists itself in the membership it reports.\<close>

definition lists_itself :: "server \<Rightarrow> trigger_view \<Rightarrow> int \<Rightarrow> bool" where
  "lists_itself srv tv c \<longleftrightarrow> (\<forall>i<MAX_CLIENTS. in_walk srv c tv i \<longrightarrow> eff_membership srv i tv \<noteq> [] \<longrightarrow>
     node_id (sessions srv ! i) \<in> node_ids (eff_membership srv i tv))"

lemma candidate_key:
  assumes "lists_itself srv tv c" "candidate srv tv c i" "i < MAX_CLIENTS"
  obtains score n prev_i pref where "tie_key srv tv prev keep i = (score, n, prev_i, pref)" "score \<ge> 0" "n > 0"
proof -
  obtain n p f where st: "ffsplit_partition_stats srv (Some i) (Some (eff_membership srv i tv)) (eff_heuristics srv i tv) = (n, p, f)"
    by (metis prod_cases3)
  have "phase (sessions srv ! i) = ACTIVE" "node_id (sessions srv ! i) \<in> node_ids (eff_membership srv i tv)"
    using assms by (auto simp: lists_itself_def candidate_def in_walk_def active_in_def)
  with st assms(3) have "n > 0" by (blast intro: partition_stats_own)
  moreover have "p + f \<le> n" using st by (rule partition_stats_bounds)
  ultimately show thesis using that by (simp add: tie_key_def st)
qed

lemma takes_over_None:
  assumes "lists_itself srv tv c" "candidate srv tv c i" "i < MAX_CLIENTS"
  shows "takes_over srv tv prev keep i None \<longleftrightarrow> quorate_size srv tv i"
proof -
  obtain score n prev_i pref where "tie_key srv tv prev keep i = (score, n, prev_i, pref)" "score \<ge> 0" "n > 0"
    using candidate_key [OF assms] .
  then show ?thesis by (auto simp: takes_over_def majority_def quorate_size_def)
qed

lemma select_client_None:
  assumes "lists_itself srv tv c" "set is \<subseteq> {..<MAX_CLIENTS}" "select_client srv tv c prev keep is = None"
    and "i \<in> set is" "candidate srv tv c i"
  shows "\<not> quorate_size srv tv i"
  using assms(2-)
proof (induction "is" rule: rev_induct)
  case (snoc j "is")
  then show ?case
    by (cases "i = j") (auto simp: takes_over_None [OF assms(1)] split: if_splits)
qed simp

text \<open>Among partitions of exactly half the nodes the best key wins.\<close>

lemma select_client_best:
  assumes "lists_itself srv tv c" "set is \<subseteq> {..<MAX_CLIENTS}"
    and half: "\<And>i. i \<in> set is \<Longrightarrow> candidate srv tv c i \<Longrightarrow> 2 * length (eff_membership srv i tv) = length (eff_config srv i tv)"
    and "i \<in> set is" "candidate srv tv c i"
  shows "\<exists>b. select_client srv tv c prev keep is = Some b \<and> tie_key srv tv prev keep i \<le> tie_key srv tv prev keep b"
  using assms(2-)
proof (induction "is" arbitrary: i rule: rev_induct)
  case (snoc j "is")
  have sub: "set is \<subseteq> {..<MAX_CLIENTS}" "j < MAX_CLIENTS" using snoc.prems(1) by auto
  have IH: "\<exists>b. select_client srv tv c prev keep is = Some b \<and> tie_key srv tv prev keep k \<le> tie_key srv tv prev keep b"
    if "k \<in> set is" "candidate srv tv c k" for k
    using sub(1) that by (intro snoc.IH) (auto intro: snoc.prems(2))
  have size: "candidate srv tv c j \<Longrightarrow> quorate_size srv tv j \<and> \<not> majority srv tv j"
    using snoc.prems(2) [of j] by (auto simp: quorate_size_def majority_def) (metis dvd_triv_left)
  show ?case
  proof (cases "select_client srv tv c prev keep is")
    case None
    have "i = j" using None IH [of i] snoc.prems(3,4) by auto
    with snoc.prems(4) sub(2) size None show ?thesis by (simp add: takes_over_None [OF assms(1)])
  next
    case (Some b)
    have over: "takes_over srv tv prev keep j (Some b) \<longleftrightarrow> tie_key srv tv prev keep b < tie_key srv tv prev keep j \<or>
        tie_key srv tv prev keep b = tie_key srv tv prev keep j \<and> snd (snd (snd (tie_key srv tv prev keep j)))"
      if "candidate srv tv c j"
      using size [OF that] by (cases "tie_key srv tv prev keep j") (simp add: takes_over_def)
    have old: "tie_key srv tv prev keep i \<le> tie_key srv tv prev keep b" if "i \<in> set is"
      using IH [OF that snoc.prems(4)] Some by auto
    show ?thesis
      using old over snoc.prems(3,4) Some by (cases "i = j") (auto intro: order_trans)
  qed
qed simp


text \<open>The memberships the clients report are partitions of one configuration.\<close>

definition proper_split :: "server \<Rightarrow> trigger_view \<Rightarrow> int \<Rightarrow> bool" where
  "proper_split srv tv c \<longleftrightarrow>
    (\<forall>i<MAX_CLIENTS. candidate srv tv c i \<longrightarrow>
       distinct (map ni_node_id (eff_config srv i tv)) \<and> distinct (map ni_node_id (eff_membership srv i tv)) \<and>
       node_ids (eff_membership srv i tv) \<subseteq> node_ids (eff_config srv i tv) \<and>
       (\<forall>j<MAX_CLIENTS. candidate srv tv c j \<longrightarrow>
          node_ids (eff_config srv j tv) = node_ids (eff_config srv i tv) \<and>
          (node_ids (eff_membership srv j tv) = node_ids (eff_membership srv i tv) \<or>
           node_ids (eff_membership srv j tv) \<inter> node_ids (eff_membership srv i tv) = {})))"

lemma card_node_ids: "distinct (map ni_node_id l) \<Longrightarrow> card (node_ids l) = length l"
  using distinct_card [of "map ni_node_id l"] by (simp add: node_ids_def)

lemma majority_unique:
  assumes split: "proper_split srv tv c" and i: "i < MAX_CLIENTS" "candidate srv tv c i" "majority srv tv i"
    and j: "j < MAX_CLIENTS" "candidate srv tv c j" "quorate_size srv tv j"
  shows "node_ids (eff_membership srv j tv) = node_ids (eff_membership srv i tv)"
proof (rule ccontr)
  let ?mi = "node_ids (eff_membership srv i tv)" and ?mj = "node_ids (eff_membership srv j tv)"
    and ?cfg = "node_ids (eff_config srv i tv)"
  assume "?mj \<noteq> ?mi"
  with split i j have disj: "?mj \<inter> ?mi = {}" and cfg: "node_ids (eff_config srv j tv) = ?cfg"
    and sub: "?mi \<subseteq> ?cfg" "?mj \<subseteq> ?cfg"
    unfolding proper_split_def by blast+
  have fin: "finite ?cfg" by (simp add: node_ids_def)
  have "card (?mj \<union> ?mi) \<le> card ?cfg" using sub fin by (intro card_mono) auto
  moreover have "card (?mj \<union> ?mi) = card ?mj + card ?mi"
    using disj sub fin by (intro card_Un_disjoint) (auto intro: finite_subset)
  moreover have "card ?mi = length (eff_membership srv i tv)" "card ?mj = length (eff_membership srv j tv)"
    "card ?cfg = length (eff_config srv i tv)" "card ?cfg = length (eff_config srv j tv)"
    using split i j cfg unfolding proper_split_def by (metis card_node_ids)+
  ultimately show False
    using i(3) j(3) by (simp add: majority_def quorate_size_def split: if_splits)
qed

subsection \<open>The selected partition\<close>

text \<open>The facts above for \<open>ffsplit_select_partition\<close>.\<close>

lemma select_partition_sound:
  assumes "cluster_at srv c = Some cl" and c: "c = cluster (sessions srv ! tv_slot tv)"
    and "ffsplit_select_partition srv tv = Some (Some w)"
  shows "\<exists>i<MAX_CLIENTS. candidate srv tv c i \<and> w = eff_membership srv i tv \<and> quorate_size srv tv i"
  using assms(1,3) select_client_Some [of srv tv c "quorate_partition cl" "ffsplit_keep_active_tb srv c" "[0..<MAX_CLIENTS]"]
  by (auto simp: ffsplit_select_partition_eq [OF _ c] simp flip: c)

lemma select_partition_None_iff:
  assumes cl: "cluster_at srv c = Some cl" and c: "c = cluster (sessions srv ! tv_slot tv)"
    and own: "lists_itself srv tv c"
  shows "ffsplit_select_partition srv tv = Some None \<longleftrightarrow>
    (\<forall>i<MAX_CLIENTS. candidate srv tv c i \<longrightarrow> \<not> quorate_size srv tv i)"
proof -
  have cl': "cluster_at srv (cluster (sessions srv ! tv_slot tv)) = Some cl" using cl c by simp
  let ?sel = "select_client srv tv c (quorate_partition cl) (ffsplit_keep_active_tb srv c) [0..<MAX_CLIENTS]"
  have "?sel = None \<longleftrightarrow> (\<forall>i<MAX_CLIENTS. candidate srv tv c i \<longrightarrow> \<not> quorate_size srv tv i)"
    using select_client_None [OF own, of "[0..<MAX_CLIENTS]", simplified atLeast0LessThan set_upt, OF subset_refl]
      select_client_Some [of srv tv c "quorate_partition cl" "ffsplit_keep_active_tb srv c" "[0..<MAX_CLIENTS]"]
    by (cases ?sel) auto
  then show ?thesis unfolding ffsplit_select_partition_eq [OF cl' c] by simp
qed

text \<open>Without the assumption: a report can be elected if it is a majority, or half of the nodes and
  either names a connected node or the node the tie breaker prefers.\<close>

definition electable :: "server \<Rightarrow> trigger_view \<Rightarrow> int \<Rightarrow> nat \<Rightarrow> bool" where
  "electable srv tv c i \<longleftrightarrow>
    2 * length (eff_membership srv i tv) > length (eff_config srv i tv) \<or>
    2 * length (eff_membership srv i tv) = length (eff_config srv i tv) \<and>
      ((\<exists>j<MAX_CLIENTS. active_in (sessions srv ! j) c \<and> node_id (sessions srv ! j) \<in> node_ids (eff_membership srv i tv)) \<or>
       preferred_node (tie_breaker (sessions srv ! i)) (eff_config srv i tv) \<in> node_ids (eff_membership srv i tv))"

lemma quorate_size_iff: "quorate_size srv tv i \<longleftrightarrow> majority srv tv i \<or> 2 * length (eff_membership srv i tv) = length (eff_config srv i tv)"
  unfolding quorate_size_def majority_def by (metis dvd_triv_left le_less)

lemma partition_stats_clients:
  assumes "ffsplit_partition_stats srv (Some i) (Some mem) h = (n, p, f)"
  shows "n > 0 \<longleftrightarrow> (\<exists>j<MAX_CLIENTS. active_in (sessions srv ! j) (cluster (sessions srv ! i)) \<and> node_id (sessions srv ! j) \<in> node_ids mem)"
proof -
  have slot: "node_slot srv c nid \<noteq> None \<longleftrightarrow> (\<exists>j<MAX_CLIENTS. active_in (sessions srv ! j) c \<and> node_id (sessions srv ! j) = nid)" for c nid
    unfolding node_slot_def find_eq_None_iff by auto
  have "n > 0 \<longleftrightarrow> (\<exists>x\<in>set mem. node_slot srv (cluster (sessions srv ! i)) (ni_node_id x) \<noteq> None)"
    using assms by (auto simp: partition_stats_eq node_heuristics_def filter_empty_conv)
  also have "\<dots> \<longleftrightarrow> (\<exists>j<MAX_CLIENTS. active_in (sessions srv ! j) (cluster (sessions srv ! i)) \<and> node_id (sessions srv ! j) \<in> node_ids mem)"
    unfolding slot node_ids_def set_map image_iff by metis
  finally show ?thesis .
qed

lemma takes_over_None_iff:
  assumes "candidate srv tv c i"
  shows "takes_over srv tv prev keep i None \<longleftrightarrow> electable srv tv c i"
proof -
  obtain n p f where st: "ffsplit_partition_stats srv (Some i) (Some (eff_membership srv i tv)) (eff_heuristics srv i tv) = (n, p, f)"
    by (metis prod_cases3)
  have "cluster (sessions srv ! i) = c" using assms by (simp add: candidate_def in_walk_def active_in_def)
  with partition_stats_clients [OF st] partition_stats_bounds(1) [OF st] show ?thesis
    by (auto simp: takes_over_def majority_def quorate_size_iff electable_def tie_key_def st)
qed

lemma select_client_None_iff:
  "select_client srv tv c prev keep is = None \<longleftrightarrow> (\<forall>i\<in>set is. candidate srv tv c i \<longrightarrow> \<not> electable srv tv c i)"
  by (induction "is" rule: rev_induct) (auto simp: takes_over_None_iff split: if_splits)

lemma select_partition_None:
  assumes "cluster_at srv c = Some cl" and c: "c = cluster (sessions srv ! tv_slot tv)"
  shows "ffsplit_select_partition srv tv = Some None \<longleftrightarrow> (\<forall>i<MAX_CLIENTS. candidate srv tv c i \<longrightarrow> \<not> electable srv tv c i)"
proof -
  have cl': "cluster_at srv (cluster (sessions srv ! tv_slot tv)) = Some cl" using assms by simp
  show ?thesis unfolding ffsplit_select_partition_eq [OF cl' c] by (auto simp: select_client_None_iff)
qed

text \<open>For a client that reports itself this is a report of quorate size.\<close>

lemma electable_size:
  assumes "candidate srv tv c i" "i < MAX_CLIENTS" "node_id (sessions srv ! i) \<in> node_ids (eff_membership srv i tv)"
  shows "electable srv tv c i \<longleftrightarrow> quorate_size srv tv i"
proof -
  have "active_in (sessions srv ! i) c" using assms(1) by (simp add: candidate_def in_walk_def)
  with assms(2,3) show ?thesis by (auto simp: electable_def quorate_size_iff majority_def)
qed

lemma select_partition_majority:
  assumes cl: "cluster_at srv c = Some cl" and c: "c = cluster (sessions srv ! tv_slot tv)"
    and own: "lists_itself srv tv c" and split: "proper_split srv tv c"
    and i: "i < MAX_CLIENTS" "candidate srv tv c i" "majority srv tv i"
  shows "\<exists>w. ffsplit_select_partition srv tv = Some (Some w) \<and> node_ids w = node_ids (eff_membership srv i tv)"
proof -
  have cl': "cluster_at srv (cluster (sessions srv ! tv_slot tv)) = Some cl" using cl c by simp
  have "quorate_size srv tv i" using i(3) by (simp add: majority_def quorate_size_def)
  with i select_partition_None_iff [OF cl c own] have "ffsplit_select_partition srv tv \<noteq> Some None" by blast
  then obtain w where w: "ffsplit_select_partition srv tv = Some (Some w)"
    unfolding ffsplit_select_partition_eq [OF cl' c] by auto
  with select_partition_sound [OF cl c w] majority_unique [OF split i] show ?thesis by blast
qed

lemma select_partition_best:
  assumes cl: "cluster_at srv c = Some cl" and c: "c = cluster (sessions srv ! tv_slot tv)"
    and own: "lists_itself srv tv c"
    and half: "\<And>i. i < MAX_CLIENTS \<Longrightarrow> candidate srv tv c i \<Longrightarrow>
        2 * length (eff_membership srv i tv) = length (eff_config srv i tv)"
    and some: "\<exists>i<MAX_CLIENTS. candidate srv tv c i"
  shows "\<exists>b<MAX_CLIENTS. candidate srv tv c b \<and> ffsplit_select_partition srv tv = Some (Some (eff_membership srv b tv)) \<and>
    (\<forall>i<MAX_CLIENTS. candidate srv tv c i \<longrightarrow>
       tie_key srv tv (quorate_partition cl) (ffsplit_keep_active_tb srv c) i
         \<le> tie_key srv tv (quorate_partition cl) (ffsplit_keep_active_tb srv c) b)"
proof -
  have cl': "cluster_at srv (cluster (sessions srv ! tv_slot tv)) = Some cl" using cl c by simp
  let ?sel = "select_client srv tv c (quorate_partition cl) (ffsplit_keep_active_tb srv c) [0..<MAX_CLIENTS]"
  let ?key = "tie_key srv tv (quorate_partition cl) (ffsplit_keep_active_tb srv c)"
  have best: "\<exists>b. ?sel = Some b \<and> ?key i \<le> ?key b" if "i < MAX_CLIENTS" "candidate srv tv c i" for i
    using that by (intro select_client_best [OF own]) (auto intro: half)
  obtain b where b: "?sel = Some b" using some best by blast
  with select_client_Some [OF b] best show ?thesis
    unfolding ffsplit_select_partition_eq [OF cl' c] by (intro exI [of _ b]) auto
qed

subsection \<open>Stability\<close>

definition unique_ids :: "server \<Rightarrow> trigger_view \<Rightarrow> int \<Rightarrow> bool" where
  "unique_ids srv tv c \<longleftrightarrow> (\<forall>i<MAX_CLIENTS. \<forall>j<MAX_CLIENTS. in_walk srv c tv i \<longrightarrow> in_walk srv c tv j \<longrightarrow>
     node_id (sessions srv ! i) = node_id (sessions srv ! j) \<longrightarrow> i = j)"

lemma unique_ids_code [code]:
  "unique_ids srv tv c \<longleftrightarrow> distinct (map (\<lambda>i. node_id (sessions srv ! i)) (filter (in_walk srv c tv) [0..<MAX_CLIENTS]))"
  unfolding unique_ids_def distinct_map by (auto simp: inj_on_def)

lemma walk_pairs:
  "(\<forall>i\<in>set [0..<m]. \<not> W i \<or> (\<forall>j\<in>set [0..<m]. i = j \<or> \<not> W j \<or> A i j)) \<longleftrightarrow>
   (\<forall>i j. (i < m \<and> W i) \<and> (j < m \<and> W j) \<and> i \<noteq> j \<longrightarrow> A i j)"
  by (simp add: Ball_def) metis

lemma walk_members:
  "(\<forall>i\<in>set [0..<m]. \<not> W i \<or> (\<forall>n\<in>set (mem i). \<forall>j. (j < m \<and> W j) \<and> nid j = ni_node_id n \<longrightarrow> B i j)) \<longleftrightarrow>
   (\<forall>i j. (i < m \<and> W i) \<and> (j < m \<and> W j) \<and> nid j \<in> node_ids (mem i) \<longrightarrow> B i j)"
  by (simp add: Ball_def node_ids_def image_iff Bex_def) metis

lemma walk_conj:
  "(\<forall>i j. (i < m \<and> W i) \<and> (j < m \<and> W j) \<longrightarrow> C i j) \<and>
   (\<forall>i j. (i < m \<and> W i) \<and> (j < m \<and> W j) \<and> M i j \<longrightarrow> R i j) \<longleftrightarrow>
   (\<forall>i<m. \<forall>j<m. W i \<longrightarrow> W j \<longrightarrow> C i j \<and> (M i j \<longrightarrow> R i j))" for m :: nat
  by blast

lemma ffsplit_is_stable_iff:
  assumes c: "c = cluster (sessions srv ! tv_slot tv)"
    and uniq: "unique_ids srv tv c" and own: "lists_itself srv tv c"
  shows "ffsplit_is_stable srv tv \<longleftrightarrow>
    (\<forall>i<MAX_CLIENTS. \<forall>j<MAX_CLIENTS. in_walk srv c tv i \<longrightarrow> in_walk srv c tv j \<longrightarrow>
       node_ids (eff_config srv i tv) = node_ids (eff_config srv j tv) \<and>
       (node_id (sessions srv ! j) \<in> node_ids (eff_membership srv i tv) \<longrightarrow>
          eff_ring srv i tv = eff_ring srv j tv \<and>
          node_ids (eff_membership srv i tv) = node_ids (eff_membership srv j tv)))"
proof -
  let ?walk = "\<lambda>i. i < MAX_CLIENTS \<and> in_walk srv c tv i"
  let ?mem = "\<lambda>i. eff_membership srv i tv" and ?nid = "\<lambda>i. node_id (sessions srv ! i)"
  have all: "list_all (\<lambda>n. node_list_find l (ni_node_id n) \<noteq> None) l' \<longleftrightarrow> node_ids l' \<subseteq> node_ids l" for l l'
    by (auto simp: list_all_iff node_list_find_None_iff node_ids_def)
  have find: "List.find (\<lambda>j. ?nid j = nid \<and> in_walk srv c tv j) [0..<MAX_CLIENTS] = Some j
      \<longleftrightarrow> ?walk j \<and> ?nid j = nid" for nid j
    using uniq by (subst find_unique) (auto simp: unique_ids_def)
  have opt: "(case x of None \<Rightarrow> True | Some j \<Rightarrow> Q j) \<longleftrightarrow> (\<forall>j. x = Some j \<longrightarrow> Q j)" for x :: "nat option" and Q
    by (cases x) simp_all
  define A where "A i j \<longleftrightarrow> node_ids (eff_config srv i tv) \<subseteq> node_ids (eff_config srv j tv)" for i j
  define B where "B i j \<longleftrightarrow> eff_ring srv i tv = eff_ring srv j tv \<and> node_ids (?mem i) \<subseteq> node_ids (?mem j)" for i j
  have "ffsplit_is_stable srv tv \<longleftrightarrow> (\<forall>i j. ?walk i \<and> ?walk j \<and> i \<noteq> j \<longrightarrow> A i j) \<and>
      (\<forall>i j. ?walk i \<and> ?walk j \<and> ?nid j \<in> node_ids (?mem i) \<longrightarrow> B i j)"
    unfolding ffsplit_is_stable_def Let_def c [symmetric] all opt find ring_id_eq_iff list_all_iff [of _ "[0..<MAX_CLIENTS]"]
      list_all_iff [of _ "?mem _"] A_def [symmetric] B_def [symmetric]
    by (simp only: walk_pairs walk_members)
  moreover have "(\<forall>i j. ?walk i \<and> ?walk j \<and> i \<noteq> j \<longrightarrow> A i j) \<longleftrightarrow>
      (\<forall>i j. ?walk i \<and> ?walk j \<longrightarrow> node_ids (eff_config srv i tv) = node_ids (eff_config srv j tv))"
    unfolding A_def by (metis subset_antisym subset_refl)
  moreover have "(\<forall>i j. ?walk i \<and> ?walk j \<and> ?nid j \<in> node_ids (?mem i) \<longrightarrow> B i j) \<longleftrightarrow>
      (\<forall>i j. ?walk i \<and> ?walk j \<and> ?nid j \<in> node_ids (?mem i) \<longrightarrow>
         eff_ring srv i tv = eff_ring srv j tv \<and> node_ids (?mem i) = node_ids (?mem j))" (is "?L \<longleftrightarrow> ?R")
  proof (intro iffI allI impI)
    fix i j assume L: ?L and ij: "?walk i \<and> ?walk j \<and> ?nid j \<in> node_ids (?mem i)"
    from L ij have "B i j" by blast
    moreover have "?nid i \<in> node_ids (?mem i)"
    proof -
      have "?mem i \<noteq> []" using ij by (cases "?mem i") auto
      with own ij show ?thesis by (simp add: lists_itself_def)
    qed
    ultimately have "?nid i \<in> node_ids (?mem j)" by (simp add: B_def subset_iff)
    with L ij have "B j i" by blast
    with \<open>B i j\<close> show "eff_ring srv i tv = eff_ring srv j tv \<and> node_ids (?mem i) = node_ids (?mem j)"
      by (simp add: B_def)
  next
    fix i j assume ?R and "?walk i \<and> ?walk j \<and> ?nid j \<in> node_ids (?mem i)"
    then have "eff_ring srv i tv = eff_ring srv j tv \<and> node_ids (?mem i) = node_ids (?mem j)" by blast
    then show "B i j" by (simp add: B_def)
  qed
  ultimately show ?thesis by (simp only: walk_conj)
qed
end
