(* ===== verification/Handlers.thy ===== *)
theory Handlers
  imports Ffsplit
begin

text \<open>
  Closing connections and the message handlers: \<^verbatim>\<open>components/qnetd/server.cpp\<close>, lines 56--87
  and 134--460. A handler takes the server and the slot of the client and returns the
  server afterwards; \<^verbatim>\<open>Session &s = sessions_[slot]\<close> is a read of the session, and the
  assignments through \<open>s\<close> are written back with \<open>set_session\<close>.
\<close>

subsection \<open>Closing connections\<close>

text \<open>\<open>drain_closes\<close> pops slots from the back of \<open>pending_close\<close>. The loop is a partial
  function; that it ends is proved with the invariant of the server.\<close>

partial_function (option) drain_loop :: "server \<Rightarrow> server option" where
  "drain_loop srv =
    (if pending_close srv = [] then Some srv
     else
       Option.bind (session_at srv (last (pending_close srv))) (\<lambda>s.
         if phase s = FREE then drain_loop (srv\<lparr>pending_close := butlast (pending_close srv)\<rparr>)
         else
           Option.bind
             (leave_cluster (srv\<lparr>pending_close := butlast (pending_close srv)\<rparr>) (last (pending_close srv)))
             (\<lambda>srv'. drain_loop
               (close_connection (set_session srv' (last (pending_close srv)) Session)
                 (last (pending_close srv))))))"

declare drain_loop.simps [code]

definition drain_closes :: "server \<Rightarrow> server ub" where
  "drain_closes srv = do {
     srv \<leftarrow> drain_loop (srv\<lparr>processing := True\<rparr>);
     Some (notify (srv\<lparr>processing := False\<rparr>))
   }"

definition disconnect_client :: "server \<Rightarrow> nat \<Rightarrow> server ub" where
  "disconnect_client srv slot = do {
     s \<leftarrow> session_at srv slot;
     if phase s = FREE \<or> schedule_disconnect s then Some srv
     else
       (let srv = (set_session srv slot (s\<lparr>schedule_disconnect := True\<rparr>))
                    \<lparr>pending_close := pending_close srv @ [slot]\<rparr>
        in if \<not> processing srv then drain_closes srv else Some srv)
   }"

subsection \<open>Handshake\<close>

definition handle_preinit :: "server \<Rightarrow> nat \<Rightarrow> msg_decoded \<Rightarrow> server ub" where
  "handle_preinit srv slot m = do {
     s \<leftarrow> session_at srv slot;
     Some (if m_cluster_name m = [] then send_err srv slot m DOESNT_CONTAIN_REQUIRED_OPTION
       else if phase s \<noteq> WAIT_PREINIT then send_err srv slot m UNEXPECTED_MESSAGE
       else send_frame
              (set_session srv slot (s\<lparr>cluster_name := m_cluster_name m, phase := WAIT_INIT\<rparr>))
              slot
              (build_preinit_reply (m_seq_number_set m) (m_seq_number m) TlsSupported_UNSUPPORTED 0))
   }"

text \<open>The checks of \<open>handle_init\<close> in their order. Each takes the error code so far and the
  session, and returns both; note that the first two write the session also when an
  error was found before.\<close>

definition init_node_id :: "msg_decoded \<Rightarrow> reply_error_code \<times> session \<Rightarrow> reply_error_code \<times> session" where
  "init_node_id m = (\<lambda>(code, s).
     if code = NO_ERROR \<and> \<not> m_node_id_set m then (DOESNT_CONTAIN_REQUIRED_OPTION, s)
     else (code, s\<lparr>node_id := m_node_id m\<rparr>))"

definition init_ring_id :: "msg_decoded \<Rightarrow> reply_error_code \<times> session \<Rightarrow> reply_error_code \<times> session" where
  "init_ring_id m = (\<lambda>(code, s).
     if code = NO_ERROR \<and> \<not> m_ring_id_set m then (DOESNT_CONTAIN_REQUIRED_OPTION, s)
     else (code, s\<lparr>last_ring_id := m_ring_id m\<rparr>))"

definition init_heartbeat :: "msg_decoded \<Rightarrow> reply_error_code \<times> session \<Rightarrow> reply_error_code \<times> session" where
  "init_heartbeat m = (\<lambda>(code, s).
     if code = NO_ERROR
     then (if \<not> m_heartbeat_interval_set m then (DOESNT_CONTAIN_REQUIRED_OPTION, s)
           else if m_heartbeat_interval m < HEARTBEAT_MIN_MS \<or> m_heartbeat_interval m > HEARTBEAT_MAX_MS
           then (INVALID_HEARTBEAT_INTERVAL, s)
           else (code, s\<lparr>heartbeat_ms := m_heartbeat_interval m\<rparr>))
     else (code, s))"

definition init_tie_breaker :: "msg_decoded \<Rightarrow> reply_error_code \<times> session \<Rightarrow> reply_error_code \<times> session" where
  "init_tie_breaker m = (\<lambda>(code, s).
     if code = NO_ERROR
     then (if \<not> m_tie_breaker_set m then (DOESNT_CONTAIN_REQUIRED_OPTION, s)
           else (code, s\<lparr>tie_breaker := m_tie_breaker m\<rparr>))
     else (code, s))"

definition init_algorithm :: "msg_decoded \<Rightarrow> reply_error_code \<times> session \<Rightarrow> reply_error_code \<times> session" where
  "init_algorithm m = (\<lambda>(code, s).
     if code = NO_ERROR
     then (if \<not> m_decision_algorithm_set m then (DOESNT_CONTAIN_REQUIRED_OPTION, s)
           else if m_decision_algorithm m \<noteq> Algorithm_FFSPLIT then (UNSUPPORTED_DECISION_ALGORITHM, s)
           else (code, s\<lparr>algorithm := m_decision_algorithm m\<rparr>))
     else (code, s))"

text \<open>The loop over the other members of the cluster stops at the first that disagrees.\<close>

definition init_check_peer :: "session \<Rightarrow> session \<Rightarrow> reply_error_code" where
  "init_check_peer s other =
     (if \<not> tie_breaker_eq (tie_breaker s) (tie_breaker other) then TIE_BREAKER_DIFFERS_FROM_OTHER_NODES
      else if algorithm s \<noteq> algorithm other then ALGORITHM_DIFFERS_FROM_OTHER_NODES
      else if node_id s = node_id other then DUPLICATE_NODE_ID
      else NO_ERROR)"

definition init_check_new_client ::
    "server \<Rightarrow> nat \<Rightarrow> reply_error_code \<times> session \<Rightarrow> reply_error_code \<times> session" where
  "init_check_new_client srv slot = (\<lambda>(code, s).
     if code = NO_ERROR
     then
       (case List.find (\<lambda>i. i \<noteq> slot \<and> phase (sessions srv ! i) = ACTIVE
                 \<and> cluster_name (sessions srv ! i) = cluster_name s
                 \<and> init_check_peer s (sessions srv ! i) \<noteq> NO_ERROR) [0..<MAX_CLIENTS] of
          Some i \<Rightarrow> (init_check_peer s (sessions srv ! i), s)
        | None \<Rightarrow> (NO_ERROR, s))
     else (code, s))"

definition init_checks :: "server \<Rightarrow> nat \<Rightarrow> msg_decoded \<Rightarrow> session \<Rightarrow> reply_error_code \<times> session" where
  "init_checks srv slot m s =
    (let code = (if phase s = ACTIVE then UNEXPECTED_MESSAGE else NO_ERROR)
     in init_check_new_client srv slot
          (init_algorithm m (init_tie_breaker m (init_heartbeat m
            (init_ring_id m (init_node_id m (code, s)))))))"

definition init_join :: "server \<Rightarrow> nat \<Rightarrow> session \<Rightarrow> u64 \<Rightarrow> (reply_error_code \<times> server) ub" where
  "init_join srv slot s now_ms = do {
     let (srv, c) = find_or_create_cluster srv (cluster_name s);
     if c < 0 then Some (INTERNAL_ERROR, set_session srv slot s)
     else do {
       cl \<leftarrow> cluster_at srv c;
       let cl = (if cl_members cl = 0
                 then cl\<lparr>cl_state := Cluster_WAITING_FOR_CHANGE, quorate_partition := []\<rparr> else cl);
       let cl = cl\<lparr>cl_members := cl_members cl + 1\<rparr>;
       let s = reschedule_dpd (s\<lparr>cluster := c, phase := ACTIVE\<rparr>) now_ms;
       Some (NO_ERROR, set_session (set_cluster srv c cl) slot s)
     }
   }"

definition handle_init :: "server \<Rightarrow> nat \<Rightarrow> msg_decoded \<Rightarrow> u64 \<Rightarrow> server ub" where
  "handle_init srv slot m now_ms = do {
     s \<leftarrow> session_at srv slot;
     let (code, s) = init_checks srv slot m s;
     (code, srv) \<leftarrow>
       (if code = NO_ERROR then init_join srv slot s now_ms
        else Some (code, set_session srv slot s));
     Some (notify (send_frame srv slot
       (build_init_reply (m_seq_number_set m) (m_seq_number m) code
         (m_supported_messages_present m) (m_supported_options_present m)
         (max_rx_frame srv) (max_rx_frame srv))))
   }"

definition handle_set_option :: "server \<Rightarrow> nat \<Rightarrow> msg_decoded \<Rightarrow> u64 \<Rightarrow> server ub" where
  "handle_set_option srv slot m now_ms = do {
     s \<leftarrow> session_at srv slot;
     if m_heartbeat_interval_set m
        \<and> (m_heartbeat_interval m < HEARTBEAT_MIN_MS \<or> m_heartbeat_interval m > HEARTBEAT_MAX_MS)
     then Some (send_err srv slot m INVALID_HEARTBEAT_INTERVAL)
     else
       (let s = (if m_heartbeat_interval_set m
                 then reschedule_dpd (s\<lparr>heartbeat_ms := m_heartbeat_interval m\<rparr>) now_ms else s);
            s = (if m_keep_active_partition_tie_breaker_set m
                 then s\<lparr>keep_active_partition_tb := (m_keep_active_partition_tie_breaker m \<noteq> 0)\<rparr> else s)
        in Some (send_frame (set_session srv slot s) slot
             (build_set_option_reply (m_seq_number_set m) (m_seq_number m)
               (m_heartbeat_interval_set m) (heartbeat_ms s)
               (m_keep_active_partition_tie_breaker_set m)
               (if keep_active_partition_tb s then 1 else 0))))
   }"

subsection \<open>Node lists\<close>

text \<open>The first switch of \<open>handle_node_list\<close>: \<open>Inl\<close> is an early error reply, \<open>Inr\<close> the
  server after the algorithm ran together with its code and vote.\<close>

definition node_list_decide ::
    "server \<Rightarrow> nat \<Rightarrow> msg_decoded \<Rightarrow> session \<Rightarrow> (reply_error_code + server \<times> reply_error_code \<times> vote) ub" where
  "node_list_decide srv slot m s =
    (case m_node_list_type m of
       MEMBERSHIP \<Rightarrow>
         if \<not> m_ring_id_set m then Some (Inl DOESNT_CONTAIN_REQUIRED_OPTION)
         else if m_nodes m = [] \<or> node_list_find (m_nodes m) (node_id s) = None
         then Some (Inl INVALID_MEMBERSHIP_NODE_LIST)
         else if config_list s = [] then Some (Inr (srv, NO_ERROR, Vote_ASK_LATER))
         else map_option Inr (ffsplit_do srv
                \<lparr>tv_slot = slot, tv_leaving = False, tv_ring_id = m_ring_id m,
                 tv_config = config_list s, tv_membership = m_nodes m,
                 tv_heuristics = m_heuristics m\<rparr>)
     | QUORUM \<Rightarrow>
         if \<not> m_quorate_set m then Some (Inl DOESNT_CONTAIN_REQUIRED_OPTION)
         else Some (Inr (srv, NO_ERROR, Vote_NO_CHANGE))
     | _ \<Rightarrow>
         if m_nodes m = [] \<or> node_list_find (m_nodes m) (node_id s) = None
         then Some (Inl INVALID_CONFIG_NODE_LIST)
         else if m_node_list_type m = INITIAL_CONFIG \<or> membership_list s = []
         then Some (Inr (srv, NO_ERROR, Vote_ASK_LATER))
         else map_option Inr (ffsplit_do srv
                \<lparr>tv_slot = slot, tv_leaving = False, tv_ring_id = last_ring_id s,
                 tv_config = m_nodes m, tv_membership = membership_list s,
                 tv_heuristics = last_heuristics s\<rparr>))"

text \<open>The second switch: the lists are stored after the algorithm ran.\<close>

definition node_list_store :: "msg_decoded \<Rightarrow> session \<Rightarrow> session" where
  "node_list_store m s =
    (case m_node_list_type m of
       MEMBERSHIP \<Rightarrow> s\<lparr>membership_list := m_nodes m, last_ring_id := m_ring_id m,
                       last_heuristics := m_heuristics m\<rparr>
     | QUORUM \<Rightarrow> s\<lparr>quorum_list := m_nodes m\<rparr>
     | _ \<Rightarrow> s\<lparr>config_list := m_nodes m, config_version_set := m_config_version_set m,
              config_version := m_config_version m\<rparr>)"

definition record_vote :: "vote \<Rightarrow> session \<Rightarrow> session" where
  "record_vote result s =
    (let s = s\<lparr>last_sent_vote := result\<rparr>
     in if result = Vote_ACK \<or> result = Vote_NACK then s\<lparr>last_ack_nack := result\<rparr> else s)"

definition handle_node_list :: "server \<Rightarrow> nat \<Rightarrow> msg_decoded \<Rightarrow> server ub" where
  "handle_node_list srv slot m = do {
     s \<leftarrow> session_at srv slot;
     if \<not> m_node_list_type_set m \<or> \<not> m_seq_number_set m
     then Some (send_err srv slot m DOESNT_CONTAIN_REQUIRED_OPTION)
     else do {
       res \<leftarrow> node_list_decide srv slot m s;
       case res of
         Inl err \<Rightarrow> Some (send_err srv slot m err)
       | Inr (srv, code, result) \<Rightarrow>
           if code \<noteq> NO_ERROR then Some (send_err srv slot m code)
           else do {
             s \<leftarrow> session_at srv slot;
             let s = record_vote result (node_list_store m s);
             Some (notify (send_frame (set_session srv slot s) slot
               (build_node_list_reply (m_seq_number m) (m_node_list_type m) (last_ring_id s) result)))
           }
     }
   }"

definition handle_vote_info_reply :: "server \<Rightarrow> nat \<Rightarrow> msg_decoded \<Rightarrow> server ub" where
  "handle_vote_info_reply srv slot m = do {
     s \<leftarrow> session_at srv slot;
     if \<not> m_seq_number_set m then Some (send_err srv slot m DOESNT_CONTAIN_REQUIRED_OPTION)
     else if m_seq_number m \<noteq> vote_info_seq s then Some srv
     else do {
       let s = s\<lparr>ff_state := Client_WAITING_FOR_CHANGE\<rparr>;
       let srv = set_session srv slot s;
       cl \<leftarrow> cluster_at srv (cluster s);
       if cl_state cl = SENDING_NACKS
       then
         (if ffsplit_count_state srv (cluster s) SENDING_NACK = 0
          then
            (let cl = cl\<lparr>cl_state := SENDING_ACKS\<rparr>;
                 tv = \<lparr>tv_slot = slot, tv_leaving = False, tv_ring_id = last_ring_id s,
                       tv_config = config_list s, tv_membership = membership_list s,
                       tv_heuristics = last_heuristics s\<rparr>;
                 (srv, sent) = ffsplit_send_votes (set_cluster srv (cluster s) cl) tv True;
                 cl = (if sent = 0 then cl\<lparr>cl_state := Cluster_WAITING_FOR_CHANGE\<rparr> else cl)
             in Some (notify (set_cluster srv (cluster s) cl)))
          else Some (notify srv))
       else if cl_state cl = SENDING_ACKS
       then
         (if ffsplit_count_state srv (cluster s) SENDING_ACK = 0
          then Some (notify (set_cluster srv (cluster s) (cl\<lparr>cl_state := Cluster_WAITING_FOR_CHANGE\<rparr>)))
          else Some (notify srv))
       else Some (notify srv)
     }
   }"

definition handle_heuristics_change :: "server \<Rightarrow> nat \<Rightarrow> msg_decoded \<Rightarrow> server ub" where
  "handle_heuristics_change srv slot m = do {
     s \<leftarrow> session_at srv slot;
     if \<not> m_seq_number_set m \<or> m_heuristics m = Heuristics_UNDEFINED
     then Some (send_err srv slot m DOESNT_CONTAIN_REQUIRED_OPTION)
     else do {
       (srv, code, result) \<leftarrow>
         (if config_list s = [] \<or> membership_list s = [] then Some (srv, NO_ERROR, Vote_ASK_LATER)
          else ffsplit_do srv
                 \<lparr>tv_slot = slot, tv_leaving = False, tv_ring_id = last_ring_id s,
                  tv_config = config_list s, tv_membership = membership_list s,
                  tv_heuristics = m_heuristics m\<rparr>);
       if code \<noteq> NO_ERROR then Some (send_err srv slot m code)
       else do {
         s \<leftarrow> session_at srv slot;
         let s = record_vote result (s\<lparr>last_heuristics := m_heuristics m\<rparr>);
         Some (notify (send_frame (set_session srv slot s) slot
           (build_heuristics_change_reply (m_seq_number_set m) (m_seq_number m) result)))
       }
     }
   }"

subsection \<open>Dispatch\<close>

definition handle_active :: "server \<Rightarrow> nat \<Rightarrow> msg_type \<Rightarrow> frame \<Rightarrow> msg_decoded \<Rightarrow> u64 \<Rightarrow> server ub" where
  "handle_active srv slot type frame m now_ms =
    (case type of
       MsgType_SET_OPTION \<Rightarrow> handle_set_option srv slot m now_ms
     | MsgType_ECHO_REQUEST \<Rightarrow> Some (send_frame srv slot (build_echo_reply frame))
     | MsgType_NODE_LIST \<Rightarrow> handle_node_list srv slot m
     | MsgType_VOTE_INFO_REPLY \<Rightarrow> handle_vote_info_reply srv slot m
     | MsgType_HEURISTICS_CHANGE \<Rightarrow> handle_heuristics_change srv slot m
     | MsgType_ASK_FOR_VOTE \<Rightarrow> Some (send_err srv slot m UNSUPPORTED_DECISION_ALGORITHM_MESSAGE)
     | MsgType_STARTTLS \<Rightarrow> Some (send_err srv slot m UNSUPPORTED_MESSAGE)
     | _ \<Rightarrow> Some (send_err srv slot m UNEXPECTED_MESSAGE))"

definition handle_frame :: "server \<Rightarrow> nat \<Rightarrow> msg_type \<Rightarrow> frame \<Rightarrow> bytes \<Rightarrow> u64 \<Rightarrow> server ub" where
  "handle_frame srv slot type frame payload now_ms = do {
     decoded \<leftarrow> msg_decode type payload;
     case decoded of
       None \<Rightarrow> disconnect_client (send_err srv slot MsgDecoded ERROR_DECODING_MSG) slot
     | Some m \<Rightarrow> do {
         s \<leftarrow> session_at srv slot;
         if type \<noteq> MsgType_PREINIT \<and> phase s = WAIT_PREINIT
         then Some (send_err srv slot m PREINIT_REQUIRED)
         else if type = MsgType_PREINIT then handle_preinit srv slot m
         else if type = MsgType_INIT then handle_init srv slot m now_ms
         else if phase s \<noteq> ACTIVE then Some (send_err srv slot m INIT_REQUIRED)
         else handle_active srv slot type frame m now_ms
       }
   }"

end
