(* ===== verification/Server_Loop.thy ===== *)
theory Server_Loop
  imports Handlers
begin

text \<open>
  The entry points of the server: \<^verbatim>\<open>components/qnetd/server.cpp\<close>, lines 26--54, 89--132 and
  783--817. The embedder calls \<open>on_connect\<close>, \<open>on_data\<close>, \<open>on_disconnected\<close> and \<open>tick\<close>.
\<close>

subsection \<open>Connections and timers\<close>

definition on_connect :: "server \<Rightarrow> u64 \<Rightarrow> string \<Rightarrow> server \<times> int" where
  "on_connect srv now_ms peer_name =
    (case List.find (\<lambda>i. phase (sessions srv ! i) = FREE) [0..<MAX_CLIENTS] of
       Some i \<Rightarrow>
         (notify (set_session srv i
            (Session\<lparr>phase := WAIT_PREINIT, peer := peer_name,
                     deadline_ms := now_ms + PREACTIVE_TIMEOUT_MS\<rparr>)), int i)
     | None \<Rightarrow> (srv, -1))"

definition on_disconnected :: "server \<Rightarrow> int \<Rightarrow> server ub" where
  "on_disconnected srv slot =
    (if slot < 0 \<or> slot \<ge> int MAX_CLIENTS then Some srv
     else do {
       s \<leftarrow> session_at srv (nat slot);
       if phase s = FREE then Some srv
       else do {
         let was_processing = processing srv;
         srv \<leftarrow> leave_cluster (srv\<lparr>processing := True\<rparr>) (nat slot);
         let srv = (set_session srv (nat slot) Session)\<lparr>processing := was_processing\<rparr>;
         srv \<leftarrow> (if \<not> was_processing then drain_closes srv else Some srv);
         Some (notify srv)
       }
     })"

definition tick_slot :: "u64 \<Rightarrow> nat \<Rightarrow> server \<Rightarrow> server ub" where
  "tick_slot now_ms i srv = do {
     s \<leftarrow> session_at srv i;
     if phase s = FREE \<or> deadline_ms s = 0 \<or> schedule_disconnect s then Some srv
     else if now_ms \<ge> deadline_ms s then disconnect_client srv i
     else Some srv
   }"

definition tick :: "server \<Rightarrow> u64 \<Rightarrow> server ub" where
  "tick srv now_ms = fold_ub (tick_slot now_ms) [0..<MAX_CLIENTS] srv"

subsection \<open>Framing\<close>

text \<open>One pass of the loop in \<open>on_data\<close>: \<open>Inl\<close> leaves the loop, \<open>Inr\<close> goes round again.\<close>

definition on_data_step :: "server \<Rightarrow> nat \<Rightarrow> u64 \<Rightarrow> (server + server) ub" where
  "on_data_step srv slot now_ms = do {
     s \<leftarrow> session_at srv slot;
     if phase s = FREE \<or> schedule_disconnect s then Some (Inl srv)
     else if length (rx s) < MSG_HEADER_LEN then Some (Inl srv)
     else do {
       type \<leftarrow> be_get16 (rx s) 0;
       plen \<leftarrow> be_get32 (rx s) 2;
       if plen > max_rx_frame srv
       then do {
         srv \<leftarrow> disconnect_client (send_err srv slot MsgDecoded MESSAGE_TOO_LONG) slot;
         Some (Inl srv)
       }
       else if length (rx s) < MSG_HEADER_LEN + unat plen then Some (Inl srv)
       else do {
         frame \<leftarrow> slice_ub (rx s) 0 (MSG_HEADER_LEN + unat plen);
         payload \<leftarrow> slice_ub (rx s) MSG_HEADER_LEN (unat plen);
         srv \<leftarrow> handle_frame srv slot (MsgType_of type) frame payload now_ms;
         s \<leftarrow> session_at srv slot;
         Some (Inr (set_session srv slot (s\<lparr>rx := drop (MSG_HEADER_LEN + unat plen) (rx s)\<rparr>)))
       }
     }
   }"

partial_function (option) on_data_loop :: "nat \<Rightarrow> u64 \<Rightarrow> server \<Rightarrow> server option" where
  "on_data_loop slot now_ms srv =
     Option.bind (on_data_step srv slot now_ms) (\<lambda>r.
       case r of Inl srv' \<Rightarrow> Some srv' | Inr srv' \<Rightarrow> on_data_loop slot now_ms srv')"

declare on_data_loop.simps [code]

definition on_data :: "server \<Rightarrow> int \<Rightarrow> bytes \<Rightarrow> u64 \<Rightarrow> server ub" where
  "on_data srv slot data now_ms =
    (if slot < 0 \<or> slot \<ge> int MAX_CLIENTS then Some srv
     else do {
       s \<leftarrow> session_at srv (nat slot);
       if phase s = FREE \<or> schedule_disconnect s then Some srv
       else do {
         let s = reschedule_dpd (s\<lparr>rx := rx s @ data\<rparr>) now_ms;
         let srv = (set_session srv (nat slot) s)\<lparr>processing := True\<rparr>;
         srv \<leftarrow> on_data_loop (nat slot) now_ms srv;
         drain_closes (srv\<lparr>processing := False\<rparr>)
       }
     })"

subsection \<open>Introspection\<close>

definition connected_clients :: "server \<Rightarrow> nat" where
  "connected_clients srv = length (filter (\<lambda>s. phase s = ACTIVE) (sessions srv))"

definition any_ack :: "server \<Rightarrow> bool" where
  "any_ack srv \<longleftrightarrow> list_ex (\<lambda>s. phase s = ACTIVE \<and> last_ack_nack s = Vote_ACK) (sessions srv)"

text \<open>The decimal digits \<^verbatim>\<open>%u\<close> prints.\<close>

fun decimal :: "nat \<Rightarrow> string" where
  "decimal n = (if n < 10 then [char_of (48 + n)] else decimal (n div 10) @ [char_of (48 + n mod 10)])"

declare decimal.simps [simp del]

definition status_node :: "session \<Rightarrow> string" where
  "status_node s = '' '' @ decimal (unat (node_id s)) @ ''='' @ vote_str (last_ack_nack s)"

definition status_string :: "server \<Rightarrow> string" where
  "status_string srv =
    (let out = foldl (\<lambda>out c.
           if \<not> cl_used (clusters srv ! c) then out
           else (if out \<noteq> [] then out @ '' | '' else out) @ cl_name (clusters srv ! c) @ '':'' @
                concat (map status_node (filter (\<lambda>s. active_in s (int c)) (sessions srv))))
         [] [0..<MAX_CLUSTERS]
     in if out = [] then ''idle'' else out)"

end
