(* ===== verification/Invariant.thy ===== *)
theory Invariant
  imports Select_Facts Server_Loop
begin

text \<open>
  The invariant of the server and that decisions and departures keep it. \<open>server_ok\<close> says
  of every reachable state: a free slot holds a fresh session; only active sessions
  belong to a cluster, and to one that is in use and has their name; every cluster counts
  its members right; and the state of a cluster agrees with the states of its members, in
  particular no acknowledgement is under way while a client still has to confirm a
  refusal. \<open>pending_ok\<close> ties the list of pending closes to the flags in the sessions.
\<close>

subsection \<open>The invariant\<close>

definition session_ok :: "session \<Rightarrow> bool" where
  "session_ok s \<longleftrightarrow>
    (phase s = FREE \<longrightarrow> s = Session) \<and>
    (phase s \<noteq> ACTIVE \<longrightarrow> cluster s = -1 \<and> ff_state s = Client_WAITING_FOR_CHANGE \<and>
       last_ack_nack s = Vote_UNDEFINED \<and> last_sent_vote s = Vote_UNDEFINED \<and> vote_info_seq s = 0 \<and>
       config_list s = [] \<and> membership_list s = [] \<and> quorum_list s = []) \<and>
    (phase s = ACTIVE \<longrightarrow> algorithm s = Algorithm_FFSPLIT \<and>
       HEARTBEAT_MIN_MS \<le> heartbeat_ms s \<and> heartbeat_ms s \<le> HEARTBEAT_MAX_MS) \<and>
    (ff_state s = SENDING_NACK \<longrightarrow> last_ack_nack s = Vote_NACK) \<and>
    length (config_list s) \<le> MAX_NODES_PER_LIST \<and> length (membership_list s) \<le> MAX_NODES_PER_LIST \<and>
    length (quorum_list s) \<le> MAX_NODES_PER_LIST"

definition member_states :: "server \<Rightarrow> int \<Rightarrow> ff_client_state list" where
  "member_states srv c = map ff_state (filter (\<lambda>s. active_in s c) (sessions srv))"

definition cluster_ok :: "cluster_info \<Rightarrow> ff_client_state list \<Rightarrow> bool" where
  "cluster_ok cl sts \<longleftrightarrow>
    cl_members cl = int (length sts) \<and> (cl_used cl \<longleftrightarrow> sts \<noteq> []) \<and> (\<not> cl_used cl \<longrightarrow> cl = Cluster) \<and>
    (cl_state cl = SENDING_NACKS \<longrightarrow> SENDING_NACK \<in> set sts) \<and>
    (cl_state cl = SENDING_ACKS \<longrightarrow> SENDING_NACK \<notin> set sts \<and> SENDING_ACK \<in> set sts)"

definition placed :: "server \<Rightarrow> session \<Rightarrow> bool" where
  "placed srv s \<longleftrightarrow> (phase s = ACTIVE \<longrightarrow> 0 \<le> cluster s \<and> cluster s < int MAX_CLUSTERS \<and>
     cluster_name s = cl_name (clusters srv ! nat (cluster s)))"

definition pending_ok :: "server \<Rightarrow> bool" where
  "pending_ok srv \<longleftrightarrow> distinct (pending_close srv) \<and> set (pending_close srv) \<subseteq> {..<MAX_CLIENTS} \<and>
     (\<forall>i<MAX_CLIENTS. schedule_disconnect (sessions srv ! i) \<longleftrightarrow> i \<in> set (pending_close srv))"

definition clusters_ok :: "server \<Rightarrow> bool" where
  "clusters_ok srv \<longleftrightarrow>
    (\<forall>c<MAX_CLUSTERS. cluster_ok (clusters srv ! c) (member_states srv (int c))) \<and>
    (\<forall>c<MAX_CLUSTERS. \<forall>d<MAX_CLUSTERS. cl_used (clusters srv ! c) \<longrightarrow> cl_used (clusters srv ! d) \<longrightarrow>
       cl_name (clusters srv ! c) = cl_name (clusters srv ! d) \<longrightarrow> c = d)"

definition server_ok :: "server \<Rightarrow> bool" where
  "server_ok srv \<longleftrightarrow> length (sessions srv) = MAX_CLIENTS \<and> length (clusters srv) = MAX_CLUSTERS \<and>
     (\<forall>s\<in>set (sessions srv). session_ok s \<and> placed srv s) \<and> clusters_ok srv"

text \<open>The part of a session the invariant of the clusters depends on.\<close>

definition role :: "session \<Rightarrow> phase \<times> int \<times> string \<times> ff_client_state" where
  "role s = (phase s, cluster s, cluster_name s, ff_state s)"

lemma member_states_role:
  assumes "map role (sessions srv') = map role (sessions srv)"
  shows "member_states srv' c = member_states srv c"
proof -
  have "map role (filter (\<lambda>s. active_in s c) (sessions srv')) = map role (filter (\<lambda>s. active_in s c) (sessions srv))"
    using assms by (rule filter_map_cong) (simp add: role_def active_in_def)
  from arg_cong [OF this, of "map (\<lambda>r. snd (snd (snd r)))"] show ?thesis
    by (simp add: role_def comp_def member_states_def)
qed

lemma server_ok_role:
  assumes "server_ok srv" and "map role (sessions srv') = map role (sessions srv)" and "clusters srv' = clusters srv"
    and "\<And>s. s \<in> set (sessions srv') \<Longrightarrow> session_ok s"
  shows "server_ok srv'"
proof -
  have "length (sessions srv') = length (sessions srv)" using arg_cong [OF assms(2), of length] by simp
  moreover have "clusters_ok srv'"
    using assms(1) by (simp add: server_ok_def clusters_ok_def assms(3) member_states_role [OF assms(2)])
  moreover have "placed srv' s" if "s \<in> set (sessions srv')" for s
  proof -
    have "role s \<in> set (map role (sessions srv))" using that by (simp flip: assms(2))
    then obtain t where "t \<in> set (sessions srv)" "role t = role s" by auto
    moreover have "placed srv t" using assms(1) calculation(1) by (simp add: server_ok_def)
    ultimately show ?thesis by (simp add: placed_def role_def assms(3))
  qed
  ultimately show ?thesis using assms by (simp add: server_ok_def)
qed

lemma server_ok_cong: "sessions srv' = sessions srv \<Longrightarrow> clusters srv' = clusters srv \<Longrightarrow> server_ok srv' = server_ok srv"
  by (simp add: server_ok_def clusters_ok_def member_states_def placed_def [abs_def])

lemma server_ok_plumbing [simp]:
  "server_ok (send_frame srv i f) = server_ok srv" "server_ok (send_err srv i m e) = server_ok srv" "server_ok (close_connection srv i) = server_ok srv"
  "server_ok (notify srv) = server_ok srv" "server_ok (srv\<lparr>processing := b\<rparr>) = server_ok srv" "server_ok (srv\<lparr>pending_close := p\<rparr>) = server_ok srv"
  by (rule server_ok_cong; simp add: send_err_def)+

lemma server_ok_sessions: "server_ok srv \<Longrightarrow> s \<in> set (sessions srv) \<Longrightarrow> session_ok s"
  by (simp add: server_ok_def)

lemma server_ok_session: "server_ok srv \<Longrightarrow> i < MAX_CLIENTS \<Longrightarrow> session_ok (sessions srv ! i)"
  by (simp add: server_ok_def)

lemma server_ok_placed: "server_ok srv \<Longrightarrow> i < MAX_CLIENTS \<Longrightarrow> placed srv (sessions srv ! i)"
  by (simp add: server_ok_def)

lemma server_ok_length [simp]:
  "server_ok srv \<Longrightarrow> length (sessions srv) = MAX_CLIENTS" "server_ok srv \<Longrightarrow> length (clusters srv) = MAX_CLUSTERS"
  by (simp_all add: server_ok_def)

lemma server_ok_set_session:
  assumes "server_ok srv" "i < MAX_CLIENTS" "role s = role (sessions srv ! i)" "session_ok s"
  shows "server_ok (set_session srv i s)"
proof (rule server_ok_role [OF assms(1)])
  show "map role (sessions (set_session srv i s)) = map role (sessions srv)"
    using assms(3) by (simp add: map_update_same)
  show "session_ok t" if "t \<in> set (sessions (set_session srv i s))" for t
    using that assms(1,4) set_update_subset_insert [of "sessions srv" i s] by (auto simp: server_ok_sessions)
qed simp

subsection \<open>A decision keeps the invariant\<close>

lemma set_member_states:
  "x \<in> set (member_states srv c) \<longleftrightarrow>
    (\<exists>i<length (sessions srv). active_in (sessions srv ! i) c \<and> ff_state (sessions srv ! i) = x)"
  by (auto simp: member_states_def in_set_conv_nth)

lemma length_member_states:
  "length (member_states srv c) = length (filter (\<lambda>s. active_in s c) (sessions srv))"
  by (simp add: member_states_def)

definition decision :: "server \<Rightarrow> trigger_view \<Rightarrow> server \<Rightarrow> bool" where
  "decision srv tv srv' \<longleftrightarrow> (\<exists>c cl. c = cluster (sessions srv ! tv_slot tv) \<and> cluster_at srv c = Some cl \<and>
     (srv' = set_cluster srv c (cl\<lparr>cl_state := WAITING_FOR_STABLE_MEMBERSHIP\<rparr>) \<or>
      (\<exists>winner. ffsplit_select_partition srv tv = Some winner \<and> srv' = apply_decision srv tv c cl winner)))"

lemma ffsplit_do_decision:
  assumes "length (sessions srv) = MAX_CLIENTS" and "tv_slot tv < MAX_CLIENTS"
    and "cluster_at srv (cluster (sessions srv ! tv_slot tv)) = Some cl"
  obtains srv' res where "ffsplit_do srv tv = Some (srv', NO_ERROR, res)" "decision srv tv srv'"
    "res = Vote_WAIT_FOR_REPLY \<or> res = Vote_NO_CHANGE"
proof -
  define c where "c = cluster (sessions srv ! tv_slot tv)"
  note spec = ffsplit_do_spec [OF assms(1,2) c_def assms(3) [folded c_def]]
  obtain winner where w: "ffsplit_select_partition srv tv = Some winner"
    using ffsplit_select_partition_eq [OF assms(3) refl] by blast
  have "decision srv tv (set_cluster srv c (cl\<lparr>cl_state := WAITING_FOR_STABLE_MEMBERSHIP\<rparr>))"
    "decision srv tv (apply_decision srv tv c cl winner)"
    using assms(3) w unfolding decision_def c_def by blast+
  with that spec w show thesis by (cases "ffsplit_is_stable srv tv") auto
qed

lemma core_decide_session [simp]: "core (decide_session srv tv c winner s) = core s"
  by (simp add: decide_session_def)

lemma decide_session_sel [simp]:
  "phase (decide_session srv tv c winner s) = phase s" "cluster (decide_session srv tv c winner s) = cluster s"
  "active_in (decide_session srv tv c winner s) d = active_in s d"
  "schedule_disconnect (decide_session srv tv c winner s) = schedule_disconnect s"
  "cluster_name (decide_session srv tv c winner s) = cluster_name s"
  "rx (decide_session srv tv c winner s) = rx s"
  "node_id (decide_session srv tv c winner s) = node_id s"
  "config_list (decide_session srv tv c winner s) = config_list s"
  "membership_list (decide_session srv tv c winner s) = membership_list s"
  "tie_breaker (decide_session srv tv c winner s) = tie_breaker s"
  using core_eq_fields [OF core_decide_session [of srv tv c winner s]]
  by (simp_all add: active_in_def)

lemma session_ok_core:
  assumes "session_ok s" "core t = core s" "phase s = ACTIVE" "ff_state t = SENDING_NACK \<longrightarrow> last_ack_nack t = Vote_NACK"
  shows "session_ok t"
  using core_eq_fields [OF assms(2)] assms(1,3,4) unfolding session_ok_def by simp

lemma session_ok_decide: "session_ok s \<Longrightarrow> session_ok (decide_session srv tv c winner s)"
proof (cases "active_in s c")
  case True
  assume ok: "session_ok s"
  have nack: "ff_state s = SENDING_NACK \<longrightarrow> last_ack_nack s = Vote_NACK" using ok by (simp add: session_ok_def)
  show ?thesis
    by (rule session_ok_core [OF ok])
      (use True nack in \<open>auto simp: decide_session_def voted_def vote_cast_def active_in_def\<close>)
qed (simp add: decide_session_def)

lemma decision_frame:
  assumes "decision srv tv srv'"
  shows "same_core srv srv'" "length (sessions srv') = length (sessions srv)" "length (clusters srv') = length (clusters srv)"
    "pending_close srv' = pending_close srv" "processing srv' = processing srv"
    "max_rx_frame srv' = max_rx_frame srv" "on_state_change srv' = on_state_change srv"
  using assms by (auto simp: decision_def apply_decision_def same_core_def)

lemma decision_clusters:
  assumes "decision srv tv srv'" "0 \<le> c" "nat c < length (clusters srv)" "c = cluster (sessions srv ! tv_slot tv)"
  shows "d \<noteq> nat c \<Longrightarrow> clusters srv' ! d = clusters srv ! d"
    "cl_used (clusters srv' ! nat c) = cl_used (clusters srv ! nat c)"
    "cl_name (clusters srv' ! nat c) = cl_name (clusters srv ! nat c)"
    "cl_members (clusters srv' ! nat c) = cl_members (clusters srv ! nat c)"
  using assms by (auto simp: decision_def apply_decision_def cluster_at_eq_Some_iff)

lemma decision_session_ok:
  assumes "decision srv tv srv'" "\<And>s. s \<in> set (sessions srv) \<Longrightarrow> session_ok s" "s \<in> set (sessions srv')"
  shows "session_ok s"
  using assms by (auto simp: decision_def apply_decision_def session_ok_decide)

lemma decision_other:
  assumes "decision srv tv srv'" "i < length (sessions srv)"
    "\<not> active_in (sessions srv ! i) (cluster (sessions srv ! tv_slot tv))"
  shows "sessions srv' ! i = sessions srv ! i"
  using assms by (auto simp: decision_def apply_decision_def decide_session_def)

lemma decision_nacks:
  assumes "decision srv tv srv'" "length (sessions srv) = MAX_CLIENTS" "c = cluster (sessions srv ! tv_slot tv)"
    and "cl_state (clusters srv' ! nat c) = SENDING_NACKS"
  shows "\<exists>i<MAX_CLIENTS. in_walk srv c tv i \<and> ff_state (sessions srv' ! i) = SENDING_NACK"
proof -
  from assms obtain winner where w: "srv' = apply_decision srv tv c (clusters srv ! nat c) winner"
    and "losers srv tv c winner \<noteq> []"
    by (auto simp: decision_def cluster_at_eq_Some_iff apply_decision_def split: if_splits)
  then obtain i where "i < MAX_CLIENTS" "in_walk srv c tv i" "loses winner (sessions srv ! i)"
    by (auto simp: losers_def filter_empty_conv)
  with assms(2) show ?thesis
    by (auto simp: w apply_decision_def decide_session_def voted_def in_walk_def intro!: exI [of _ i])
qed

lemma decision_acks:
  assumes "decision srv tv srv'" "length (sessions srv) = MAX_CLIENTS" "c = cluster (sessions srv ! tv_slot tv)"
    and "cl_state (clusters srv' ! nat c) = SENDING_ACKS"
  shows "\<forall>i<MAX_CLIENTS. active_in (sessions srv ! i) c \<longrightarrow> ff_state (sessions srv' ! i) \<noteq> SENDING_NACK"
    "\<exists>i<MAX_CLIENTS. in_walk srv c tv i \<and> ff_state (sessions srv' ! i) = SENDING_ACK"
proof -
  from assms obtain winner where w: "srv' = apply_decision srv tv c (clusters srv ! nat c) winner"
    and none: "losers srv tv c winner = []" and "winners srv tv c winner \<noteq> []"
    by (auto simp: decision_def cluster_at_eq_Some_iff apply_decision_def split: if_splits)
  then obtain i where "i < MAX_CLIENTS" "in_walk srv c tv i" "\<not> loses winner (sessions srv ! i)"
    by (auto simp: winners_def filter_empty_conv)
  with assms(2) none show "\<exists>i<MAX_CLIENTS. in_walk srv c tv i \<and> ff_state (sessions srv' ! i) = SENDING_ACK"
    by (auto simp: w apply_decision_def decide_session_def voted_def in_walk_def intro!: exI [of _ i])
  have "\<not> loses winner (sessions srv ! i)" if "i < MAX_CLIENTS" "in_walk srv c tv i" for i
    using none that by (auto simp: losers_def filter_empty_conv)
  with assms(2) none show "\<forall>i<MAX_CLIENTS. active_in (sessions srv ! i) c \<longrightarrow> ff_state (sessions srv' ! i) \<noteq> SENDING_NACK"
    by (auto simp: w apply_decision_def decide_session_def voted_def in_walk_def)
qed


lemma member_states_cong:
  assumes len: "length (sessions srv') = length (sessions srv)"
    and eq: "\<And>i. i < length (sessions srv) \<Longrightarrow> active_in (sessions srv' ! i) c = active_in (sessions srv ! i) c \<and>
      (active_in (sessions srv ! i) c \<longrightarrow> ff_state (sessions srv' ! i) = ff_state (sessions srv ! i))"
  shows "member_states srv' c = member_states srv c"
proof -
  have "map ff_state (filter (\<lambda>s. active_in s c) xs) = map ff_state (filter (\<lambda>s. active_in s c) ys)"
    if "list_all2 (\<lambda>s t. active_in s c = active_in t c \<and> (active_in t c \<longrightarrow> ff_state s = ff_state t)) xs ys" for xs ys
    using that by (induction rule: list_all2_induct) auto
  then show ?thesis unfolding member_states_def using len eq by (simp add: list_all2_conv_all_nth)
qed

lemma active_in_length_core:
  assumes "same_core srv srv'"
  shows "length (member_states srv' c) = length (member_states srv c)"
proof -
  have "map core (filter (\<lambda>s. active_in s c) (sessions srv')) = map core (filter (\<lambda>s. active_in s c) (sessions srv))"
    using assms unfolding same_core_def by (rule filter_map_cong) (rule active_in_core)
  from arg_cong [OF this, of length] show ?thesis by (simp add: length_member_states)
qed

lemma cluster_of_active:
  assumes "server_ok srv" "i < MAX_CLIENTS" "phase (sessions srv ! i) = ACTIVE" "c = cluster (sessions srv ! i)"
  shows "0 \<le> c" "nat c < MAX_CLUSTERS" "cluster_at srv c = Some (clusters srv ! nat c)"
    "cluster_ok (clusters srv ! nat c) (member_states srv c)" "cluster_name (sessions srv ! i) = cl_name (clusters srv ! nat c)"
proof -
  show c: "0 \<le> c" "nat c < MAX_CLUSTERS" "cluster_name (sessions srv ! i) = cl_name (clusters srv ! nat c)"
    using server_ok_placed [OF assms(1,2)] assms(3,4) by (auto simp: placed_def)
  then show "cluster_at srv c = Some (clusters srv ! nat c)" using assms(1) by simp
  show "cluster_ok (clusters srv ! nat c) (member_states srv c)"
    using assms(1) c by (force simp: server_ok_def clusters_ok_def simp del: server_ok_length)
qed

lemma server_ok_clusters:
  "server_ok srv \<Longrightarrow> d < MAX_CLUSTERS \<Longrightarrow> cluster_ok (clusters srv ! d) (member_states srv (int d))"
  "server_ok srv \<Longrightarrow> d < MAX_CLUSTERS \<Longrightarrow> e < MAX_CLUSTERS \<Longrightarrow> cl_used (clusters srv ! d) \<Longrightarrow>
    cl_used (clusters srv ! e) \<Longrightarrow> cl_name (clusters srv ! d) = cl_name (clusters srv ! e) \<Longrightarrow> d = e"
  by (simp_all add: server_ok_def clusters_ok_def del: server_ok_length)

lemma decision_member_states:
  assumes "decision srv tv srv'" "d \<noteq> cluster (sessions srv ! tv_slot tv)"
  shows "member_states srv' d = member_states srv d"
proof (rule member_states_cong)
  show "length (sessions srv') = length (sessions srv)" using assms(1) by (rule decision_frame)
  fix i assume i: "i < length (sessions srv)"
  have "core (sessions srv' ! i) = core (sessions srv ! i)"
    using decision_frame(1) [OF assms(1)] i by (rule same_core_nth)
  then show "active_in (sessions srv' ! i) d = active_in (sessions srv ! i) d \<and>
      (active_in (sessions srv ! i) d \<longrightarrow> ff_state (sessions srv' ! i) = ff_state (sessions srv ! i))"
    using decision_other [OF assms(1) i] assms(2) active_in_core [of "sessions srv' ! i" "sessions srv ! i" d]
    by (auto simp: active_in_def [of "sessions srv ! i"])
qed

lemma decision_server_ok:
  assumes ok: "server_ok srv" and dec: "decision srv tv srv'"
    and act: "tv_slot tv < MAX_CLIENTS" "phase (sessions srv ! tv_slot tv) = ACTIVE"
  shows "server_ok srv'"
proof -
  define c where c: "c = cluster (sessions srv ! tv_slot tv)"
  note cl = cluster_of_active [OF ok act c]
  have len: "length (sessions srv) = MAX_CLIENTS" "length (clusters srv) = MAX_CLUSTERS" using ok by simp_all
  note fr = decision_frame [OF dec, unfolded len]
  note same = decision_clusters [OF dec cl(1) cl(2) [folded len(2)] c]
  have core: "core (sessions srv' ! i) = core (sessions srv ! i)" if "i < MAX_CLIENTS" for i
    using same_core_nth [OF fr(1)] that len by simp
  have idx: "\<exists>i<MAX_CLIENTS. active_in (sessions srv' ! i) c \<and> ff_state (sessions srv' ! i) = x"
    if "\<exists>i<MAX_CLIENTS. in_walk srv c tv i \<and> ff_state (sessions srv' ! i) = x" for x
    using that active_in_core [OF core] by (auto simp: in_walk_def)
  have cnt: "length (member_states srv' c) = length (member_states srv c)" by (rule active_in_length_core [OF fr(1)])
  then have nil: "member_states srv' c = [] \<longleftrightarrow> member_states srv c = []" by (metis length_0_conv)
  have used: "member_states srv c \<noteq> []"
    using act set_member_states [of "ff_state (sessions srv ! tv_slot tv)" srv c] len(1)
    by (auto simp: active_in_def c)
  have "cluster_ok (clusters srv' ! nat c) (member_states srv' c)"
    unfolding cluster_ok_def set_member_states fr(2)
    using cl(4) same(2-4) cnt nil used
      idx [OF decision_nacks [OF dec len(1) c]] idx [OF decision_acks(2) [OF dec len(1) c]]
      decision_acks(1) [OF dec len(1) c] active_in_core [OF core]
    by (auto simp: cluster_ok_def)
  then have "cluster_ok (clusters srv' ! d) (member_states srv' (int d))" if "d < MAX_CLUSTERS" for d
    using server_ok_clusters(1) [OF ok that] same(1) [of d] decision_member_states [OF dec, of "int d"] cl(1) c
    by (cases "d = nat c") auto
  then have "clusters_ok srv'"
    unfolding clusters_ok_def using server_ok_clusters(2) [OF ok] same by (metis)
  moreover have "placed srv' s" if "s \<in> set (sessions srv')" for s
  proof -
    obtain i where i: "i < MAX_CLIENTS" "s = sessions srv' ! i" using \<open>s \<in> _\<close> fr(2) by (auto simp: in_set_conv_nth)
    have "cl_name (clusters srv' ! d) = cl_name (clusters srv ! d)" for d using same(1,3) by (cases "d = nat c") auto
    with server_ok_placed [OF ok i(1)] core_eq_fields [OF core [OF i(1)]] show ?thesis
      unfolding i(2) placed_def by simp
  qed
  ultimately show ?thesis
    using fr decision_session_ok [OF dec server_ok_sessions [OF ok]] by (simp add: server_ok_def del: server_ok_length)
qed

subsection \<open>Leaving a cluster keeps the invariant\<close>

lemma session_ok_Session [simp]: "session_ok Session"
  by (simp add: session_ok_def Session_def)

lemma placed_inactive [simp]: "phase s \<noteq> ACTIVE \<Longrightarrow> placed srv s"
  by (simp add: placed_def)

lemma Session_phase [simp]: "phase Session = FREE" "\<not> active_in Session c" "schedule_disconnect Session = False"
  by (simp_all add: Session_def active_in_def)

lemma cluster_ok_Cluster [simp]: "cluster_ok Cluster []"
  by (simp add: cluster_ok_def Cluster_def)

lemma member_states_reset_other:
  assumes "\<not> active_in (sessions srv ! slot) d"
  shows "member_states (set_session srv slot Session) d = member_states srv d"
  using assms by (intro member_states_cong) (auto simp: nth_update)

lemma length_member_states_reset:
  assumes "active_in (sessions srv ! slot) d" "slot < length (sessions srv)"
  shows "Suc (length (member_states (set_session srv slot Session) d)) = length (member_states srv d)"
  using length_filter_update [OF assms(2), of "\<lambda>s. active_in s d" Session] assms(1)
  by (simp add: length_member_states)

lemma server_okI:
  assumes "length (sessions srv) = MAX_CLIENTS" "length (clusters srv) = MAX_CLUSTERS"
    "\<And>i. i < MAX_CLIENTS \<Longrightarrow> session_ok (sessions srv ! i) \<and> placed srv (sessions srv ! i)"
    "\<And>d. d < MAX_CLUSTERS \<Longrightarrow> cluster_ok (clusters srv ! d) (member_states srv (int d))"
    "\<And>d e. d < MAX_CLUSTERS \<Longrightarrow> e < MAX_CLUSTERS \<Longrightarrow> cl_used (clusters srv ! d) \<Longrightarrow> cl_used (clusters srv ! e) \<Longrightarrow>
       cl_name (clusters srv ! d) = cl_name (clusters srv ! e) \<Longrightarrow> d = e"
  shows "server_ok srv"
  using assms by (auto simp: server_ok_def clusters_ok_def all_set_conv_all_nth simp del: server_ok_length)

lemma server_ok_reset_inactive:
  assumes ok: "server_ok srv" and "slot < MAX_CLIENTS" "phase (sessions srv ! slot) \<noteq> ACTIVE"
  shows "server_ok (set_session srv slot Session)"
proof (rule server_okI)
  fix i assume i: "i < MAX_CLIENTS"
  show "session_ok (sessions (set_session srv slot Session) ! i) \<and>
      placed (set_session srv slot Session) (sessions (set_session srv slot Session) ! i)"
    using server_ok_session [OF ok i] server_ok_placed [OF ok i] i ok
    by (cases "i = slot") (simp_all add: placed_def)
next
  fix d assume "d < MAX_CLUSTERS"
  with server_ok_clusters(1) [OF ok this] show "cluster_ok (clusters (set_session srv slot Session) ! d)
      (member_states (set_session srv slot Session) (int d))"
    using assms(3) by (simp add: member_states_reset_other active_in_def)
qed (use ok server_ok_clusters(2) [OF ok] in auto)

lemma server_ok_leave:
  assumes ok: "server_ok srv" and dec: "decision srv tv srv1"
    and act: "slot < MAX_CLIENTS" "phase (sessions srv ! slot) = ACTIVE" and tv: "tv_slot tv = slot" "tv_leaving tv"
    and c: "c = cluster (sessions srv ! slot)"
    and cl: "cl = (clusters srv1 ! nat c)\<lparr>cl_members := cl_members (clusters srv1 ! nat c) - 1\<rparr>"
  shows "server_ok (set_session (set_cluster srv1 c (if cl_members cl \<le> 0 then Cluster else cl)) slot Session)"
    (is "server_ok ?srv")
proof -
  have ok1: "server_ok srv1" using decision_server_ok [OF ok dec] act tv by simp
  have len: "length (sessions srv) = MAX_CLIENTS" "length (clusters srv) = MAX_CLUSTERS"
    "length (sessions srv1) = MAX_CLIENTS" "length (clusters srv1) = MAX_CLUSTERS" using ok ok1 by simp_all
  have core: "core (sessions srv1 ! i) = core (sessions srv ! i)" if "i < MAX_CLIENTS" for i
    using same_core_nth [OF decision_frame(1) [OF dec]] that len by simp
  note slot1 = core_eq_fields [OF core [OF act(1)]]
  have act1: "phase (sessions srv1 ! slot) = ACTIVE" "c = cluster (sessions srv1 ! slot)"
    using act(2) c by (simp_all add: slot1(1,4))
  note cls = cluster_of_active [OF ok1 act(1) act1]
  have inc: "active_in (sessions srv1 ! slot) c" using act1 by (simp add: active_in_def)
  let ?srv2 = "set_session srv1 slot Session"
  have ms: "member_states ?srv d = member_states ?srv2 d" for d
    by (simp add: member_states_def)
  have cnt: "Suc (length (member_states ?srv2 c)) = length (member_states srv1 c)"
    using length_member_states_reset [OF inc] act(1) len by simp
  have other: "\<exists>i<MAX_CLIENTS. i \<noteq> slot \<and> active_in (sessions srv1 ! i) c \<and> ff_state (sessions srv1 ! i) = x"
    if "\<exists>i<MAX_CLIENTS. in_walk srv c tv i \<and> ff_state (sessions srv1 ! i) = x" for x
    using that active_in_core [OF core] tv by (auto simp: in_walk_def skip_in_cluster_walk_def)
  have c': "c = cluster (sessions srv ! tv_slot tv)" using c tv by simp
  have left: "x \<in> set (member_states ?srv2 c) \<longleftrightarrow>
      (\<exists>i<MAX_CLIENTS. i \<noteq> slot \<and> active_in (sessions srv1 ! i) c \<and> ff_state (sessions srv1 ! i) = x)" for x
  proof -
    have "active_in ((sessions srv1)[slot := Session] ! i) c \<and> ff_state ((sessions srv1)[slot := Session] ! i) = x \<longleftrightarrow>
        i \<noteq> slot \<and> active_in (sessions srv1 ! i) c \<and> ff_state (sessions srv1 ! i) = x" if "i < MAX_CLIENTS" for i
      using that len by (cases "i = slot") simp_all
    then show ?thesis unfolding set_member_states using len by (simp cong: conj_cong)
  qed
  have cok: "cluster_ok (if cl_members cl \<le> 0 then Cluster else cl) (member_states ?srv2 c)"
  proof (cases "cl_members cl \<le> 0")
    case True
    moreover have "cl_members (clusters srv1 ! nat c) = int (length (member_states srv1 c))"
      using cls(4) by (simp add: cluster_ok_def)
    ultimately have "length (member_states ?srv2 c) = 0" using cnt cl by (simp del: length_0_conv)
    with True show ?thesis by simp
  next
    case False
    then show ?thesis
      using cls(4) cnt other [OF decision_nacks [OF dec len(1) c']] other [OF decision_acks(2) [OF dec len(1) c']]
        decision_acks(1) [OF dec len(1) c'] active_in_core [OF core]
      unfolding cluster_ok_def left by (auto simp: cl)
  qed
  let ?cl = "if cl_members cl \<le> 0 then Cluster else cl"
  have names: "cl_used ?cl \<Longrightarrow> cl_name ?cl = cl_name (clusters srv1 ! nat c) \<and> cl_used (clusters srv1 ! nat c)"
    by (simp add: cl Cluster_def split: if_splits)
  have at: "clusters ?srv ! d = (if d = nat c then ?cl else clusters srv1 ! d)" if "d < MAX_CLUSTERS" for d
    using that len by (simp add: nth_update)
  show ?thesis
  proof (rule server_okI)
    fix i assume i: "i < MAX_CLIENTS"
    show "session_ok (sessions ?srv ! i) \<and> placed ?srv (sessions ?srv ! i)"
    proof (cases "i = slot")
      case False
      have "cl_name ?cl = cl_name (clusters srv1 ! nat c)" if "active_in (sessions srv1 ! i) c"
      proof -
        have "ff_state (sessions srv1 ! i) \<in> set (member_states ?srv2 c)" unfolding left using False i that by blast
        then have "cl_used ?cl" using cok by (auto simp: cluster_ok_def)
        with names show ?thesis by blast
      qed
      with False server_ok_session [OF ok1 i] server_ok_placed [OF ok1 i] at [of "nat (cluster (sessions srv1 ! i))"] cls(1)
      show ?thesis by (auto simp: placed_def active_in_def)
    qed (use act(1) len in simp)
  next
    fix d assume d: "d < MAX_CLUSTERS"
    show "cluster_ok (clusters ?srv ! d) (member_states ?srv (int d))"
      using cok cls(1) server_ok_clusters(1) [OF ok1 d] member_states_reset_other [of srv1 slot "int d"] act1
      unfolding ms at [OF d] by (auto simp: active_in_def)
  next
    fix d e assume de: "d < MAX_CLUSTERS" "e < MAX_CLUSTERS" and "cl_used (clusters ?srv ! d)" "cl_used (clusters ?srv ! e)"
      "cl_name (clusters ?srv ! d) = cl_name (clusters ?srv ! e)"
    with names server_ok_clusters(2) [OF ok1 de] show "d = e"
      unfolding at [OF de(1)] at [OF de(2)] by (auto split: if_splits)
  qed (use len in simp_all)
qed

end
