(* ===== verification/Protocol.thy ===== *)
theory Protocol
  imports Invariant
begin

text \<open>
  The protocol as a relation. \<open>frame_step\<close> lists the ways in which one frame changes the
  server, up to the frames it sends: a reply only, a handshake step, a rejected or an
  accepted INIT, a stored option or node list, a decision, a confirmed vote, a scheduled
  disconnect. \<open>handle_frame_step\<close> shows that the handlers refine this relation and never
  reach undefined behaviour; the invariant is then a matter of the relation alone.
\<close>

subsection \<open>Steps of the protocol\<close>

definition similar :: "server \<Rightarrow> server \<Rightarrow> bool" where
  "similar srv srv' \<longleftrightarrow> sessions srv' = sessions srv \<and> clusters srv' = clusters srv \<and>
     pending_close srv' = pending_close srv \<and> processing srv' = processing srv \<and>
     max_rx_frame srv' = max_rx_frame srv \<and> on_state_change srv' = on_state_change srv"

lemma similar_refl [simp]: "similar srv srv"
  by (simp add: similar_def)

lemma similar_plumbing [simp]:
  "similar srv (send_frame srv' i f) = similar srv srv'" "similar srv (notify srv') = similar srv srv'"
  "similar srv (send_err srv' i m e) = similar srv srv'"
  by (simp_all add: similar_def send_err_def)

definition list_kept :: "node_list \<Rightarrow> u32 \<Rightarrow> node_list \<Rightarrow> bool" where
  "list_kept old nid new \<longleftrightarrow> new = old \<or> length new \<le> MAX_NODES_PER_LIST \<and> nid \<in> node_ids new"

definition keeps :: "session \<Rightarrow> session \<Rightarrow> bool" where
  "keeps s s' \<longleftrightarrow> role s' = role s \<and> node_id s' = node_id s \<and> tie_breaker s' = tie_breaker s \<and>
     last_ack_nack s' = last_ack_nack s \<and> vote_info_seq s' = vote_info_seq s \<and> algorithm s' = algorithm s \<and>
     rx s' = rx s \<and> peer s' = peer s \<and> schedule_disconnect s' = schedule_disconnect s \<and>
     HEARTBEAT_MIN_MS \<le> heartbeat_ms s' \<and> heartbeat_ms s' \<le> HEARTBEAT_MAX_MS \<and>
     list_kept (config_list s) (node_id s) (config_list s') \<and>
     list_kept (membership_list s) (node_id s) (membership_list s') \<and>
     length (quorum_list s') \<le> MAX_NODES_PER_LIST"

definition refused :: "session \<Rightarrow> session \<Rightarrow> bool" where
  "refused s s' \<longleftrightarrow> (\<exists>nid ring hb tb alg. s' = s\<lparr>node_id := nid, last_ring_id := ring, heartbeat_ms := hb,
     tie_breaker := tb, algorithm := alg\<rparr> \<and>
     (phase s = ACTIVE \<longrightarrow> hb = heartbeat_ms s \<and> tb = tie_breaker s \<and> alg = algorithm s))"

definition joins :: "server \<Rightarrow> nat \<Rightarrow> session \<Rightarrow> bool" where
  "joins srv slot s' \<longleftrightarrow> algorithm s' = Algorithm_FFSPLIT \<and>
     HEARTBEAT_MIN_MS \<le> heartbeat_ms s' \<and> heartbeat_ms s' \<le> HEARTBEAT_MAX_MS \<and>
     (\<forall>i<MAX_CLIENTS. i \<noteq> slot \<longrightarrow> phase (sessions srv ! i) = ACTIVE \<longrightarrow>
        cluster_name (sessions srv ! i) = cluster_name s' \<longrightarrow>
        node_id (sessions srv ! i) \<noteq> node_id s' \<and> tie_breaker_eq (tie_breaker s') (tie_breaker (sessions srv ! i)))"

definition acknowledged :: "session \<Rightarrow> session" where
  "acknowledged s = s\<lparr>ff_state := Client_WAITING_FOR_CHANGE\<rparr>"

definition ack_waiting :: "int \<Rightarrow> session \<Rightarrow> session" where
  "ack_waiting c s = (if active_in s c \<and> ff_state s = SENDING_ACK then voted True s else s)"

inductive frame_step :: "bool \<Rightarrow> server \<Rightarrow> nat \<Rightarrow> server \<Rightarrow> bool" where
  stay: "similar srv srv' \<Longrightarrow> frame_step ini srv slot srv'"
| preinit: "s = sessions srv ! slot \<Longrightarrow> phase s = WAIT_PREINIT \<Longrightarrow>
    similar (set_session srv slot (s\<lparr>cluster_name := name, phase := WAIT_INIT\<rparr>)) srv' \<Longrightarrow>
    frame_step ini srv slot srv'"
| refuse: "refused (sessions srv ! slot) s' \<Longrightarrow> phase s' \<noteq> FREE \<Longrightarrow> ini \<Longrightarrow> similar (set_session srv slot s') srv' \<Longrightarrow>
    frame_step ini srv slot srv'"
| join: "ini \<Longrightarrow> phase (sessions srv ! slot) = WAIT_INIT \<Longrightarrow> refused (sessions srv ! slot) s \<Longrightarrow> joins srv slot s \<Longrightarrow>
    find_or_create_cluster srv (cluster_name s) = (srv1, c) \<Longrightarrow> 0 \<le> c \<Longrightarrow>
    cl = clusters srv1 ! nat c \<Longrightarrow>
    s' = reschedule_dpd (s\<lparr>cluster := c, phase := ACTIVE\<rparr>) now \<Longrightarrow>
    similar (set_session (set_cluster srv1 c (cl\<lparr>cl_members := cl_members cl + 1\<rparr>)) slot s') srv' \<Longrightarrow>
    frame_step ini srv slot srv'"
| keep: "phase (sessions srv ! slot) = ACTIVE \<Longrightarrow> keeps (sessions srv ! slot) s' \<Longrightarrow>
    similar (set_session srv slot s') srv' \<Longrightarrow> frame_step ini srv slot srv'"
| decide: "phase (sessions srv ! slot) = ACTIVE \<Longrightarrow> tv_slot tv = slot \<Longrightarrow> \<not> tv_leaving tv \<Longrightarrow>
    decision srv tv srv1 \<Longrightarrow> keeps (sessions srv1 ! slot) s' \<Longrightarrow>
    similar (set_session srv1 slot s') srv' \<Longrightarrow> frame_step ini srv slot srv'"
| acknowledge: "phase (sessions srv ! slot) = ACTIVE \<Longrightarrow>
    srv1 = set_session srv slot (acknowledged (sessions srv ! slot)) \<Longrightarrow>
    (cl_state (clusters srv ! nat (cluster (sessions srv ! slot))) = SENDING_NACKS \<Longrightarrow>
       SENDING_NACK \<in> set (member_states srv1 (cluster (sessions srv ! slot)))) \<Longrightarrow>
    (cl_state (clusters srv ! nat (cluster (sessions srv ! slot))) = SENDING_ACKS \<Longrightarrow>
       SENDING_ACK \<in> set (member_states srv1 (cluster (sessions srv ! slot)))) \<Longrightarrow>
    similar srv1 srv' \<Longrightarrow> frame_step ini srv slot srv'"
| acknowledge_last: "phase (sessions srv ! slot) = ACTIVE \<Longrightarrow>
    srv1 = set_session srv slot (acknowledged (sessions srv ! slot)) \<Longrightarrow>
    c = cluster (sessions srv ! slot) \<Longrightarrow> cl = clusters srv ! nat c \<Longrightarrow>
    cl_state cl = SENDING_ACKS \<Longrightarrow> SENDING_ACK \<notin> set (member_states srv1 c) \<Longrightarrow>
    similar (set_cluster srv1 c (cl\<lparr>cl_state := Cluster_WAITING_FOR_CHANGE\<rparr>)) srv' \<Longrightarrow> frame_step ini srv slot srv'"
| promote: "phase (sessions srv ! slot) = ACTIVE \<Longrightarrow>
    srv1 = set_session srv slot (acknowledged (sessions srv ! slot)) \<Longrightarrow>
    c = cluster (sessions srv ! slot) \<Longrightarrow> cl = clusters srv ! nat c \<Longrightarrow>
    cl_state cl = SENDING_NACKS \<Longrightarrow> SENDING_NACK \<notin> set (member_states srv1 c) \<Longrightarrow>
    similar (set_cluster (srv1\<lparr>sessions := map (ack_waiting c) (sessions srv1)\<rparr>) c
      (cl\<lparr>cl_state := if SENDING_ACK \<in> set (member_states srv1 c) then SENDING_ACKS
                      else Cluster_WAITING_FOR_CHANGE\<rparr>)) srv' \<Longrightarrow> frame_step ini srv slot srv'"
| schedule: "phase (sessions srv ! slot) \<noteq> FREE \<Longrightarrow> \<not> schedule_disconnect (sessions srv ! slot) \<Longrightarrow>
    similar ((set_session srv slot ((sessions srv ! slot)\<lparr>schedule_disconnect := True\<rparr>))
       \<lparr>pending_close := pending_close srv @ [slot]\<rparr>) srv' \<Longrightarrow> frame_step ini srv slot srv'"

subsection \<open>Handshake and options\<close>

lemma handle_preinit_step:
  assumes "server_ok srv" "slot < MAX_CLIENTS"
  shows "\<exists>srv'. handle_preinit srv slot m = Some srv' \<and> frame_step ini srv slot srv'"
proof (cases "m_cluster_name m = [] \<or> phase (sessions srv ! slot) \<noteq> WAIT_PREINIT")
  case True
  with assms show ?thesis by (auto simp: handle_preinit_def intro: frame_step.stay)
next
  case False
  with assms show ?thesis
    by (auto simp: handle_preinit_def intro!: frame_step.preinit [OF refl, where name = "m_cluster_name m"])
qed

lemma init_checks_refused:
  assumes "init_checks srv slot m s = (code, s')"
  shows "refused s s'" "code = NO_ERROR \<Longrightarrow> phase s \<noteq> ACTIVE \<and> joins srv slot s'" "phase s' = phase s" "cluster_name s' = cluster_name s"
proof -
  define code0 where "code0 = (if phase s = ACTIVE then UNEXPECTED_MESSAGE else NO_ERROR)"
  obtain c1 s1 where 1: "init_node_id m (code0, s) = (c1, s1)" by fastforce
  obtain c2 s2 where 2: "init_ring_id m (c1, s1) = (c2, s2)" by fastforce
  obtain c3 s3 where 3: "init_heartbeat m (c2, s2) = (c3, s3)" by fastforce
  obtain c4 s4 where 4: "init_tie_breaker m (c3, s3) = (c4, s4)" by fastforce
  obtain c5 s5 where 5: "init_algorithm m (c4, s4) = (c5, s5)" by fastforce
  have 6: "init_check_new_client srv slot (c5, s5) = (code, s')"
    using assms by (simp add: init_checks_def 1 2 3 4 5 flip: code0_def)
  have s': "s' = s5" using 6 by (auto simp: init_check_new_client_def split: if_splits option.splits)
  have ph: "phase s5 = phase s \<and> cluster_name s5 = cluster_name s"
    using 1 2 3 4 5 by (auto simp: init_node_id_def init_ring_id_def init_heartbeat_def init_tie_breaker_def
        init_algorithm_def split: if_splits)
  show "phase s' = phase s" "cluster_name s' = cluster_name s" using ph s' by simp_all
  have "\<exists>nid. s1 = s\<lparr>node_id := nid\<rparr>" using 1 by (auto simp: init_node_id_def split: if_splits intro: exI [of _ "node_id s"])
  moreover have "\<exists>r. s2 = s1\<lparr>last_ring_id := r\<rparr>" using 2 by (auto simp: init_ring_id_def split: if_splits intro: exI [of _ "last_ring_id s1"])
  moreover have "\<exists>hb. s3 = s2\<lparr>heartbeat_ms := hb\<rparr> \<and> (c2 \<noteq> NO_ERROR \<longrightarrow> hb = heartbeat_ms s2)"
    using 3 by (auto simp: init_heartbeat_def split: if_splits intro: exI [of _ "heartbeat_ms s2"])
  moreover have "\<exists>tb. s4 = s3\<lparr>tie_breaker := tb\<rparr> \<and> (c3 \<noteq> NO_ERROR \<longrightarrow> tb = tie_breaker s3)"
    using 4 by (auto simp: init_tie_breaker_def split: if_splits intro: exI [of _ "tie_breaker s3"])
  moreover have "\<exists>alg. s5 = s4\<lparr>algorithm := alg\<rparr> \<and> (c4 \<noteq> NO_ERROR \<longrightarrow> alg = algorithm s4)"
    using 5 by (auto simp: init_algorithm_def split: if_splits intro: exI [of _ "algorithm s4"])
  moreover have err: "phase s = ACTIVE \<Longrightarrow> c1 \<noteq> NO_ERROR" "c1 \<noteq> NO_ERROR \<Longrightarrow> c2 \<noteq> NO_ERROR" "c2 \<noteq> NO_ERROR \<Longrightarrow> c3 \<noteq> NO_ERROR"
    "c3 \<noteq> NO_ERROR \<Longrightarrow> c4 \<noteq> NO_ERROR" "c4 \<noteq> NO_ERROR \<Longrightarrow> c5 \<noteq> NO_ERROR" "c5 \<noteq> NO_ERROR \<Longrightarrow> code \<noteq> NO_ERROR"
    using 1 2 3 4 5 6 by (auto simp: code0_def init_node_id_def init_ring_id_def init_heartbeat_def init_tie_breaker_def
        init_algorithm_def init_check_new_client_def split: if_splits)
  ultimately show "refused s s'" unfolding s' refused_def
    by (elim exE conjE) (rule exI, rule exI, rule exI, rule exI, rule exI, rule conjI, simp, simp)
  assume code: "code = NO_ERROR"
  have "phase s \<noteq> ACTIVE" using code err by blast
  moreover have c: "c2 = NO_ERROR" "c3 = NO_ERROR" "c4 = NO_ERROR" "c5 = NO_ERROR" using code err by blast+
  have "algorithm s5 = Algorithm_FFSPLIT" using 5 c by (auto simp: init_algorithm_def split: if_splits)
  moreover have "HEARTBEAT_MIN_MS \<le> heartbeat_ms s3 \<and> heartbeat_ms s3 \<le> HEARTBEAT_MAX_MS"
    using 3 c by (auto simp: init_heartbeat_def split: if_splits)
  moreover have "heartbeat_ms s5 = heartbeat_ms s3"
    using 4 5 by (auto simp: init_tie_breaker_def init_algorithm_def split: if_splits)
  moreover have "tie_breaker_eq (tie_breaker s5) (tie_breaker (sessions srv ! i)) \<and> node_id (sessions srv ! i) \<noteq> node_id s5"
    if "i < MAX_CLIENTS" "i \<noteq> slot" "phase (sessions srv ! i) = ACTIVE" "cluster_name (sessions srv ! i) = cluster_name s5" for i
  proof -
    have "init_check_peer s5 (sessions srv ! i) = NO_ERROR"
      using 6 that c code
      by (auto simp: init_check_new_client_def find_eq_None_iff find_Some_iff split: option.splits)
    then show ?thesis by (auto simp: init_check_peer_def split: if_splits)
  qed
  ultimately show "phase s \<noteq> ACTIVE \<and> joins srv slot s'" unfolding s' joins_def by metis
qed


lemma find_or_create_cases:
  assumes "find_or_create_cluster srv name = (srv1, c)"
  obtains (full) "c = -1" "srv1 = srv"
  | (found) d where "d < MAX_CLUSTERS" "c = int d" "srv1 = srv" "cl_used (clusters srv ! d)" "cl_name (clusters srv ! d) = name"
  | (created) d where "d < MAX_CLUSTERS" "c = int d" "\<not> cl_used (clusters srv ! d)"
      "\<And>e. e < MAX_CLUSTERS \<Longrightarrow> cl_used (clusters srv ! e) \<Longrightarrow> cl_name (clusters srv ! e) \<noteq> name"
      "srv1 = set_cluster srv c (Cluster\<lparr>cl_used := True, cl_name := name\<rparr>)"
proof (cases "List.find (\<lambda>i. cl_used (clusters srv ! i) \<and> cl_name (clusters srv ! i) = name) [0..<MAX_CLUSTERS]")
  case (Some d)
  then have "d < MAX_CLUSTERS" "cl_used (clusters srv ! d)" "cl_name (clusters srv ! d) = name"
    by (auto simp: find_Some_iff)
  with Some assms found [of d] show thesis by (simp add: find_or_create_cluster_def)
next
  case None
  then have none: "cl_name (clusters srv ! e) \<noteq> name" if "e < MAX_CLUSTERS" "cl_used (clusters srv ! e)" for e
    using that by (auto simp: find_eq_None_iff)
  show thesis
  proof (cases "List.find (\<lambda>i. \<not> cl_used (clusters srv ! i)) [0..<MAX_CLUSTERS]")
    case (Some d)
    then have "d < MAX_CLUSTERS" "\<not> cl_used (clusters srv ! d)" by (auto simp: find_Some_iff)
    with Some None assms none created [of d] show thesis by (auto simp: find_or_create_cluster_def)
  qed (use None assms full in \<open>simp add: find_or_create_cluster_def\<close>)
qed

lemma find_or_create_fresh:
  assumes ok: "server_ok srv" and f: "find_or_create_cluster srv name = (srv1, c)" and "0 \<le> c"
  shows "cluster_at srv1 c = Some (clusters srv1 ! nat c) \<and> (cl_members (clusters srv1 ! nat c) = 0 \<longrightarrow>
      (clusters srv1 ! nat c)\<lparr>cl_state := Cluster_WAITING_FOR_CHANGE, quorate_partition := []\<rparr> = clusters srv1 ! nat c)"
  using f
proof (cases rule: find_or_create_cases)
  case (found d)
  then have "cl_members (clusters srv ! d) > 0"
    using server_ok_clusters(1) [OF ok found(1)] by (auto simp: cluster_ok_def)
  with found ok show ?thesis by simp
next
  case (created d)
  with ok show ?thesis by (simp add: Cluster_def)
qed (use assms(3) in auto)

lemma handle_init_step:
  assumes ok: "server_ok srv" and slot: "slot < MAX_CLIENTS"
    and ph: "phase (sessions srv ! slot) = WAIT_INIT \<or> phase (sessions srv ! slot) = ACTIVE" and ini: ini
  shows "\<exists>srv'. handle_init srv slot m now = Some srv' \<and> frame_step ini srv slot srv'"
proof -
  let ?s = "sessions srv ! slot"
  obtain code s where chk: "init_checks srv slot m ?s = (code, s)" by fastforce
  note r = init_checks_refused [OF chk]
  have refuse: "frame_step ini srv slot srv'" if "similar (set_session srv slot s) srv'" for srv'
    using r(1) _ ini that by (rule frame_step.refuse) (use r(3) ph in auto)
  show ?thesis
  proof (cases "code = NO_ERROR")
    case False
    then show ?thesis
      using ok slot by (auto simp: handle_init_def chk intro!: refuse)
  next
    case True
    then have j: "phase ?s = WAIT_INIT" "joins srv slot s" using r(2) ph by auto
    obtain srv1 c where f: "find_or_create_cluster srv (cluster_name s) = (srv1, c)" by fastforce
    show ?thesis
    proof (cases "c < 0")
      case neg: True
      have "srv1 = srv" using f neg by (cases rule: find_or_create_cases) auto
      then show ?thesis
        using ok slot True neg by (auto simp: handle_init_def chk init_join_def f intro!: refuse)
    next
      case False
      then have c: "0 \<le> c" by simp
      note fresh = find_or_create_fresh [OF ok f c]
      let ?cl = "clusters srv1 ! nat c" and ?s' = "reschedule_dpd (s\<lparr>cluster := c, phase := ACTIVE\<rparr>) now"
      have "(if cl_members ?cl = 0 then ?cl\<lparr>cl_state := Cluster_WAITING_FOR_CHANGE, quorate_partition := []\<rparr> else ?cl) = ?cl"
        using fresh by simp
      then have "init_join srv slot s now = Some (NO_ERROR,
          set_session (set_cluster srv1 c (?cl\<lparr>cl_members := cl_members ?cl + 1\<rparr>)) slot ?s')"
        using False fresh by (simp only: init_join_def f Let_def prod.case if_False bind.bind_lunit not_False_eq_True simp_thms)
      then show ?thesis
        using ok slot True by (auto simp: handle_init_def chk intro!: frame_step.join [OF ini j(1) r(1) j(2) f c refl refl, where now = now])
    qed
  qed
qed

lemma reschedule_keeps [simp]: "role (reschedule_dpd s now) = role s" "vote_info_seq (reschedule_dpd s now) = vote_info_seq s"
  by (simp_all add: role_def)

lemma keeps_list [simp]: "list_kept l nid l"
  by (simp add: list_kept_def)

lemma active_session_ok:
  assumes "server_ok srv" "slot < MAX_CLIENTS" "phase (sessions srv ! slot) = ACTIVE"
  shows "HEARTBEAT_MIN_MS \<le> heartbeat_ms (sessions srv ! slot)" "heartbeat_ms (sessions srv ! slot) \<le> HEARTBEAT_MAX_MS"
    "length (quorum_list (sessions srv ! slot)) \<le> MAX_NODES_PER_LIST"
  using server_ok_session [OF assms(1,2)] assms(3) by (simp_all add: session_ok_def)

lemma handle_set_option_step:
  assumes ok: "server_ok srv" and act: "slot < MAX_CLIENTS" "phase (sessions srv ! slot) = ACTIVE"
  shows "\<exists>srv'. handle_set_option srv slot m now = Some srv' \<and> frame_step ini srv slot srv'"
proof -
  note s = active_session_ok [OF ok act]
  show ?thesis
  proof (cases "m_heartbeat_interval_set m \<and> (m_heartbeat_interval m < HEARTBEAT_MIN_MS \<or> m_heartbeat_interval m > HEARTBEAT_MAX_MS)")
    case True
    with ok act show ?thesis by (auto simp: handle_set_option_def intro!: frame_step.stay)
  next
    case False
    define s' where "s' = (if m_heartbeat_interval_set m
        then reschedule_dpd ((sessions srv ! slot)\<lparr>heartbeat_ms := m_heartbeat_interval m\<rparr>) now else sessions srv ! slot)"
    define s'' where "s'' = (if m_keep_active_partition_tie_breaker_set m
        then s'\<lparr>keep_active_partition_tb := (m_keep_active_partition_tie_breaker m \<noteq> 0)\<rparr> else s')"
    have "keeps (sessions srv ! slot) s''"
      using False s by (auto simp: s''_def s'_def keeps_def role_def not_less)
    then show ?thesis
      using ok act False
      by (auto simp: handle_set_option_def Let_def simp flip: s'_def s''_def intro!: frame_step.keep [where s' = s''])
  qed
qed

subsection \<open>Node lists and heuristics\<close>

lemma record_vote_keeps:
  assumes "keeps s s'" "r \<noteq> Vote_ACK" "r \<noteq> Vote_NACK"
  shows "keeps s (record_vote r s')"
  using assms by (simp add: keeps_def record_vote_def role_def)

lemma node_list_store_keeps:
  assumes ok: "server_ok srv" and act: "slot < MAX_CLIENTS" "phase (sessions srv ! slot) = ACTIVE"
    and m: "length (m_nodes m) \<le> MAX_NODES_PER_LIST"
    and own: "m_node_list_type m = QUORUM \<or> node_id (sessions srv ! slot) \<in> node_ids (m_nodes m)"
  shows "keeps (sessions srv ! slot) (node_list_store m (sessions srv ! slot))"
  using active_session_ok [OF ok act] m own
  by (cases "m_node_list_type m") (auto simp: keeps_def node_list_store_def role_def list_kept_def)

lemma decision_slot:
  assumes ok: "server_ok srv" and act: "slot < MAX_CLIENTS" "phase (sessions srv ! slot) = ACTIVE"
    and dec: "decision srv tv srv1" "tv_slot tv = slot"
  shows "server_ok srv1" "phase (sessions srv1 ! slot) = ACTIVE" "node_id (sessions srv1 ! slot) = node_id (sessions srv ! slot)"
    "length (sessions srv1) = MAX_CLIENTS"
proof -
  show ok1: "server_ok srv1" using decision_server_ok [OF ok dec(1)] act dec(2) by simp
  have "core (sessions srv1 ! slot) = core (sessions srv ! slot)"
    using same_core_nth [OF decision_frame(1) [OF dec(1)]] act(1) ok by simp
  from core_eq_fields [OF this] show "phase (sessions srv1 ! slot) = ACTIVE" "node_id (sessions srv1 ! slot) = node_id (sessions srv ! slot)"
    using act(2) by simp_all
  show "length (sessions srv1) = MAX_CLIENTS" using ok1 by simp
qed

lemma ffsplit_do_active:
  assumes ok: "server_ok srv" and act: "slot < MAX_CLIENTS" "phase (sessions srv ! slot) = ACTIVE" and tv: "tv_slot tv = slot"
  obtains srv1 res where "ffsplit_do srv tv = Some (srv1, NO_ERROR, res)" "decision srv tv srv1"
    "res \<noteq> Vote_ACK" "res \<noteq> Vote_NACK"
proof -
  have "cluster_at srv (cluster (sessions srv ! tv_slot tv)) = Some (clusters srv ! nat (cluster (sessions srv ! slot)))"
    using cluster_of_active(3) [OF ok act refl] tv by simp
  from ffsplit_do_decision [OF server_ok_length(1) [OF ok] _ this] act(1) tv
  obtain srv1 res where "ffsplit_do srv tv = Some (srv1, NO_ERROR, res)" "decision srv tv srv1"
    "res = Vote_WAIT_FOR_REPLY \<or> res = Vote_NO_CHANGE" by metis
  then show thesis using that by auto
qed

lemma node_list_decide_cases:
  obtains (error) err where "node_list_decide srv slot m s = Some (Inl err)"
  | (later) res where "node_list_decide srv slot m s = Some (Inr (srv, NO_ERROR, res))" "res \<noteq> Vote_ACK" "res \<noteq> Vote_NACK"
      "m_node_list_type m = QUORUM \<or> node_id s \<in> node_ids (m_nodes m)"
  | (run) tv where "node_list_decide srv slot m s = map_option Inr (ffsplit_do srv tv)" "tv_slot tv = slot" "\<not> tv_leaving tv"
      "node_id s \<in> node_ids (m_nodes m)"
proof (cases "m_node_list_type m")
  case MEMBERSHIP
  then show thesis using error later run
    by (cases "m_ring_id_set m"; cases "m_nodes m = [] \<or> node_list_find (m_nodes m) (node_id s) = None"; cases "config_list s = []")
      (simp_all add: node_list_decide_def node_list_find_None_iff)
next
  case QUORUM
  then show thesis using error later by (cases "m_quorate_set m") (simp_all add: node_list_decide_def)
next
  case INITIAL_CONFIG
  then show thesis using error later
    by (cases "m_nodes m = [] \<or> node_list_find (m_nodes m) (node_id s) = None")
      (simp_all add: node_list_decide_def node_list_find_None_iff)
next
  case CHANGED_CONFIG
  then show thesis using error later run
    by (cases "m_nodes m = [] \<or> node_list_find (m_nodes m) (node_id s) = None"; cases "membership_list s = []")
      (simp_all add: node_list_decide_def node_list_find_None_iff)
qed

lemma handle_node_list_step:
  assumes ok: "server_ok srv" and act: "slot < MAX_CLIENTS" "phase (sessions srv ! slot) = ACTIVE"
    and m: "length (m_nodes m) \<le> MAX_NODES_PER_LIST"
  shows "\<exists>srv'. handle_node_list srv slot m = Some srv' \<and> frame_step ini srv slot srv'"
proof -
  let ?s = "sessions srv ! slot"
  show ?thesis
  proof (cases "\<not> m_node_list_type_set m \<or> \<not> m_seq_number_set m")
    case True
    with ok act show ?thesis by (auto simp: handle_node_list_def intro!: frame_step.stay)
  next
    case False
    show ?thesis
    proof (cases rule: node_list_decide_cases [of srv slot m ?s])
      case (error err)
      with False ok act show ?thesis by (auto simp: handle_node_list_def intro!: frame_step.stay)
    next
      case (later res)
      have "keeps ?s (record_vote res (node_list_store m ?s))"
        using later by (intro record_vote_keeps node_list_store_keeps [OF ok act m])
      from frame_step.keep [OF act(2) this] later False ok act(1) show ?thesis
        by (simp add: handle_node_list_def Let_def)
    next
      case (run tv)
      obtain srv1 res where do: "ffsplit_do srv tv = Some (srv1, NO_ERROR, res)" and dec: "decision srv tv srv1"
        and res: "res \<noteq> Vote_ACK" "res \<noteq> Vote_NACK" using ffsplit_do_active [OF ok act run(2)] .
      note d = decision_slot [OF ok act dec run(2)]
      have "keeps (sessions srv1 ! slot) (record_vote res (node_list_store m (sessions srv1 ! slot)))"
        using res run(4) by (intro record_vote_keeps node_list_store_keeps [OF d(1) act(1) d(2) m]) (simp_all add: d(3))
      from frame_step.decide [OF act(2) run(2,3) dec this] show ?thesis
        using do run(1) False ok act(1) d(4) by (simp add: handle_node_list_def Let_def)
    qed
  qed
qed

lemma handle_heuristics_change_step:
  assumes ok: "server_ok srv" and act: "slot < MAX_CLIENTS" "phase (sessions srv ! slot) = ACTIVE"
  shows "\<exists>srv'. handle_heuristics_change srv slot m = Some srv' \<and> frame_step ini srv slot srv'"
proof -
  let ?s = "sessions srv ! slot"
  have keeps: "keeps (sessions srv ! slot) (record_vote r ((sessions srv ! slot)\<lparr>last_heuristics := h\<rparr>))"
    if "server_ok srv" "phase (sessions srv ! slot) = ACTIVE" "r \<noteq> Vote_ACK" "r \<noteq> Vote_NACK" for srv r h
    using active_session_ok [OF that(1) act(1) that(2)] that(3,4)
    by (intro record_vote_keeps) (simp_all add: keeps_def role_def)
  show ?thesis
  proof (cases "\<not> m_seq_number_set m \<or> m_heuristics m = Heuristics_UNDEFINED")
    case True
    with ok act show ?thesis by (auto simp: handle_heuristics_change_def intro!: frame_step.stay)
  next
    case set: False
    show ?thesis
    proof (cases "config_list ?s = [] \<or> membership_list ?s = []")
      case True
      from frame_step.keep [OF act(2) keeps [OF ok act(2), of Vote_ASK_LATER "m_heuristics m"]] True set ok act(1)
      show ?thesis by (simp add: handle_heuristics_change_def Let_def)
    next
      case False
      let ?tv = "\<lparr>tv_slot = slot, tv_leaving = False, tv_ring_id = last_ring_id ?s, tv_config = config_list ?s,
        tv_membership = membership_list ?s, tv_heuristics = m_heuristics m\<rparr>"
      have tv: "tv_slot ?tv = slot" "\<not> tv_leaving ?tv" by simp_all
      obtain srv1 res where do: "ffsplit_do srv ?tv = Some (srv1, NO_ERROR, res)" and dec: "decision srv ?tv srv1"
        and res: "res \<noteq> Vote_ACK" "res \<noteq> Vote_NACK" using ffsplit_do_active [OF ok act tv(1)] .
      note d = decision_slot [OF ok act dec tv(1)]
      from frame_step.decide [OF act(2) tv dec keeps [OF d(1,2) res, of "m_heuristics m"]] False set ok act(1) do d(4)
      show ?thesis by (simp add: handle_heuristics_change_def Let_def)
    qed
  qed
qed

subsection \<open>Acknowledged votes\<close>

lemma count_state_0:
  assumes "length (sessions srv) = MAX_CLIENTS"
  shows "ffsplit_count_state srv c st = 0 \<longleftrightarrow> st \<notin> set (member_states srv c)"
  unfolding set_member_states assms by (auto simp: ffsplit_count_state_def filter_empty_conv)

lemma send_acks:
  assumes len: "length (sessions srv) = MAX_CLIENTS" and slot: "tv_slot tv < MAX_CLIENTS" "\<not> tv_leaving tv"
    and c: "c = cluster (sessions srv ! tv_slot tv)"
  obtains n where "ffsplit_send_votes srv tv True = (srv\<lparr>sessions := map (ack_waiting c) (sessions srv),
        outs := outs srv @ map (vote_event srv tv True)
          (filter (\<lambda>i. active_in (sessions srv ! i) c \<and> ff_state (sessions srv ! i) = SENDING_ACK) [0..<MAX_CLIENTS])\<rparr>, n)"
    "n = 0 \<longleftrightarrow> SENDING_ACK \<notin> set (member_states srv c)"
proof -
  have tgt: "vote_target srv tv True c = (\<lambda>i. active_in (sessions srv ! i) c \<and> ff_state (sessions srv ! i) = SENDING_ACK)"
    using slot(2) by (auto simp: vote_target_def in_walk_def skip_in_cluster_walk_def)
  have "map (\<lambda>i. if vote_target srv tv True c i then voted True (sessions srv ! i) else sessions srv ! i) [0..<MAX_CLIENTS]
      = map (ack_waiting c) (sessions srv)"
    using len by (intro nth_equalityI) (auto simp: tgt ack_waiting_def)
  moreover have "length (filter (vote_target srv tv True c) [0..<MAX_CLIENTS]) = 0 \<longleftrightarrow>
      SENDING_ACK \<notin> set (member_states srv c)"
    unfolding set_member_states len by (auto simp: tgt filter_empty_conv)
  ultimately show thesis
    using that ffsplit_send_votes_closed [OF len slot(1) c, of True] by (simp add: tgt)
qed

lemma vote_info_reply_cases:
  assumes ok: "server_ok srv" and act: "slot < MAX_CLIENTS" "phase (sessions srv ! slot) = ACTIVE"
    and fresh: "m_seq_number_set m" "m_seq_number m = vote_info_seq (sessions srv ! slot)"
    and c: "c = cluster (sessions srv ! slot)" and cl: "cl = clusters srv ! nat c"
    and srv1: "srv1 = set_session srv slot (acknowledged (sessions srv ! slot))"
  obtains (promote) "cl_state cl = SENDING_NACKS" "SENDING_NACK \<notin> set (member_states srv1 c)"
      "handle_vote_info_reply srv slot m = Some (notify (srv1\<lparr>sessions := map (ack_waiting c) (sessions srv1),
         clusters := (clusters srv)[nat c := cl\<lparr>cl_state := if SENDING_ACK \<in> set (member_states srv1 c) then SENDING_ACKS
                         else Cluster_WAITING_FOR_CHANGE\<rparr>],
         outs := outs srv @ map (\<lambda>i. SendFrame i (build_vote_info (vote_info_seq (sessions srv1 ! i) + 1) (last_ring_id (sessions srv1 ! i)) Vote_ACK))
           (filter (\<lambda>i. active_in (sessions srv1 ! i) c \<and> ff_state (sessions srv1 ! i) = SENDING_ACK) [0..<MAX_CLIENTS])\<rparr>))"
  | (last) "cl_state cl = SENDING_ACKS" "SENDING_ACK \<notin> set (member_states srv1 c)"
      "handle_vote_info_reply srv slot m = Some (notify (set_cluster srv1 c (cl\<lparr>cl_state := Cluster_WAITING_FOR_CHANGE\<rparr>)))"
  | (wait) "cl_state cl = SENDING_NACKS \<Longrightarrow> SENDING_NACK \<in> set (member_states srv1 c)"
      "cl_state cl = SENDING_ACKS \<Longrightarrow> SENDING_ACK \<in> set (member_states srv1 c)"
      "handle_vote_info_reply srv slot m = Some (notify srv1)"
proof -
  define s where "s = (sessions srv ! slot)\<lparr>ff_state := Client_WAITING_FOR_CHANGE\<rparr>"
  have s1: "srv1 = set_session srv slot s" and sc: "cluster s = c" by (simp_all add: srv1 s_def acknowledged_def c)
  note cls = cluster_of_active [OF ok act c]
  have len1: "length (sessions srv1) = MAX_CLIENTS" using ok by (simp add: s1)
  have at: "cluster_at srv1 c = Some cl" using cls(1,2) ok by (simp add: s1 cl)
  let ?tv = "\<lparr>tv_slot = slot, tv_leaving = False, tv_ring_id = last_ring_id s, tv_config = config_list s,
     tv_membership = membership_list s, tv_heuristics = last_heuristics s\<rparr>"
  let ?srv = "set_cluster srv1 c (cl\<lparr>cl_state := SENDING_ACKS\<rparr>)"
  have run: "handle_vote_info_reply srv slot m =
     (if cl_state cl = SENDING_NACKS
       then (if SENDING_NACK \<notin> set (member_states srv1 c)
          then Some (notify (set_cluster (fst (ffsplit_send_votes ?srv ?tv True)) c
             (if snd (ffsplit_send_votes ?srv ?tv True) = 0 then cl\<lparr>cl_state := Cluster_WAITING_FOR_CHANGE\<rparr>
                   else cl\<lparr>cl_state := SENDING_ACKS\<rparr>)))
          else Some (notify srv1))
       else if cl_state cl = SENDING_ACKS
       then (if SENDING_ACK \<notin> set (member_states srv1 c)
          then Some (notify (set_cluster srv1 c (cl\<lparr>cl_state := Cluster_WAITING_FOR_CHANGE\<rparr>)))
          else Some (notify srv1))
       else Some (notify srv1))"
    using fresh ok act(1) unfolding handle_vote_info_reply_def count_state_0 [OF len1, of c, symmetric]
    by (simp add: Let_def case_prod_unfold sc at flip: s_def s1)
  have ms: "member_states ?srv c = member_states srv1 c" by (simp add: member_states_def)
  have "slot < length (sessions srv)" using ok act(1) by simp
  then have ev: "vote_event ?srv ?tv True =
      (\<lambda>i. SendFrame i (build_vote_info (vote_info_seq (sessions srv1 ! i) + 1) (last_ring_id (sessions srv1 ! i)) Vote_ACK))"
    by (auto simp: fun_eq_iff vote_event_def vote_cast_def eff_ring_def s1 nth_list_update_eq)
  have outs: "outs ?srv = outs srv" "sessions ?srv = sessions srv1" by (simp_all add: s1)
  have "length (sessions ?srv) = MAX_CLIENTS" "tv_slot ?tv < MAX_CLIENTS" "\<not> tv_leaving ?tv"
    "c = cluster (sessions ?srv ! tv_slot ?tv)"
    using len1 act(1) ok sc by (simp_all add: s1)
  from send_acks [OF this] obtain n where v: "ffsplit_send_votes ?srv ?tv True = (?srv\<lparr>sessions := map (ack_waiting c) (sessions srv1),
        outs := outs srv @ map (\<lambda>i. SendFrame i (build_vote_info (vote_info_seq (sessions srv1 ! i) + 1) (last_ring_id (sessions srv1 ! i)) Vote_ACK))
          (filter (\<lambda>i. active_in (sessions srv1 ! i) c \<and> ff_state (sessions srv1 ! i) = SENDING_ACK) [0..<MAX_CLIENTS])\<rparr>, n)"
    and n: "n = 0 \<longleftrightarrow> SENDING_ACK \<notin> set (member_states srv1 c)"
    unfolding ms ev outs .
  have upd: "set_cluster (?srv\<lparr>sessions := A, outs := B\<rparr>) c cl' = srv1\<lparr>sessions := A, clusters := (clusters srv)[nat c := cl'], outs := B\<rparr>"
    for A B cl' by (simp add: s1 set_cluster_def)
  show thesis
  proof (cases "cl_state cl = SENDING_NACKS \<and> SENDING_NACK \<notin> set (member_states srv1 c)")
    case True
    then show thesis
      by (intro promote) (simp_all add: run v upd n if_distrib [of "\<lambda>x. cl\<lparr>cl_state := x\<rparr>"] if_bool_eq_disj)
  next
    case False
    then show thesis
      using last wait by (cases "cl_state cl = SENDING_ACKS \<and> SENDING_ACK \<notin> set (member_states srv1 c)") (auto simp: run)
  qed
qed

lemma handle_vote_info_reply_step:
  assumes ok: "server_ok srv" and act: "slot < MAX_CLIENTS" "phase (sessions srv ! slot) = ACTIVE"
  shows "\<exists>srv'. handle_vote_info_reply srv slot m = Some srv' \<and> frame_step ini srv slot srv'"
proof (cases "\<not> m_seq_number_set m \<or> m_seq_number m \<noteq> vote_info_seq (sessions srv ! slot)")
  case True
  with ok act show ?thesis by (auto simp: handle_vote_info_reply_def intro!: frame_step.stay)
next
  case False
  then have fresh: "m_seq_number_set m" "m_seq_number m = vote_info_seq (sessions srv ! slot)" by simp_all
  show ?thesis
    using ok act fresh refl refl refl
  proof (cases rule: vote_info_reply_cases)
    case promote
    from frame_step.promote [OF act(2) refl refl refl promote(1,2)] promote(3) show ?thesis
      by (simp add: similar_def)
  next
    case last
    from frame_step.acknowledge_last [OF act(2) refl refl refl last(1,2)] last(3) show ?thesis by simp
  next
    case wait
    from frame_step.acknowledge [OF act(2) refl wait(1,2)] wait(3) show ?thesis by simp
  qed
qed

subsection \<open>Dispatch\<close>

lemma handle_active_step:
  assumes ok: "server_ok srv" and act: "slot < MAX_CLIENTS" "phase (sessions srv ! slot) = ACTIVE"
    and m: "length (m_nodes m) \<le> MAX_NODES_PER_LIST"
  shows "\<exists>srv'. handle_active srv slot type frame m now = Some srv' \<and> frame_step ini srv slot srv'"
proof (cases type)
  case MsgType_SET_OPTION
  then show ?thesis using handle_set_option_step [OF ok act] by (simp add: handle_active_def)
next
  case MsgType_NODE_LIST
  then show ?thesis using handle_node_list_step [OF ok act m] by (simp add: handle_active_def)
next
  case MsgType_VOTE_INFO_REPLY
  then show ?thesis using handle_vote_info_reply_step [OF ok act] by (simp add: handle_active_def)
next
  case MsgType_HEURISTICS_CHANGE
  then show ?thesis using handle_heuristics_change_step [OF ok act] by (simp add: handle_active_def)
qed (simp_all add: handle_active_def frame_step.stay)

lemma handle_frame_step:
  assumes ok: "server_ok srv" and run: "processing srv" and slot: "slot < MAX_CLIENTS"
    and conn: "phase (sessions srv ! slot) \<noteq> FREE" "\<not> schedule_disconnect (sessions srv ! slot)"
  shows "\<exists>srv'. handle_frame srv slot type frame payload now = Some srv' \<and>
    frame_step (type = MsgType_INIT) srv slot srv'"
proof -
  let ?ini = "type = MsgType_INIT"
  obtain d where d: "msg_decode type payload = Some d" using msg_decode_defined by blast
  have at: "session_at srv slot = Some (sessions srv ! slot)" using ok slot by simp
  show ?thesis
  proof (cases d)
    case None
    let ?srv = "send_err srv slot MsgDecoded ERROR_DECODING_MSG"
    have "disconnect_client ?srv slot =
      Some ((set_session ?srv slot ((sessions srv ! slot)\<lparr>schedule_disconnect := True\<rparr>))
         \<lparr>pending_close := pending_close srv @ [slot]\<rparr>)"
      using ok run slot conn by (simp add: disconnect_client_def send_err_def Let_def)
    moreover have "frame_step ?ini srv slot ((set_session ?srv slot ((sessions srv ! slot)\<lparr>schedule_disconnect := True\<rparr>))
         \<lparr>pending_close := pending_close srv @ [slot]\<rparr>)"
      using conn by (rule frame_step.schedule) (simp add: similar_def send_err_def)
    ultimately show ?thesis using d None by (simp add: handle_frame_def)
  next
    case (Some m)
    have m: "length (m_nodes m) \<le> MAX_NODES_PER_LIST" using msg_decode_bounds(1) d Some by simp
    have eq: "handle_frame srv slot type frame payload now =
      (if type \<noteq> MsgType_PREINIT \<and> phase (sessions srv ! slot) = WAIT_PREINIT then Some (send_err srv slot m PREINIT_REQUIRED)
       else if type = MsgType_PREINIT then handle_preinit srv slot m
       else if type = MsgType_INIT then handle_init srv slot m now
       else if phase (sessions srv ! slot) \<noteq> ACTIVE then Some (send_err srv slot m INIT_REQUIRED)
       else handle_active srv slot type frame m now)"
      by (simp add: handle_frame_def d Some at)
    consider (preinit) "type = MsgType_PREINIT" | (early) "type \<noteq> MsgType_PREINIT" "phase (sessions srv ! slot) = WAIT_PREINIT"
      | (init) "type = MsgType_INIT" "phase (sessions srv ! slot) \<noteq> WAIT_PREINIT"
      | (inactive) "type \<noteq> MsgType_PREINIT" "type \<noteq> MsgType_INIT" "phase (sessions srv ! slot) \<noteq> WAIT_PREINIT" "phase (sessions srv ! slot) \<noteq> ACTIVE"
      | (active) "type \<noteq> MsgType_PREINIT" "type \<noteq> MsgType_INIT" "phase (sessions srv ! slot) = ACTIVE"
      by blast
    then show ?thesis
    proof cases
      case preinit
      with handle_preinit_step [OF ok slot, of m ?ini] show ?thesis unfolding eq by simp
    next
      case early
      then show ?thesis unfolding eq by (simp add: frame_step.stay)
    next
      case init
      then have "phase (sessions srv ! slot) = WAIT_INIT \<or> phase (sessions srv ! slot) = ACTIVE"
        using conn(1) by (cases "phase (sessions srv ! slot)") auto
      from handle_init_step [OF ok slot this, of ?ini m now] init show ?thesis unfolding eq by simp
    next
      case inactive
      then show ?thesis unfolding eq by (simp add: frame_step.stay)
    next
      case active
      with handle_active_step [OF ok slot active(3) m, of type frame now ?ini] show ?thesis unfolding eq by simp
    qed
  qed
qed

subsection \<open>Steps that only touch sessions\<close>

lemma server_ok_set_inactive:
  assumes ok: "server_ok srv" and slot: "slot < MAX_CLIENTS" and ph: "phase (sessions srv ! slot) \<noteq> ACTIVE" "phase s \<noteq> ACTIVE"
    and s: "session_ok s"
  shows "server_ok (set_session srv slot s)" (is "server_ok ?srv")
proof (rule server_okI)
  show "length (sessions ?srv) = MAX_CLIENTS" "length (clusters ?srv) = MAX_CLUSTERS" using ok by simp_all
  fix i assume i: "i < MAX_CLIENTS"
  show "session_ok (sessions ?srv ! i) \<and> placed ?srv (sessions ?srv ! i)"
    using server_ok_session [OF ok i] server_ok_placed [OF ok i] i ok s ph
    by (cases "i = slot") (simp_all add: placed_def)
next
  fix d assume d: "d < MAX_CLUSTERS"
  have "member_states ?srv (int d) = member_states srv (int d)"
    using ph by (intro member_states_cong) (auto simp: nth_update active_in_def)
  with server_ok_clusters(1) [OF ok d] show "cluster_ok (clusters ?srv ! d) (member_states ?srv (int d))" by simp
qed (use server_ok_clusters(2) [OF ok] in auto)

lemma server_ok_restate:
  assumes ok: "server_ok srv" and len: "length (sessions srv') = MAX_CLIENTS"
    and cls: "clusters srv' = (clusters srv)[nat c := cl']" and c: "0 \<le> c" "nat c < MAX_CLUSTERS"
    and cl: "cl_used cl' = cl_used (clusters srv ! nat c)" "cl_name cl' = cl_name (clusters srv ! nat c)"
      "cl_members cl' = cl_members (clusters srv ! nat c)"
    and used: "member_states srv c \<noteq> []"
    and sess: "\<And>i. i < MAX_CLIENTS \<Longrightarrow> session_ok (sessions srv' ! i) \<and> phase (sessions srv' ! i) = phase (sessions srv ! i) \<and>
        cluster (sessions srv' ! i) = cluster (sessions srv ! i) \<and> cluster_name (sessions srv' ! i) = cluster_name (sessions srv ! i)"
    and others: "\<And>i. i < MAX_CLIENTS \<Longrightarrow> \<not> active_in (sessions srv ! i) c \<Longrightarrow>
        ff_state (sessions srv' ! i) = ff_state (sessions srv ! i)"
    and state: "cl_state cl' = SENDING_NACKS \<Longrightarrow> SENDING_NACK \<in> set (member_states srv' c)"
      "cl_state cl' = SENDING_ACKS \<Longrightarrow> SENDING_NACK \<notin> set (member_states srv' c) \<and> SENDING_ACK \<in> set (member_states srv' c)"
  shows "server_ok srv'"
proof -
  have act: "active_in (sessions srv' ! i) d = active_in (sessions srv ! i) d" if "i < MAX_CLIENTS" for i d
    using sess [OF that] by (simp add: active_in_def)
  have "map (\<lambda>s. (phase s, cluster s)) (sessions srv') = map (\<lambda>s. (phase s, cluster s)) (sessions srv)"
    using sess len ok by (intro nth_equalityI) simp_all
  from arg_cong [OF filter_map_cong [OF this, of "\<lambda>s. active_in s c"], of length]
  have cnt: "length (member_states srv' c) = length (member_states srv c)"
    by (simp add: length_member_states active_in_def)
  then have used': "member_states srv' c \<noteq> []" using used by (metis length_0_conv)
  have name: "cl_name (clusters srv' ! d) = cl_name (clusters srv ! d)" "cl_used (clusters srv' ! d) = cl_used (clusters srv ! d)"
    if "d < MAX_CLUSTERS" for d
    using that ok cl by (auto simp: cls nth_update)
  show ?thesis
  proof (rule server_okI)
    fix i assume i: "i < MAX_CLIENTS"
    show "session_ok (sessions srv' ! i) \<and> placed srv' (sessions srv' ! i)"
      using sess [OF i] server_ok_placed [OF ok i] name [of "nat (cluster (sessions srv ! i))"] by (auto simp: placed_def)
  next
    fix d assume d: "d < MAX_CLUSTERS"
    show "cluster_ok (clusters srv' ! d) (member_states srv' (int d))"
    proof (cases "int d = c")
      case True
      then have "cluster_ok (clusters srv ! nat c) (member_states srv c)" using server_ok_clusters(1) [OF ok d] by auto
      moreover have "clusters srv' ! d = cl'" using True d ok by (auto simp: cls nth_update)
      ultimately show ?thesis using True cl cnt used used' state by (auto simp: cluster_ok_def)
    next
      case False
      have "member_states srv' (int d) = member_states srv (int d)"
        by (rule member_states_cong) (use len ok act others False in \<open>auto simp: active_in_def [of "sessions srv ! _"]\<close>)
      moreover have "clusters srv' ! d = clusters srv ! d" using False c by (auto simp: cls nth_update)
      ultimately show ?thesis using server_ok_clusters(1) [OF ok d] by simp
    qed
  next
    fix d e assume "d < MAX_CLUSTERS" "e < MAX_CLUSTERS" "cl_used (clusters srv' ! d)" "cl_used (clusters srv' ! e)"
        "cl_name (clusters srv' ! d) = cl_name (clusters srv' ! e)"
    then show "d = e" using server_ok_clusters(2) [OF ok, of d e] name by simp
  qed (use len ok cls in simp_all)
qed

lemma session_ok_keeps:
  assumes "session_ok s" "phase s = ACTIVE" "keeps s s'"
  shows "session_ok s'"
  using assms by (auto simp: session_ok_def keeps_def role_def list_kept_def)

lemma server_ok_keeps:
  assumes "server_ok srv" "slot < MAX_CLIENTS" "phase (sessions srv ! slot) = ACTIVE" "keeps (sessions srv ! slot) s'"
  shows "server_ok (set_session srv slot s')"
  using assms server_ok_session [OF assms(1,2)] session_ok_keeps
  by (intro server_ok_set_session) (auto simp: keeps_def)

lemma refused_sel:
  assumes "refused s s'"
  shows "phase s' = phase s" "cluster s' = cluster s" "cluster_name s' = cluster_name s" "ff_state s' = ff_state s" "rx s' = rx s"
    "peer s' = peer s" "schedule_disconnect s' = schedule_disconnect s" "last_ack_nack s' = last_ack_nack s"
    "config_list s' = config_list s" "membership_list s' = membership_list s" "quorum_list s' = quorum_list s"
    "last_sent_vote s' = last_sent_vote s" "vote_info_seq s' = vote_info_seq s"
    "phase s = ACTIVE \<Longrightarrow> heartbeat_ms s' = heartbeat_ms s \<and> algorithm s' = algorithm s \<and> tie_breaker s' = tie_breaker s"
  using assms by (auto simp: refused_def)

lemma session_ok_refused: "session_ok s \<Longrightarrow> refused s s' \<Longrightarrow> phase s \<noteq> FREE \<Longrightarrow> session_ok s'"
  using refused_sel [of s s'] by (auto simp: session_ok_def)

subsection \<open>Joining a cluster\<close>

lemma member_states_enter:
  assumes slot: "slot < length (sessions srv)" and old: "\<not> active_in (sessions srv ! slot) c" and new: "active_in s c"
  shows "length (member_states (set_session srv slot s) c) = Suc (length (member_states srv c))"
    "set (member_states (set_session srv slot s) c) = insert (ff_state s) (set (member_states srv c))"
proof -
  show "length (member_states (set_session srv slot s) c) = Suc (length (member_states srv c))"
    using length_filter_update [OF slot, of "\<lambda>s. active_in s c" s] old new by (simp add: length_member_states)
  have "x \<in> set (member_states (set_session srv slot s) c) \<longleftrightarrow> x = ff_state s \<or> x \<in> set (member_states srv c)" for x
    unfolding set_member_states using slot old new by (auto simp: nth_update split: if_splits)
  then show "set (member_states (set_session srv slot s) c) = insert (ff_state s) (set (member_states srv c))" by auto
qed

lemma session_ok_join:
  assumes "session_ok s0" "phase s0 = WAIT_INIT" "refused s0 s" "joins srv slot s"
  shows "session_ok (reschedule_dpd (s\<lparr>cluster := c, phase := ACTIVE\<rparr>) now)"
  using assms refused_sel [OF assms(3)] by (auto simp: session_ok_def joins_def)

lemma find_or_create_entry:
  assumes ok: "server_ok srv" and f: "find_or_create_cluster srv name = (srv1, c)" and c: "0 \<le> c"
    and cl: "cl = clusters srv1 ! nat c"
  obtains d where "d < MAX_CLUSTERS" "c = int d" "sessions srv1 = sessions srv"
    "cl_name cl = name" "cl_used cl" "cl_used (clusters srv ! d) \<longrightarrow> cl_name cl = cl_name (clusters srv ! d)"
    "clusters srv1 = (clusters srv)[d := cl]" "cl_members cl = int (length (member_states srv c))"
    "cl_state cl = SENDING_NACKS \<longrightarrow> SENDING_NACK \<in> set (member_states srv c)"
    "cl_state cl = SENDING_ACKS \<longrightarrow> SENDING_NACK \<notin> set (member_states srv c) \<and> SENDING_ACK \<in> set (member_states srv c)"
    "\<forall>e<MAX_CLUSTERS. cl_used (clusters srv ! e) \<longrightarrow> cl_name (clusters srv ! e) = name \<longrightarrow> e = d"
  using f
proof (cases rule: find_or_create_cases)
  case (found d)
  have cl': "cl = clusters srv ! d" using found cl by simp
  show thesis
  proof (rule that [of d])
    show "\<forall>e<MAX_CLUSTERS. cl_used (clusters srv ! e) \<longrightarrow> cl_name (clusters srv ! e) = name \<longrightarrow> e = d"
      using server_ok_clusters(2) [OF ok _ found(1) _ found(4)] unfolding found(5) by blast
  qed (use found cl' server_ok_clusters(1) [OF ok found(1)] in \<open>simp_all add: cluster_ok_def\<close>)
next
  case (created d)
  have cl': "cl = Cluster\<lparr>cl_used := True, cl_name := name\<rparr>" using created cl ok by simp
  have ms: "member_states srv c = []" using server_ok_clusters(1) [OF ok created(1)] created by (simp add: cluster_ok_def)
  show thesis
  proof (rule that [of d])
    show "\<forall>e<MAX_CLUSTERS. cl_used (clusters srv ! e) \<longrightarrow> cl_name (clusters srv ! e) = name \<longrightarrow> e = d"
      using created(4) by blast
  qed (use created cl' ms in \<open>simp_all add: Cluster_def\<close>)
qed (use c in simp)

lemma unique_names_update:
  assumes "\<And>a b. a < n \<Longrightarrow> b < n \<Longrightarrow> cl_used (cls a) \<Longrightarrow> cl_used (cls b) \<Longrightarrow> cl_name (cls a) = cl_name (cls b) \<Longrightarrow> a = b"
    and uniq: "\<And>e. e < n \<Longrightarrow> cl_used (cls e) \<Longrightarrow> cl_name (cls e) = cl_name cl \<Longrightarrow> e = d"
    and at: "\<And>e. e < n \<Longrightarrow> cls' e = (if e = d then cl else cls e)"
    and ab: "a < n" "b < n" "cl_used (cls' a)" "cl_used (cls' b)" "cl_name (cls' a) = cl_name (cls' b)"
  shows "a = b"
proof (cases "a = d"; cases "b = d")
  assume "a = d" "b \<noteq> d"
  then show ?thesis using uniq [OF ab(2)] ab at by simp
next
  assume "a \<noteq> d" "b = d"
  then show ?thesis using uniq [OF ab(1)] ab at by simp
next
  assume "a \<noteq> d" "b \<noteq> d"
  then show ?thesis using assms(1) [OF ab(1,2)] ab at by simp
qed simp

lemma server_ok_join:
  assumes ok: "server_ok srv" and slot: "slot < MAX_CLIENTS" and ph: "phase (sessions srv ! slot) = WAIT_INIT"
    and r: "refused (sessions srv ! slot) s" and j: "joins srv slot s"
    and f: "find_or_create_cluster srv (cluster_name s) = (srv1, c)" and c: "0 \<le> c"
    and s': "s' = reschedule_dpd (s\<lparr>cluster := c, phase := ACTIVE\<rparr>) now"
    and cl: "cl = clusters srv1 ! nat c"
  shows "server_ok (set_session (set_cluster srv1 c (cl\<lparr>cl_members := cl_members cl + 1\<rparr>)) slot s')" (is "server_ok ?srv")
proof -
  have len: "length (sessions srv) = MAX_CLIENTS" "length (clusters srv) = MAX_CLUSTERS" using ok by simp_all
  have sok: "session_ok s'" using session_ok_join [OF server_ok_session [OF ok slot] ph r j] by (simp add: s')
  have inact: "\<not> active_in (sessions srv ! slot) d" for d using ph by (simp add: active_in_def)
  have inc: "active_in s' d \<longleftrightarrow> d = c" for d by (auto simp: s' active_in_def)
  have ff: "ff_state s' = Client_WAITING_FOR_CHANGE"
    using server_ok_session [OF ok slot] ph refused_sel(4) [OF r] by (simp add: s' session_ok_def)
  have nm: "cluster_name s' = cluster_name s" "phase s' = ACTIVE" "cluster s' = c" by (simp_all add: s')
  obtain d where d: "d < MAX_CLUSTERS" "c = int d" and srv1: "sessions srv1 = sessions srv"
    and name: "cl_name cl = cluster_name s" "cl_used cl" "cl_used (clusters srv ! d) \<longrightarrow> cl_name cl = cl_name (clusters srv ! d)"
    and cls: "clusters srv1 = (clusters srv)[d := cl]" and cl_ok: "cl_members cl = int (length (member_states srv c))"
      "cl_state cl = SENDING_NACKS \<longrightarrow> SENDING_NACK \<in> set (member_states srv c)"
      "cl_state cl = SENDING_ACKS \<longrightarrow> SENDING_NACK \<notin> set (member_states srv c) \<and> SENDING_ACK \<in> set (member_states srv c)"
    and uniq: "\<forall>e<MAX_CLUSTERS. cl_used (clusters srv ! e) \<longrightarrow> cl_name (clusters srv ! e) = cluster_name s \<longrightarrow> e = d"
    using find_or_create_entry [OF ok f c cl] .
  let ?cl = "cl\<lparr>cl_members := cl_members cl + 1\<rparr>"
  have at: "clusters ?srv ! e = (if e = d then ?cl else clusters srv ! e)" if "e < MAX_CLUSTERS" for e
    using that d len by (simp add: cls nth_update)
  have ms: "member_states ?srv e = member_states (set_session srv slot s') e" for e
    by (simp add: member_states_def srv1)
  show ?thesis
  proof (rule server_okI)
    fix i assume i: "i < MAX_CLIENTS"
    show "session_ok (sessions ?srv ! i) \<and> placed ?srv (sessions ?srv ! i)"
    proof (cases "i = slot")
      case True
      then show ?thesis using sok len slot d name nm at [OF d(1)] by (simp add: srv1 placed_def)
    next
      case False
      have "cl_name cl = cl_name (clusters srv ! d)" if "active_in (sessions srv ! i) (int d)"
      proof -
        have "member_states srv (int d) \<noteq> []"
          using that i len set_member_states [of "ff_state (sessions srv ! i)" srv "int d"] by force
        with server_ok_clusters(1) [OF ok d(1)] name(3) show ?thesis by (simp add: cluster_ok_def)
      qed
      then show ?thesis
        using False server_ok_session [OF ok i] server_ok_placed [OF ok i] at [of "nat (cluster (sessions srv ! i))"]
        by (auto simp: srv1 placed_def active_in_def)
    qed
  next
    fix e assume e: "e < MAX_CLUSTERS"
    show "cluster_ok (clusters ?srv ! e) (member_states ?srv (int e))"
    proof (cases "e = d")
      case True
      with at [OF e] d cl_ok name member_states_enter [of slot srv c s'] slot len inact inc ff show ?thesis
        unfolding ms by (auto simp: cluster_ok_def)
    next
      case False
      have "member_states (set_session srv slot s') (int e) = member_states srv (int e)"
        using inact inc False d by (intro member_states_cong) (auto simp: nth_update)
      with False at [OF e] server_ok_clusters(1) [OF ok e] show ?thesis unfolding ms by simp
    qed
  next
    fix a b assume ab: "a < MAX_CLUSTERS" "b < MAX_CLUSTERS" "cl_used (clusters ?srv ! a)" "cl_used (clusters ?srv ! b)"
      "cl_name (clusters ?srv ! a) = cl_name (clusters ?srv ! b)"
    show "a = b"
    proof (rule unique_names_update [OF server_ok_clusters(2) [OF ok] _ at ab])
      fix e assume "e < MAX_CLUSTERS" "cl_used (clusters srv ! e)" "cl_name (clusters srv ! e) = cl_name ?cl"
      moreover have "cl_name ?cl = cluster_name s" using name(1) by simp
      ultimately show "e = d" using uniq [rule_format, of e] by (simp only:)
    qed
  qed (use len in \<open>simp_all add: srv1 cls\<close>)
qed

subsection \<open>Every step keeps the invariant\<close>

lemma acknowledged_sel [simp]:
  "phase (acknowledged s) = phase s" "cluster (acknowledged s) = cluster s" "cluster_name (acknowledged s) = cluster_name s"
  "node_id (acknowledged s) = node_id s" "active_in (acknowledged s) c = active_in s c"
  "ff_state (acknowledged s) = Client_WAITING_FOR_CHANGE" "rx (acknowledged s) = rx s" "peer (acknowledged s) = peer s"
  "schedule_disconnect (acknowledged s) = schedule_disconnect s" "last_ack_nack (acknowledged s) = last_ack_nack s"
  "config_list (acknowledged s) = config_list s" "membership_list (acknowledged s) = membership_list s"
  "tie_breaker (acknowledged s) = tie_breaker s"
  by (simp_all add: acknowledged_def active_in_def)

lemma ack_waiting_sel [simp]:
  "phase (ack_waiting c s) = phase s" "cluster (ack_waiting c s) = cluster s" "cluster_name (ack_waiting c s) = cluster_name s"
  "node_id (ack_waiting c s) = node_id s" "active_in (ack_waiting c s) d = active_in s d"
  "ff_state (ack_waiting c s) = ff_state s" "rx (ack_waiting c s) = rx s" "peer (ack_waiting c s) = peer s"
  "schedule_disconnect (ack_waiting c s) = schedule_disconnect s"
  "config_list (ack_waiting c s) = config_list s" "membership_list (ack_waiting c s) = membership_list s"
  "tie_breaker (ack_waiting c s) = tie_breaker s"
  by (simp_all add: ack_waiting_def voted_def active_in_def)

lemma session_ok_acknowledged: "session_ok s \<Longrightarrow> phase s = ACTIVE \<Longrightarrow> session_ok (acknowledged s)"
  by (simp add: session_ok_def acknowledged_def)

lemma session_ok_ack_waiting: "session_ok s \<Longrightarrow> session_ok (ack_waiting c s)"
  by (auto simp: session_ok_def ack_waiting_def voted_def active_in_def)

lemma server_ok_acknowledged:
  assumes ok: "server_ok srv" and act: "slot < MAX_CLIENTS" "phase (sessions srv ! slot) = ACTIVE"
    and srv1: "srv1 = set_session srv slot (acknowledged (sessions srv ! slot))"
    and c: "c = cluster (sessions srv ! slot)" and cl: "cl = clusters srv ! nat c"
    and srv2: "sessions srv2 = sessions srv1 \<or> sessions srv2 = map (ack_waiting c) (sessions srv1)"
      "clusters srv2 = (clusters srv)[nat c := cl\<lparr>cl_state := st\<rparr>]"
    and st: "st = SENDING_NACKS \<Longrightarrow> SENDING_NACK \<in> set (member_states srv1 c)"
      "st = SENDING_ACKS \<Longrightarrow> SENDING_NACK \<notin> set (member_states srv1 c) \<and> SENDING_ACK \<in> set (member_states srv1 c)"
  shows "server_ok srv2"
proof -
  note cls = cluster_of_active [OF ok act c]
  have len: "length (sessions srv) = MAX_CLIENTS" "length (sessions srv1) = MAX_CLIENTS" using ok by (simp_all add: srv1)
  have ms: "member_states srv2 c = member_states srv1 c"
    using srv2(1) by (auto simp: member_states_def filter_map comp_def)
  have used: "member_states srv c \<noteq> []"
    using act len c set_member_states [of "ff_state (sessions srv ! slot)" srv c] by (auto simp: active_in_def)
  have sess1: "session_ok (sessions srv1 ! i) \<and> phase (sessions srv1 ! i) = phase (sessions srv ! i) \<and>
        cluster (sessions srv1 ! i) = cluster (sessions srv ! i) \<and> cluster_name (sessions srv1 ! i) = cluster_name (sessions srv ! i) \<and>
        (\<not> active_in (sessions srv ! i) c \<longrightarrow> ff_state (sessions srv1 ! i) = ff_state (sessions srv ! i))" if "i < MAX_CLIENTS" for i
    using that act len server_ok_session [OF ok that] c
    by (cases "i = slot") (simp_all add: srv1 session_ok_acknowledged active_in_def)
  have sess2: "sessions srv2 ! i = sessions srv1 ! i \<or> sessions srv2 ! i = ack_waiting c (sessions srv1 ! i)" if "i < MAX_CLIENTS" for i
    using srv2(1) that len by auto
  show ?thesis
  proof (rule server_ok_restate [OF ok _ srv2(2) cls(1,2) _ _ _ used])
    show "length (sessions srv2) = MAX_CLIENTS" using srv2(1) len by auto
    fix i assume i: "i < MAX_CLIENTS"
    show "session_ok (sessions srv2 ! i) \<and> phase (sessions srv2 ! i) = phase (sessions srv ! i) \<and>
        cluster (sessions srv2 ! i) = cluster (sessions srv ! i) \<and> cluster_name (sessions srv2 ! i) = cluster_name (sessions srv ! i)"
      using sess1 [OF i] sess2 [OF i] session_ok_ack_waiting by auto
    show "ff_state (sessions srv2 ! i) = ff_state (sessions srv ! i)" if "\<not> active_in (sessions srv ! i) c"
      using sess1 [OF i] sess2 [OF i] that by auto
  qed (use st in \<open>simp_all add: cl ms\<close>)
qed

lemma similar_ok: "similar srv srv' \<Longrightarrow> server_ok srv' = server_ok srv"
  by (rule server_ok_cong) (simp_all add: similar_def)

lemma nack_left:
  assumes "SENDING_NACK \<notin> set (member_states srv c)" "slot < length (sessions srv)"
  shows "SENDING_NACK \<notin> set (member_states (set_session srv slot (acknowledged (sessions srv ! slot))) c)"
  using assms unfolding set_member_states by (auto simp: nth_update split: if_splits)

lemma frame_step_server_ok:
  assumes "frame_step ini srv slot srv'" and ok: "server_ok srv" and slot: "slot < MAX_CLIENTS"
    and conn: "phase (sessions srv ! slot) \<noteq> FREE"
  shows "server_ok srv'"
  using assms(1)
proof (cases rule: frame_step.cases)
  case stay
  then show ?thesis using ok similar_ok by blast
next
  case (preinit s name)
  have "session_ok (s\<lparr>cluster_name := name, phase := WAIT_INIT\<rparr>)"
    using server_ok_session [OF ok slot] preinit(1,2) by (simp add: session_ok_def)
  then have "server_ok (set_session srv slot (s\<lparr>cluster_name := name, phase := WAIT_INIT\<rparr>))"
    using preinit by (intro server_ok_set_inactive [OF ok slot]) simp_all
  then show ?thesis using preinit(3) similar_ok by blast
next
  case (refuse s')
  have s': "session_ok s'" using session_ok_refused [OF server_ok_session [OF ok slot] refuse(1) conn] .
  have "server_ok (set_session srv slot s')"
  proof (cases "phase (sessions srv ! slot) = ACTIVE")
    case True
    show ?thesis by (rule server_ok_set_session [OF ok slot _ s']) (simp add: role_def refused_sel [OF refuse(1)])
  next
    case False
    then show ?thesis using refused_sel(1) [OF refuse(1)] s' by (intro server_ok_set_inactive [OF ok slot]) simp_all
  qed
  then show ?thesis using refuse(4) similar_ok by blast
next
  case (join s srv1 c cl s' now)
  from server_ok_join [OF ok slot join(2,3,4,5,6,8,7)] show ?thesis using join(9) similar_ok by blast
next
  case (keep s')
  then show ?thesis using server_ok_keeps [OF ok slot keep(1,2)] similar_ok by blast
next
  case (decide tv srv1 s')
  note d = decision_slot [OF ok slot decide(1) decide(4,2)]
  show ?thesis using server_ok_keeps [OF d(1) slot d(2) decide(5)] decide(6) similar_ok by blast
next
  case (acknowledge srv1)
  let ?c = "cluster (sessions srv ! slot)"
  note cls = cluster_of_active [OF ok slot acknowledge(1) refl]
  have "server_ok srv1"
  proof (rule server_ok_acknowledged [OF ok slot acknowledge(1,2) refl refl])
    show "clusters srv1 = (clusters srv)[nat ?c := (clusters srv ! nat ?c)\<lparr>cl_state := cl_state (clusters srv ! nat ?c)\<rparr>]"
      by (simp add: acknowledge(2))
    show "SENDING_NACK \<notin> set (member_states srv1 ?c) \<and> SENDING_ACK \<in> set (member_states srv1 ?c)"
      if "cl_state (clusters srv ! nat ?c) = SENDING_ACKS"
      using cls(4) that acknowledge(4) nack_left [of srv ?c slot] ok slot by (simp add: cluster_ok_def acknowledge(2))
  qed (use acknowledge(3) in auto)
  then show ?thesis using acknowledge(5) similar_ok by blast
next
  case (acknowledge_last srv1 c cl)
  have "server_ok (set_cluster srv1 c (cl\<lparr>cl_state := Cluster_WAITING_FOR_CHANGE\<rparr>))"
    by (rule server_ok_acknowledged [OF ok slot acknowledge_last(1,2,3,4), where st = Cluster_WAITING_FOR_CHANGE]) (simp_all add: acknowledge_last(2))
  then show ?thesis using acknowledge_last(7) similar_ok by blast
next
  case (promote srv1 c cl)
  have "server_ok (set_cluster (srv1\<lparr>sessions := map (ack_waiting c) (sessions srv1)\<rparr>) c
      (cl\<lparr>cl_state := if SENDING_ACK \<in> set (member_states srv1 c) then SENDING_ACKS else Cluster_WAITING_FOR_CHANGE\<rparr>))"
    by (rule server_ok_acknowledged [OF ok slot promote(1,2,3,4), where
        st = "if SENDING_ACK \<in> set (member_states srv1 c) then SENDING_ACKS else Cluster_WAITING_FOR_CHANGE"])
      (use promote(6) in \<open>simp_all add: promote(2) split: if_splits\<close>)
  then show ?thesis using promote(7) similar_ok by blast
next
  case schedule
  have "server_ok (set_session srv slot ((sessions srv ! slot)\<lparr>schedule_disconnect := True\<rparr>))"
    using server_ok_session [OF ok slot] conn
    by (intro server_ok_set_session [OF ok slot]) (auto simp: role_def session_ok_def)
  with schedule(3) show ?thesis by (metis server_ok_plumbing(6) similar_ok)
qed

subsection \<open>What a step leaves alone\<close>

text \<open>What a frame leaves alone: the buffers, the peers, and which slots are in use.\<close>

definition steady :: "bool \<Rightarrow> session \<Rightarrow> session \<Rightarrow> bool" where
  "steady own s s' \<longleftrightarrow> rx s' = rx s \<and> peer s' = peer s \<and>
     (if own then phase s' \<noteq> FREE \<and> (phase s = ACTIVE \<longrightarrow> phase s' = ACTIVE)
      else phase s' = phase s \<and> schedule_disconnect s' = schedule_disconnect s)"

lemma steady_refl: "own \<Longrightarrow> phase s \<noteq> FREE \<Longrightarrow> steady own s s" "\<not> own \<Longrightarrow> steady own s s"
  by (simp_all add: steady_def)

lemma decision_steady:
  assumes "decision srv tv srv1" "i < length (sessions srv)"
  shows "rx (sessions srv1 ! i) = rx (sessions srv ! i)" "peer (sessions srv1 ! i) = peer (sessions srv ! i)"
    "phase (sessions srv1 ! i) = phase (sessions srv ! i)"
    "schedule_disconnect (sessions srv1 ! i) = schedule_disconnect (sessions srv ! i)"
  using core_eq_fields [OF same_core_nth [OF decision_frame(1) [OF assms(1)] assms(2)]] by simp_all

lemma steady_update:
  assumes "\<And>i. i < length (sessions srv) \<Longrightarrow> rx (sessions srv1 ! i) = rx (sessions srv ! i) \<and>
      peer (sessions srv1 ! i) = peer (sessions srv ! i) \<and> phase (sessions srv1 ! i) = phase (sessions srv ! i) \<and>
      schedule_disconnect (sessions srv1 ! i) = schedule_disconnect (sessions srv ! i)"
    and "length (sessions srv1) = length (sessions srv)" "i < length (sessions srv)" "slot < length (sessions srv)"
    and "steady True (sessions srv ! slot) s'" "sessions srv' = (sessions srv1)[slot := s']"
  shows "steady (i = slot) (sessions srv ! i) (sessions srv' ! i)"
  using assms(1) [OF assms(3)] assms(2-6) by (cases "i = slot") (auto simp: steady_def)

lemma find_or_create_sessions:
  "find_or_create_cluster srv name = (srv1, c) \<Longrightarrow> sessions srv1 = sessions srv"
  by (elim find_or_create_cases) auto

lemma frame_step_steady:
  assumes "frame_step ini srv slot srv'" and ok: "server_ok srv" and slot: "slot < MAX_CLIENTS"
    and conn: "phase (sessions srv ! slot) \<noteq> FREE" and i: "i < MAX_CLIENTS"
  shows "steady (i = slot) (sessions srv ! i) (sessions srv' ! i)"
proof -
  have len: "length (sessions srv) = MAX_CLIENTS" using ok by simp
  have upd: "steady (i = slot) (sessions srv ! i) (sessions srv2 ! i)"
    if "sessions srv2 = (sessions srv)[slot := s']" "steady True (sessions srv ! slot) s'" for s' srv2
    using steady_update [OF _ refl _ _ that(2) that(1), of i] len slot i by simp
  show ?thesis
    using assms(1)
  proof (cases rule: frame_step.cases)
    case stay
    then show ?thesis using conn by (simp add: similar_def steady_def)
  next
    case (preinit s name)
    then show ?thesis by (intro upd [of _ "s\<lparr>cluster_name := name, phase := WAIT_INIT\<rparr>"]) (simp_all add: similar_def steady_def)
  next
    case (refuse s')
    then show ?thesis by (intro upd [of _ s']) (simp_all add: similar_def steady_def refused_sel [OF refuse(1)])
  next
    case (join s srv1 c cl s' now)
    then show ?thesis
      by (intro upd [of _ s']) (simp_all add: similar_def steady_def refused_sel [OF join(3)] find_or_create_sessions [OF join(5)])
  next
    case (keep s')
    then show ?thesis by (intro upd [of _ s']) (simp_all add: similar_def steady_def keeps_def role_def)
  next
    case (decide tv srv1 s')
    have s: "steady True (sessions srv ! slot) s'"
      using decide(1,5) decision_steady [OF decide(4), of slot] slot len by (simp add: steady_def keeps_def role_def)
    show ?thesis
      by (rule steady_update [where ?srv1.0 = srv1, OF _ _ _ _ s])
        (use decide(6) decision_steady [OF decide(4)] decision_frame(2) [OF decide(4)] len i slot in \<open>simp_all add: similar_def\<close>)
  next
    case (acknowledge srv1)
    then show ?thesis by (intro upd [of _ "acknowledged (sessions srv ! slot)"]) (simp_all add: similar_def steady_def)
  next
    case (acknowledge_last srv1 c cl)
    then show ?thesis by (intro upd [of _ "acknowledged (sessions srv ! slot)"]) (simp_all add: similar_def steady_def)
  next
    case (promote srv1 c cl)
    then have "steady (i = slot) (sessions srv ! i) (sessions srv1 ! i)"
      by (intro upd [of _ "acknowledged (sessions srv ! slot)"]) (simp_all add: steady_def)
    moreover have "sessions srv' ! i = ack_waiting c (sessions srv1 ! i)" using promote(2,7) len i by (simp add: similar_def)
    ultimately show ?thesis by (auto simp: steady_def split: if_splits)
  next
    case schedule
    then show ?thesis using conn
      by (intro upd [of _ "(sessions srv ! slot)\<lparr>schedule_disconnect := True\<rparr>"]) (simp_all add: similar_def steady_def)
  qed
qed

lemma frame_step_frame:
  assumes "frame_step ini srv slot srv'"
  shows "processing srv' = processing srv" "max_rx_frame srv' = max_rx_frame srv" "on_state_change srv' = on_state_change srv"
proof -
  have "processing srv1 = processing srv \<and> max_rx_frame srv1 = max_rx_frame srv \<and> on_state_change srv1 = on_state_change srv"
    if "find_or_create_cluster srv n = (srv1, c)" for n srv1 c
    using that by (elim find_or_create_cases) auto
  with assms show "processing srv' = processing srv" "max_rx_frame srv' = max_rx_frame srv" "on_state_change srv' = on_state_change srv"
    by (auto simp: similar_def decision_frame elim!: frame_step.cases)
qed

lemma frame_step_pending:
  assumes "frame_step ini srv slot srv'" and ok: "server_ok srv" and slot: "slot < MAX_CLIENTS" and pend: "pending_ok srv"
    and conn: "phase (sessions srv ! slot) \<noteq> FREE"
  shows "pending_ok srv'"
proof -
  have len: "length (sessions srv) = MAX_CLIENTS" using ok by simp
  have st: "schedule_disconnect (sessions srv' ! i) = schedule_disconnect (sessions srv ! i)" if "i < MAX_CLIENTS" "i \<noteq> slot" for i
    using frame_step_steady [OF assms(1) ok slot conn that(1)] that(2) by (simp add: steady_def)
  have same: ?thesis if "pending_close srv' = pending_close srv"
      "schedule_disconnect (sessions srv' ! slot) = schedule_disconnect (sessions srv ! slot)"
    using pend that st unfolding pending_ok_def by metis
  have fc: "pending_close srv1 = pending_close srv" if "find_or_create_cluster srv n = (srv1, c)" for n srv1 c
    using that by (elim find_or_create_cases) auto
  show ?thesis
    using assms(1)
  proof (cases rule: frame_step.cases)
    case (decide tv srv1 s')
    then show ?thesis
      using decision_steady(4) [OF decide(4), of slot] decision_frame(2,4) [OF decide(4)] slot len
      by (intro same) (simp_all add: similar_def keeps_def)
  next
    case (join s srv1 c cl s' now)
    then show ?thesis using slot len fc [OF join(5)]
      by (intro same) (simp_all add: similar_def refused_sel [OF join(3)] find_or_create_sessions [OF join(5)])
  next
    case (refuse s')
    then show ?thesis using slot len by (intro same) (simp_all add: similar_def refused_sel [OF refuse(1)])
  next
    case schedule
    then have "pending_close srv' = pending_close srv @ [slot]" "schedule_disconnect (sessions srv' ! slot)"
      using slot len by (simp_all add: similar_def)
    with pend schedule(2) slot st show ?thesis unfolding pending_ok_def by (auto simp: less_le)
  qed (use slot len in \<open>auto simp: similar_def keeps_def intro!: same\<close>)
qed

end
