(* ===== verification/Votes.thy ===== *)
theory Votes
  imports Protocol
begin

text \<open>
  The safety of the votes. \<open>votes_ok\<close> says that a client whose last vote is an
  acknowledgement, or that is about to get one, is a node of the partition its cluster
  selected, that the node lists a client reported contain the client, and that the
  members of a cluster have different node ids and agree on the tie breaker. Every step
  of the protocol keeps it, unless a client repeats INIT on an active connection.
\<close>

subsection \<open>Granted votes\<close>

definition granted :: "server \<Rightarrow> session \<Rightarrow> bool" where
  "granted srv s \<longleftrightarrow> (phase s = ACTIVE \<longrightarrow>
     (last_ack_nack s = Vote_ACK \<or> ff_state s = SENDING_ACK \<longrightarrow>
        node_id s \<in> node_ids (quorate_partition (clusters srv ! nat (cluster s)))) \<and>
     (config_list s \<noteq> [] \<longrightarrow> node_id s \<in> node_ids (config_list s)) \<and>
     (membership_list s \<noteq> [] \<longrightarrow> node_id s \<in> node_ids (membership_list s)))"

definition peers_differ :: "server \<Rightarrow> bool" where
  "peers_differ srv \<longleftrightarrow> (\<forall>i<MAX_CLIENTS. \<forall>j<MAX_CLIENTS. i \<noteq> j \<longrightarrow>
     phase (sessions srv ! i) = ACTIVE \<longrightarrow> phase (sessions srv ! j) = ACTIVE \<longrightarrow>
     cluster (sessions srv ! i) = cluster (sessions srv ! j) \<longrightarrow>
     node_id (sessions srv ! i) \<noteq> node_id (sessions srv ! j) \<and>
     tie_breaker_eq (tie_breaker (sessions srv ! i)) (tie_breaker (sessions srv ! j)))"

definition votes_ok :: "server \<Rightarrow> bool" where
  "votes_ok srv \<longleftrightarrow> (\<forall>i<MAX_CLIENTS. granted srv (sessions srv ! i)) \<and> peers_differ srv"

lemma votes_ok_cong: "sessions srv' = sessions srv \<Longrightarrow> clusters srv' = clusters srv \<Longrightarrow> votes_ok srv' = votes_ok srv"
  by (simp add: votes_ok_def granted_def peers_differ_def)

lemma similar_votes: "similar srv srv' \<Longrightarrow> votes_ok srv' = votes_ok srv"
  by (rule votes_ok_cong) (simp_all add: similar_def)

lemma granted_inactive [simp]: "phase s \<noteq> ACTIVE \<Longrightarrow> granted srv s"
  by (simp add: granted_def)

text \<open>Sessions that keep their identity keep \<open>peers_differ\<close>.\<close>

lemma peers_differ_sub:
  assumes "peers_differ srv"
    and "\<And>i. i < MAX_CLIENTS \<Longrightarrow> phase (sessions srv' ! i) = ACTIVE \<Longrightarrow>
      phase (sessions srv ! i) = ACTIVE \<and> cluster (sessions srv' ! i) = cluster (sessions srv ! i) \<and>
      node_id (sessions srv' ! i) = node_id (sessions srv ! i) \<and>
      tie_breaker (sessions srv' ! i) = tie_breaker (sessions srv ! i)"
  shows "peers_differ srv'"
  unfolding peers_differ_def using assms(1) [unfolded peers_differ_def] assms(2) by metis

lemma peers_differ_core:
  assumes "peers_differ srv" "same_core srv srv'" "length (sessions srv) = MAX_CLIENTS"
  shows "peers_differ srv'"
  by (rule peers_differ_sub [OF assms(1)])
    (use core_eq_fields [OF same_core_nth [OF assms(2)]] assms(3) in simp)

lemma decision_granted:
  assumes ok: "server_ok srv" and v: "votes_ok srv" and dec: "decision srv tv srv1"
    and act: "tv_slot tv < MAX_CLIENTS" "phase (sessions srv ! tv_slot tv) = ACTIVE"
    and i: "i < MAX_CLIENTS" "tv_leaving tv \<Longrightarrow> i \<noteq> tv_slot tv"
  shows "granted srv1 (sessions srv1 ! i)"
proof (cases "phase (sessions srv ! i) = ACTIVE")
  case False
  then show ?thesis using decision_steady(3) [OF dec, of i] i(1) ok by simp
next
  case True
  define c where c: "c = cluster (sessions srv ! tv_slot tv)"
  note cls = cluster_of_active [OF ok act c]
  have len: "length (sessions srv) = MAX_CLIENTS" "length (clusters srv) = MAX_CLUSTERS" using ok by simp_all
  have g: "granted srv (sessions srv ! i)" using v i(1) by (simp add: votes_ok_def)
  have pl: "0 \<le> cluster (sessions srv ! i)" "nat (cluster (sessions srv ! i)) < MAX_CLUSTERS"
    using server_ok_placed [OF ok i(1)] True by (auto simp: placed_def)
  from dec consider "srv1 = set_cluster srv c ((clusters srv ! nat c)\<lparr>cl_state := WAITING_FOR_STABLE_MEMBERSHIP\<rparr>)"
    | winner where "srv1 = apply_decision srv tv c (clusters srv ! nat c) winner"
    using cls(3) by (auto simp: decision_def c)
  then show ?thesis
  proof cases
    case 1
    with g show ?thesis using cls(2) len by (auto simp: granted_def nth_update)
  next
    case (2 winner)
    have s1: "sessions srv1 ! i = decide_session srv tv c winner (sessions srv ! i)"
      using i(1) len by (simp add: 2 apply_decision_def)
    show ?thesis
    proof (cases "cluster (sessions srv ! i) = c")
      case False
      then have "sessions srv1 ! i = sessions srv ! i" by (simp add: s1 decide_session_def active_in_def)
      moreover have "clusters srv1 ! nat (cluster (sessions srv ! i)) = clusters srv ! nat (cluster (sessions srv ! i))"
        using False pl cls(1) by (auto simp: 2 apply_decision_def nth_update)
      ultimately show ?thesis using g by (simp add: granted_def)
    next
      case same: True
      have "\<not> skip_in_cluster_walk srv (sessions srv ! i) tv"
        using v i act True same unfolding skip_in_cluster_walk_def votes_ok_def peers_differ_def c by metis
      moreover have "quorate_partition (clusters srv1 ! nat c) = (case winner of None \<Rightarrow> [] | Some w \<Rightarrow> w)"
        using cls(2) len by (simp add: 2 apply_decision_def)
      ultimately show ?thesis
        using g True same
        by (auto simp: granted_def s1 decide_session_def active_in_def voted_def vote_cast_def loses_def split: option.splits)
    qed
  qed
qed

lemma decision_votes_ok:
  assumes ok: "server_ok srv" and v: "votes_ok srv" and dec: "decision srv tv srv1"
    and act: "tv_slot tv < MAX_CLIENTS" "phase (sessions srv ! tv_slot tv) = ACTIVE" and tv: "\<not> tv_leaving tv"
  shows "votes_ok srv1"
  using decision_granted [OF ok v dec act] tv peers_differ_core [OF _ decision_frame(1) [OF dec]] v ok
  by (simp add: votes_ok_def)

lemma votes_ok_set_session:
  assumes "votes_ok srv" "length (sessions srv) = MAX_CLIENTS" "slot < MAX_CLIENTS" "granted srv s"
    and "phase s = ACTIVE \<Longrightarrow> phase (sessions srv ! slot) = ACTIVE \<and> cluster s = cluster (sessions srv ! slot) \<and>
      node_id s = node_id (sessions srv ! slot) \<and> tie_breaker s = tie_breaker (sessions srv ! slot)"
  shows "votes_ok (set_session srv slot s)"
proof -
  have "peers_differ (set_session srv slot s)"
    by (rule peers_differ_sub [of srv]) (use assms in \<open>auto simp: votes_ok_def nth_update\<close>)
  with assms(1-4) show ?thesis by (auto simp: votes_ok_def granted_def nth_update)
qed

lemma granted_keeps: "granted srv s \<Longrightarrow> keeps s s' \<Longrightarrow> granted srv s'"
  by (auto simp: granted_def keeps_def role_def list_kept_def)

lemma votes_ok_keeps:
  assumes "votes_ok srv" "length (sessions srv) = MAX_CLIENTS" "slot < MAX_CLIENTS" "keeps (sessions srv ! slot) s'"
  shows "votes_ok (set_session srv slot s')"
  by (rule votes_ok_set_session [OF assms(1-3)])
    (use assms granted_keeps [OF _ assms(4)] in \<open>auto simp: votes_ok_def keeps_def role_def\<close>)


lemma votes_ok_join:
  assumes ok: "server_ok srv" and v: "votes_ok srv" and slot: "slot < MAX_CLIENTS" and ph: "phase (sessions srv ! slot) = WAIT_INIT"
    and r: "refused (sessions srv ! slot) s" and j: "joins srv slot s"
    and f: "find_or_create_cluster srv (cluster_name s) = (srv1, c)" and c: "0 \<le> c"
    and s': "s' = reschedule_dpd (s\<lparr>cluster := c, phase := ACTIVE\<rparr>) now"
    and cl: "cl = clusters srv1 ! nat c"
  shows "votes_ok (set_session (set_cluster srv1 c (cl\<lparr>cl_members := cl_members cl + 1\<rparr>)) slot s')" (is "votes_ok ?srv")
proof -
  have len: "length (sessions srv) = MAX_CLIENTS" "length (clusters srv) = MAX_CLUSTERS" using ok by simp_all
  obtain d where d: "d < MAX_CLUSTERS" "c = int d" and srv1: "sessions srv1 = sessions srv"
    and cls: "clusters srv1 = (clusters srv)[d := cl]"
    and old: "member_states srv c \<noteq> [] \<Longrightarrow> cl = clusters srv ! d \<and> cl_name cl = cluster_name s"
    using f
  proof (cases rule: find_or_create_cases)
    case (found d)
    with that [of d] cl show thesis by simp
  next
    case (created d)
    have "member_states srv c = []" using server_ok_clusters(1) [OF ok created(1)] created by (simp add: cluster_ok_def)
    with created that [of d] cl len show thesis by simp
  qed (use c in simp)
  have mem: "member_states srv c \<noteq> []" if "i < MAX_CLIENTS" "phase (sessions srv ! i) = ACTIVE" "cluster (sessions srv ! i) = c" for i
    using that len set_member_states [of "ff_state (sessions srv ! i)" srv c] by (auto simp: active_in_def)
  have at: "sessions ?srv ! i = (if i = slot then s' else sessions srv ! i)" if "i < MAX_CLIENTS" for i
    using that len by (simp add: srv1 nth_update)
  have new: "granted ?srv s'"
    using server_ok_session [OF ok slot] ph refused_sel [OF r] by (simp add: s' granted_def session_ok_def)
  have "granted ?srv (sessions srv ! i)" if "i < MAX_CLIENTS" for i
  proof (cases "phase (sessions srv ! i) = ACTIVE")
    case True
    have pl: "0 \<le> cluster (sessions srv ! i)" "nat (cluster (sessions srv ! i)) < MAX_CLUSTERS"
      using server_ok_placed [OF ok that] True by (auto simp: placed_def)
    have "quorate_partition (clusters ?srv ! nat (cluster (sessions srv ! i))) = quorate_partition (clusters srv ! nat (cluster (sessions srv ! i)))"
    proof (cases "cluster (sessions srv ! i) = c")
      case same: True
      show ?thesis using old [OF mem [OF that True same]] d len same by (simp add: cls)
    next
      case False
      then show ?thesis using pl d by (auto simp: cls nth_update)
    qed
    with v that show ?thesis by (simp add: votes_ok_def granted_def)
  qed simp
  moreover have agree: "node_id (sessions srv ! i) \<noteq> node_id s' \<and> tie_breaker_eq (tie_breaker s') (tie_breaker (sessions srv ! i))"
    if "i < MAX_CLIENTS" "i \<noteq> slot" "phase (sessions srv ! i) = ACTIVE" "cluster (sessions srv ! i) = c" for i
  proof -
    have "cluster_name (sessions srv ! i) = cluster_name s"
      using cluster_of_active(5) [OF ok that(1,3) refl] old [OF mem [OF that(1,3,4)]] that(4) d by auto
    with j that show ?thesis by (simp add: joins_def s')
  qed
  have "peers_differ ?srv"
    unfolding peers_differ_def
  proof (intro allI impI)
    fix a b assume ab: "a < MAX_CLIENTS" "b < MAX_CLIENTS" "a \<noteq> b" "phase (sessions ?srv ! a) = ACTIVE" "phase (sessions ?srv ! b) = ACTIVE"
      "cluster (sessions ?srv ! a) = cluster (sessions ?srv ! b)"
    have s'c: "cluster s' = c" by (simp add: s')
    consider "a = slot" | "b = slot" | "a \<noteq> slot" "b \<noteq> slot" by blast
    then show "node_id (sessions ?srv ! a) \<noteq> node_id (sessions ?srv ! b) \<and>
        tie_breaker_eq (tie_breaker (sessions ?srv ! a)) (tie_breaker (sessions ?srv ! b))"
    proof cases
      case 1
      then show ?thesis using ab agree [of b] s'c unfolding at [OF ab(1)] at [OF ab(2)] by auto
    next
      case 2
      then show ?thesis using ab agree [of a] s'c unfolding at [OF ab(1)] at [OF ab(2)] by (simp add: tie_breaker_eq_sym)
    next
      case 3
      then show ?thesis using ab v unfolding at [OF ab(1)] at [OF ab(2)] by (simp add: votes_ok_def peers_differ_def)
    qed
  qed
  ultimately show ?thesis using new at by (simp add: votes_ok_def)
qed

lemma granted_ack_waiting: "granted srv s \<Longrightarrow> granted srv (ack_waiting c s)"
  by (cases "active_in s c \<and> ff_state s = SENDING_ACK") (auto simp: granted_def ack_waiting_def voted_def)

lemma granted_cong:
  "(\<And>d. quorate_partition (clusters srv' ! d) = quorate_partition (clusters srv ! d)) \<Longrightarrow> granted srv' s = granted srv s"
  by (simp add: granted_def)

lemma votes_ok_acknowledged:
  assumes v: "votes_ok srv" and ok: "server_ok srv" and act: "slot < MAX_CLIENTS"
    and srv1: "srv1 = set_session srv slot (acknowledged (sessions srv ! slot))"
    and srv2: "sessions srv2 = sessions srv1 \<or> sessions srv2 = map (ack_waiting c) (sessions srv1)"
      "clusters srv2 = (clusters srv)[nat c := (clusters srv ! nat c)\<lparr>cl_state := st\<rparr>]"
  shows "votes_ok srv2"
proof -
  have len: "length (sessions srv) = MAX_CLIENTS" "length (sessions srv1) = MAX_CLIENTS" using ok by (simp_all add: srv1)
  have q: "quorate_partition (clusters srv2 ! d) = quorate_partition (clusters srv ! d)" for d
    by (simp add: srv2(2) nth_update)
  have sess: "sessions srv2 ! i = sessions srv1 ! i \<or> sessions srv2 ! i = ack_waiting c (sessions srv1 ! i)" if "i < MAX_CLIENTS" for i
    using srv2(1) that len by auto
  have sess1: "sessions srv1 ! i = sessions srv ! i \<or> sessions srv1 ! i = acknowledged (sessions srv ! i)" for i
    by (auto simp: srv1 nth_update)
  have "granted srv2 (sessions srv2 ! i)" if "i < MAX_CLIENTS" for i
  proof -
    have "granted srv (sessions srv ! i)" using v that by (simp add: votes_ok_def)
    then have "granted srv (sessions srv1 ! i)" using sess1 [of i] by (auto simp: granted_def)
    then show ?thesis using sess [OF that] granted_ack_waiting granted_cong [OF q] by auto
  qed
  moreover have "peers_differ srv2"
  proof (rule peers_differ_sub [of srv])
    fix i assume "i < MAX_CLIENTS" "phase (sessions srv2 ! i) = ACTIVE"
    then show "phase (sessions srv ! i) = ACTIVE \<and> cluster (sessions srv2 ! i) = cluster (sessions srv ! i) \<and>
        node_id (sessions srv2 ! i) = node_id (sessions srv ! i) \<and> tie_breaker (sessions srv2 ! i) = tie_breaker (sessions srv ! i)"
      using sess [of i] sess1 [of i] by auto
  qed (use v in \<open>simp add: votes_ok_def\<close>)
  ultimately show ?thesis by (simp add: votes_ok_def)
qed


lemma frame_step_votes_ok:
  assumes "frame_step ini srv slot srv'" and ok: "server_ok srv" and v: "votes_ok srv" and slot: "slot < MAX_CLIENTS"
    and once: "ini \<Longrightarrow> phase (sessions srv ! slot) \<noteq> ACTIVE"
  shows "votes_ok srv'"
proof -
  have len: "length (sessions srv) = MAX_CLIENTS" using ok by simp
  have g: "granted srv (sessions srv ! slot)" using v slot by (simp add: votes_ok_def)
  show ?thesis
    using assms(1)
  proof (cases rule: frame_step.cases)
    case stay
    then show ?thesis using v similar_votes by blast
  next
    case (preinit s name)
    have "votes_ok (set_session srv slot (s\<lparr>cluster_name := name, phase := WAIT_INIT\<rparr>))"
      by (rule votes_ok_set_session [OF v len slot]) simp_all
    then show ?thesis using preinit(3) similar_votes by blast
  next
    case (refuse s')
    have "phase s' \<noteq> ACTIVE" using once [OF refuse(3)] refused_sel(1) [OF refuse(1)] by simp
    then have "votes_ok (set_session srv slot s')" by (intro votes_ok_set_session [OF v len slot]) simp_all
    then show ?thesis using refuse(4) similar_votes by blast
  next
    case (join s srv1 c cl s' now)
    from votes_ok_join [OF ok v slot join(2,3,4,5,6,8,7)] show ?thesis using join(9) similar_votes by blast
  next
    case (keep s')
    then show ?thesis using votes_ok_keeps [OF v len slot keep(2)] similar_votes by blast
  next
    case (decide tv srv1 s')
    have "votes_ok srv1" using decision_votes_ok [OF ok v decide(4)] decide(1-3) slot by simp
    from votes_ok_keeps [OF this _ slot decide(5)] decision_slot(4) [OF ok slot decide(1) decide(4,2)]
    show ?thesis using decide(6) similar_votes by blast
  next
    case (acknowledge srv1)
    have "votes_ok srv1"
      by (rule votes_ok_acknowledged [OF v ok slot acknowledge(2), where c = "cluster (sessions srv ! slot)" and
          st = "cl_state (clusters srv ! nat (cluster (sessions srv ! slot)))"]) (simp_all add: acknowledge(2))
    then show ?thesis using acknowledge(5) similar_votes by blast
  next
    case (acknowledge_last srv1 c cl)
    have "votes_ok (set_cluster srv1 c (cl\<lparr>cl_state := Cluster_WAITING_FOR_CHANGE\<rparr>))"
      by (rule votes_ok_acknowledged [OF v ok slot acknowledge_last(2), where c = c and st = Cluster_WAITING_FOR_CHANGE])
        (simp_all add: acknowledge_last(2,4))
    then show ?thesis using acknowledge_last(7) similar_votes by blast
  next
    case (promote srv1 c cl)
    have "votes_ok (set_cluster (srv1\<lparr>sessions := map (ack_waiting c) (sessions srv1)\<rparr>) c
        (cl\<lparr>cl_state := if SENDING_ACK \<in> set (member_states srv1 c) then SENDING_ACKS else Cluster_WAITING_FOR_CHANGE\<rparr>))"
      by (rule votes_ok_acknowledged [OF v ok slot promote(2), where c = c and
          st = "if SENDING_ACK \<in> set (member_states srv1 c) then SENDING_ACKS else Cluster_WAITING_FOR_CHANGE"])
        (simp_all add: promote(2,4))
    then show ?thesis using promote(7) similar_votes by blast
  next
    case schedule
    have "votes_ok (set_session srv slot ((sessions srv ! slot)\<lparr>schedule_disconnect := True\<rparr>))"
      using g by (intro votes_ok_set_session [OF v len slot]) (simp_all add: granted_def)
    with schedule(3) show ?thesis by (simp add: similar_def votes_ok_def granted_def peers_differ_def)
  qed
qed

lemma votes_ok_leave:
  assumes ok: "server_ok srv" and v: "votes_ok srv" and dec: "decision srv tv srv1"
    and act: "slot < MAX_CLIENTS" "phase (sessions srv ! slot) = ACTIVE" and tv: "tv_slot tv = slot" "tv_leaving tv"
    and c: "c = cluster (sessions srv ! slot)"
    and cl: "quorate_partition cl = quorate_partition (clusters srv1 ! nat c) \<or>
      (\<forall>i<MAX_CLIENTS. i \<noteq> slot \<longrightarrow> \<not> active_in (sessions srv ! i) c)"
  shows "votes_ok (set_session (set_cluster srv1 c cl) slot Session)" (is "votes_ok ?srv")
proof -
  have len: "length (sessions srv) = MAX_CLIENTS" "length (sessions srv1) = MAX_CLIENTS"
    using ok decision_frame(2) [OF dec] by simp_all
  have core: "core (sessions srv1 ! i) = core (sessions srv ! i)" if "i < MAX_CLIENTS" for i
    using same_core_nth [OF decision_frame(1) [OF dec]] that len by simp
  have at: "sessions ?srv ! i = (if i = slot then Session else sessions srv1 ! i)" if "i < MAX_CLIENTS" for i
    using that len by (simp add: nth_update)
  have "granted ?srv (sessions ?srv ! i)" if i: "i < MAX_CLIENTS" for i
  proof (cases "i = slot \<or> phase (sessions srv1 ! i) \<noteq> ACTIVE")
    case True
    then show ?thesis using at [OF i] by auto
  next
    case False
    have g: "granted srv1 (sessions srv1 ! i)" using decision_granted [OF ok v dec _ _ i] act tv False by simp
    have pl: "0 \<le> cluster (sessions srv1 ! i)" and "0 \<le> c"
      using server_ok_placed [OF decision_server_ok [OF ok dec] i] act tv False cluster_of_active(1) [OF ok act c] by (auto simp: placed_def)
    have act_i: "active_in (sessions srv ! i) c" if "cluster (sessions srv1 ! i) = c"
      using core_eq_fields [OF core [OF i]] that False by (simp add: active_in_def)
    have "quorate_partition (clusters ?srv ! nat (cluster (sessions srv1 ! i))) =
        quorate_partition (clusters srv1 ! nat (cluster (sessions srv1 ! i)))"
    proof (cases "cluster (sessions srv1 ! i) = c")
      case True
      with cl act_i i False show ?thesis by (auto simp: nth_update)
    next
      case False
      with pl \<open>0 \<le> c\<close> show ?thesis by (auto simp: nth_update)
    qed
    with g at [OF i] False show ?thesis by (simp add: granted_def)
  qed
  moreover have "peers_differ ?srv"
  proof (rule peers_differ_sub [of srv])
    fix i assume i: "i < MAX_CLIENTS" "phase (sessions ?srv ! i) = ACTIVE"
    then have "i \<noteq> slot" using at by auto
    with i at [OF i(1)] core_eq_fields [OF core [OF i(1)]]
    show "phase (sessions srv ! i) = ACTIVE \<and> cluster (sessions ?srv ! i) = cluster (sessions srv ! i) \<and>
        node_id (sessions ?srv ! i) = node_id (sessions srv ! i) \<and> tie_breaker (sessions ?srv ! i) = tie_breaker (sessions srv ! i)"
      by simp
  qed (use v in \<open>simp add: votes_ok_def\<close>)
  ultimately show ?thesis by (simp add: votes_ok_def)
qed

end
