(* ===== verification/Departures.thy ===== *)
theory Departures
  imports Votes
begin

text \<open>
  Leaving a cluster: \<open>leave_cluster\<close> runs a decision without the client that goes and then
  takes it out of its cluster. The lemmas give its result and what it keeps.
\<close>

lemma leave_cluster_inactive:
  "server_ok srv \<Longrightarrow> slot < MAX_CLIENTS \<Longrightarrow> phase (sessions srv ! slot) \<noteq> ACTIVE \<Longrightarrow> leave_cluster srv slot = Some srv"
  by (simp add: leave_cluster_def)

lemma leave_cluster_active:
  assumes ok: "server_ok srv" and act: "slot < MAX_CLIENTS" "phase (sessions srv ! slot) = ACTIVE"
    and c: "c = cluster (sessions srv ! slot)"
  obtains tv srv1 cl where "decision srv tv srv1" "tv_slot tv = slot" "tv_leaving tv"
    "cl = (clusters srv1 ! nat c)\<lparr>cl_members := cl_members (clusters srv1 ! nat c) - 1\<rparr>"
    "leave_cluster srv slot = Some (set_session (set_cluster srv1 c (if cl_members cl \<le> 0 then Cluster else cl)) slot
       ((sessions srv1 ! slot)\<lparr>cluster := -1\<rparr>))"
proof -
  let ?s = "sessions srv ! slot"
  let ?tv = "\<lparr>tv_slot = slot, tv_leaving = True, tv_ring_id = last_ring_id ?s, tv_config = config_list ?s,
    tv_membership = membership_list ?s, tv_heuristics = last_heuristics ?s\<rparr>"
  have tv: "tv_slot ?tv = slot" "tv_leaving ?tv" by simp_all
  obtain srv1 res where do: "ffsplit_do srv ?tv = Some (srv1, NO_ERROR, res)" and dec: "decision srv ?tv srv1"
    using ffsplit_do_active [OF ok act tv(1)] by metis
  note cls = cluster_of_active [OF ok act c]
  note d = decision_slot [OF ok act dec tv(1)]
  have at: "cluster_at srv1 c = Some (clusters srv1 ! nat c)"
    using cls(1,2) decision_frame(3) [OF dec] ok by simp
  show thesis
    by (rule that [OF dec tv refl])
      (use ok act cls(1) do at d(4) in \<open>simp add: leave_cluster_def Let_def flip: c\<close>)
qed

lemma set_session_twice [simp]: "set_session (set_session srv i s) i t = set_session srv i t"
  by (simp add: set_session_def)

lemma leave_members:
  assumes ok: "server_ok srv" and dec: "decision srv tv srv1"
    and act: "slot < MAX_CLIENTS" "phase (sessions srv ! slot) = ACTIVE" and c: "c = cluster (sessions srv ! slot)"
    and tv: "tv_slot tv = slot" and few: "cl_members (clusters srv1 ! nat c) \<le> 1"
  shows "\<forall>i<MAX_CLIENTS. i \<noteq> slot \<longrightarrow> \<not> active_in (sessions srv ! i) c"
proof (intro allI impI notI)
  fix i assume i: "i < MAX_CLIENTS" "i \<noteq> slot" "active_in (sessions srv ! i) c"
  note cls = cluster_of_active [OF ok act c]
  have len: "length (sessions srv) = MAX_CLIENTS" "length (clusters srv) = MAX_CLUSTERS" using ok by simp_all
  have c': "c = cluster (sessions srv ! tv_slot tv)" using c tv by simp
  have "int (length (member_states srv c)) \<le> 1"
    using few decision_clusters(4) [OF dec cls(1) _ c'] cls(2,4) len by (simp add: cluster_ok_def)
  moreover have "Suc (length (member_states (set_session srv slot Session) c)) = length (member_states srv c)"
    using length_member_states_reset [of srv slot c] act c len by (simp add: active_in_def)
  ultimately have "member_states (set_session srv slot Session) c = []" by (simp flip: length_0_conv)
  moreover have "ff_state (sessions srv ! i) \<in> set (member_states (set_session srv slot Session) c)"
    unfolding set_member_states using i len by (intro exI [of _ i]) simp
  ultimately show False by simp
qed

text \<open>What leaving keeps: the other slots, and everything but sessions and clusters.\<close>

lemma leave_cluster_frame:
  assumes ok: "server_ok srv" and slot: "slot < MAX_CLIENTS"
  obtains srv' where "leave_cluster srv slot = Some srv'" "length (sessions srv') = MAX_CLIENTS"
    "server_ok (set_session srv' slot Session)" "votes_ok srv \<Longrightarrow> votes_ok (set_session srv' slot Session)"
    "\<forall>i<MAX_CLIENTS. i \<noteq> slot \<longrightarrow> core (sessions srv' ! i) = core (sessions srv ! i)"
    "pending_close srv' = pending_close srv" "processing srv' = processing srv" "max_rx_frame srv' = max_rx_frame srv"
    "on_state_change srv' = on_state_change srv"
proof (cases "phase (sessions srv ! slot) = ACTIVE")
  case False
  have "votes_ok srv \<Longrightarrow> votes_ok (set_session srv slot Session)"
    by (rule votes_ok_set_session) (use ok slot in simp_all)
  then show thesis
    using that [of srv] leave_cluster_inactive [OF ok slot False] server_ok_reset_inactive [OF ok slot False] ok by simp
next
  case True
  define c where c: "c = cluster (sessions srv ! slot)"
  from leave_cluster_active [OF ok slot True c] obtain tv srv1 cl where dec: "decision srv tv srv1"
    and tv: "tv_slot tv = slot" "tv_leaving tv"
    and cl: "cl = (clusters srv1 ! nat c)\<lparr>cl_members := cl_members (clusters srv1 ! nat c) - 1\<rparr>"
    and leave: "leave_cluster srv slot = Some (set_session (set_cluster srv1 c (if cl_members cl \<le> 0 then Cluster else cl)) slot
       ((sessions srv1 ! slot)\<lparr>cluster := -1\<rparr>))" .
  note fr = decision_frame [OF dec]
  have "votes_ok srv \<Longrightarrow> votes_ok (set_session (set_cluster srv1 c (if cl_members cl \<le> 0 then Cluster else cl)) slot Session)"
    by (rule votes_ok_leave [OF ok _ dec slot True tv c])
      (use leave_members [OF ok dec slot True c tv(1)] in \<open>auto simp: cl\<close>)
  moreover have "\<forall>i<MAX_CLIENTS. i \<noteq> slot \<longrightarrow> core (sessions srv1 ! i) = core (sessions srv ! i)"
    using same_core_nth [OF fr(1)] ok by simp
  ultimately show thesis
    using that [OF leave] server_ok_leave [OF ok dec slot True tv c cl] fr(2-) ok by simp
qed

end
