(* ===== verification/Complete_Frames.thy ===== *)
theory Complete_Frames
  imports Msg
begin

text \<open>
  Complete frames: the length field of the header counts the payload, and the decoder
  accepts the payload. Every reply the builders make is complete, and so is the echo of a
  complete request.
\<close>

text \<open>The frame has a header, the payload follows it, and the header has its length.\<close>

definition framed :: "frame \<Rightarrow> bytes \<Rightarrow> bool" where
  "framed f payload \<longleftrightarrow> MSG_HEADER_LEN \<le> length f \<and> payload = drop MSG_HEADER_LEN f \<and>
     map_option unat (be_get32 f 2) = Some (length payload)"

definition complete :: "frame \<Rightarrow> bool" where
  "complete f \<longleftrightarrow> framed f (drop MSG_HEADER_LEN f) \<and> (\<exists>m. decode_frame f = Some (Some m))"

lemma length_end_frame [simp]: "length (end_frame f) = length f"
  by (simp add: end_frame_def Let_def)

lemma end_frame_length:
  assumes "MSG_HEADER_LEN \<le> length f"
  shows "be_get32 (end_frame f) 2 = Some (of_nat (length f - MSG_HEADER_LEN))"
proof -
  obtain a b c d e g r where f: "f = a # b # c # d # e # g # r"
    using assms by (cases f rule: list.exhaust; cases "tl f"; cases "tl (tl f)"; cases "tl (tl (tl f))"; cases "tl (tl (tl (tl f)))"; cases "tl (tl (tl (tl (tl f))))")
      (auto simp: MSG_HEADER_LEN_def)
  have "end_frame f = be_put32 [a, b] (of_nat (length f - MSG_HEADER_LEN)) @ r"
    by (simp add: f end_frame_def be_put32_def Let_def)
  then show ?thesis using be32.get_put_at [where i = 2 and b = "[a, b]"] by simp
qed

lemma complete_end_frame:
  assumes "MSG_HEADER_LEN \<le> length f" "length f < 2 ^ 32" "decode_frame (end_frame f) = Some (Some m)"
  shows "complete (end_frame f)"
proof -
  have "unat (of_nat (length f - MSG_HEADER_LEN) :: u32) = length f - MSG_HEADER_LEN"
    by (rule unat_of_nat_small) (use assms(2) in simp)
  then show ?thesis
    unfolding complete_def framed_def end_frame_length [OF assms(1)] option.map length_end_frame length_drop
    using assms(1,3) by blast
qed


lemma length_writer:
  "length (begin_frame t) = MSG_HEADER_LEN"
  "length (add_u8 f opt x) = length f + 5" "length (add_u16 f opt y) = length f + 6" "length (add_u32 f opt z) = length f + 8"
  "length (add_ring_id f r) = length f + 16" "length (add_u16_array f opt ys n) = length f + 4 + 2 * min n (length ys)"
proof -
  have "length (foldl be_put16 b xs) = length b + 2 * length xs" for b xs by (induction xs arbitrary: b) (simp_all add: be_put16_def)
  then show "length (add_u16_array f opt ys n) = length f + 4 + 2 * min n (length ys)" by (simp add: add_u16_array_def be_put16_def)
qed (simp_all add: begin_frame_def MSG_HEADER_LEN_def tlv_add_def add_u8_def add_u16_def add_u32_def add_ring_id_def be_put16_def be_put32_def)

lemma complete_replies [simp]:
  "complete (build_vote_info q r v)" "complete (build_preinit_reply ss q tls cert)" "complete (build_server_error ss q code)"
  "complete (build_node_list_reply q ty r v)" "complete (build_heuristics_change_reply ss q v)"
  "complete (build_set_option_reply ss q hs h ks k)" "complete (build_init_reply ss q code msgs opts mq mr)"
proof -
  have built: "complete f" if "f = end_frame g" "MSG_HEADER_LEN \<le> length g" "length g < 2 ^ 32" "decode_frame f = Some (Some m)" for f g m
    using that complete_end_frame by blast
  show "complete (build_vote_info q r v)"
    by (rule built [OF build_vote_info_def [unfolded Let_def] _ _ vote_info_roundtrip]) (simp_all add: length_writer MSG_HEADER_LEN_def)
  show "complete (build_preinit_reply ss q tls cert)"
    by (rule built [OF build_preinit_reply_def [unfolded Let_def] _ _ preinit_reply_roundtrip]) (simp_all add: length_writer MSG_HEADER_LEN_def)
  show "complete (build_server_error ss q code)"
    by (rule built [OF build_server_error_def [unfolded Let_def] _ _ server_error_roundtrip]) (simp_all add: length_writer MSG_HEADER_LEN_def)
  show "complete (build_node_list_reply q ty r v)"
    by (rule built [OF build_node_list_reply_def [unfolded Let_def] _ _ node_list_reply_roundtrip]) (simp_all add: length_writer MSG_HEADER_LEN_def)
  show "complete (build_heuristics_change_reply ss q v)"
    by (rule built [OF build_heuristics_change_reply_def [unfolded Let_def] _ _ heuristics_change_reply_roundtrip]) (simp_all add: length_writer MSG_HEADER_LEN_def)
  show "complete (build_set_option_reply ss q hs h ks k)"
    by (rule built [OF build_set_option_reply_def [unfolded Let_def] _ _ set_option_reply_roundtrip]) (simp_all add: length_writer MSG_HEADER_LEN_def)
  show "complete (build_init_reply ss q code msgs opts mq mr)"
    by (rule built [OF build_init_reply_def [unfolded Let_def] _ _ init_reply_roundtrip])
      (simp_all add: length_writer MSG_HEADER_LEN_def SUPPORTED_MESSAGES_def SUPPORTED_OPTIONS_def SUPPORTED_ALGORITHMS_def)
qed

text \<open>Which options are accepted does not depend on the type of the message.\<close>

lemma decode_opt_type:
  "msg_decode_opt t l d (out\<lparr>m_type := x\<rparr>) = map_option (map_option (\<lambda>m. m\<lparr>m_type := x\<rparr>)) (msg_decode_opt t l d out)"
  by (cases "TlvOpt_of t") (auto simp: msg_decode_opt_def split: Option.bind_splits option.splits)

lemma decode_options_type:
  assumes "\<forall>(t, d)\<in>set ts. length d < 2 ^ 16"
  shows "fold_ub md.decode_option ts (out\<lparr>m_type := x\<rparr>) = map_option (\<lambda>m. m\<lparr>m_type := x\<rparr>) (fold_ub md.decode_option ts out)"
  using assms
proof (induction ts arbitrary: out)
  case (Cons td ts)
  obtain t d where td: "td = (t, d)" by fastforce
  have "msg_decode_opt t (of_nat (length d)) d out = Some (md.decode_option td out)" for out
    using md.body_decode_option [of "of_nat (length d)" d t out] Cons.prems by (simp add: td unat_of_nat_small)
  then have "md.decode_option td (out\<lparr>m_type := x\<rparr>) = map_option (\<lambda>m. m\<lparr>m_type := x\<rparr>) (md.decode_option td out)"
    using decode_opt_type [where t = t and l = "of_nat (length d)" and d = d and out = out and x = x] by simp
  with Cons show ?case by (cases "md.decode_option td out") simp_all
qed simp

lemma decode_type:
  assumes "msg_decode t bs = Some (Some m)"
  shows "msg_decode x bs = Some (Some (m\<lparr>m_type := x\<rparr>))"
proof -
  obtain ts where ts: "parse_tlvs bs = Some ts" and fold: "fold_ub md.decode_option ts (MsgDecoded\<lparr>m_type := t\<rparr>) = Some m"
    using assms by (auto simp: msg_decode_parse bind_eq_Some_conv)
  have "\<forall>(t, d)\<in>set ts. length d < 2 ^ 16" using parse_tlvs_sound [OF ts] by auto
  from decode_options_type [OF this, where out = "MsgDecoded\<lparr>m_type := t\<rparr>" and x = x] show ?thesis using ts fold by (simp add: msg_decode_parse)
qed

lemma complete_echo:
  assumes "framed f payload" "msg_decode t payload = Some (Some m)"
  shows "complete (build_echo_reply f)"
proof -
  have len: "MSG_HEADER_LEN \<le> length f" using assms(1) by (simp add: framed_def)
  note e = echo_reply_roundtrip [OF len]
  have "be_get32 (build_echo_reply f) 2 = be_get32 f 2"
    by (simp add: be_get32_def build_echo_reply_def at_ub_def)
  moreover have "drop MSG_HEADER_LEN (build_echo_reply f) = drop MSG_HEADER_LEN f"
    using arg_cong [OF e(2), of "drop 4"] by (simp add: MSG_HEADER_LEN_def)
  ultimately show ?thesis
    using assms(1) e(1,3) decode_type [OF assms(2)] by (auto simp: complete_def framed_def decode_frame_def)
qed

text \<open>The frame the receive loop cuts out of its buffer.\<close>

lemma framed_slice:
  assumes "be_get32 buf 2 = Some p" "MSG_HEADER_LEN + unat p \<le> length buf"
  shows "framed (take (MSG_HEADER_LEN + unat p) buf) (take (unat p) (drop MSG_HEADER_LEN buf))"
proof -
  have "at_ub (take (MSG_HEADER_LEN + unat p) buf) i = at_ub buf i" if "i < 6" for i
    using that assms(2) by (simp add: at_ub_def MSG_HEADER_LEN_def)
  then have "be_get32 (take (MSG_HEADER_LEN + unat p) buf) 2 = be_get32 buf 2" by (simp add: be_get32_def)
  with assms show ?thesis by (simp add: framed_def drop_take)
qed

end
