(* ===== verification/Wire_Votes.thy ===== *)
theory Wire_Votes
  imports Departures Complete_Frames
begin

text \<open>
  Acknowledgements on the wire. \<open>acks\<close> says when a peer reads a sent frame as an
  acknowledgement; the lemmas follow the frames each handler sends and show that a client
  is acknowledged only when the decision of its cluster has reached that point.
\<close>

subsection \<open>Acknowledgements on the wire\<close>

text \<open>A frame a peer reads as an acknowledgement. Echo replies are excluded: they carry back
  what the peer itself sent.\<close>

definition acks :: "out_event \<Rightarrow> nat \<Rightarrow> bool" where
  "acks e i \<longleftrightarrow> (\<exists>f m. e = SendFrame i f \<and> decode_frame f = Some (Some m) \<and>
     m_type m \<noteq> MsgType_ECHO_REPLY \<and> m_vote m = Vote_ACK)"

definition acked :: "server \<Rightarrow> nat \<Rightarrow> bool" where
  "acked srv i \<longleftrightarrow> i < MAX_CLIENTS \<and> phase (sessions srv ! i) = ACTIVE \<and> last_ack_nack (sessions srv ! i) = Vote_ACK \<and>
     cl_state (clusters srv ! nat (cluster (sessions srv ! i))) = SENDING_ACKS"

text \<open>\<open>srv'\<close> has sent more than \<open>srv\<close>: complete frames to slots and notifications, and whoever was
  acknowledged satisfies \<open>P\<close>. No connection was closed.\<close>

fun is_send :: "out_event \<Rightarrow> bool" where
  "is_send (SendFrame j f) = (j < MAX_CLIENTS \<and> complete f)"
| "is_send (CloseConnection j) = False"
| "is_send StateChange = True"

definition acks_only :: "(nat \<Rightarrow> bool) \<Rightarrow> server \<Rightarrow> server \<Rightarrow> bool" where
  "acks_only P srv srv' \<longleftrightarrow>
     (\<exists>new. outs srv' = outs srv @ new \<and> (\<forall>e\<in>set new. is_send e \<and> (\<forall>i. acks e i \<longrightarrow> P i)))"

lemma acks_only_refl [simp]: "outs srv' = outs srv \<Longrightarrow> acks_only P srv srv'"
  by (simp add: acks_only_def)

lemma acks_only_trans:
  assumes "acks_only P srv srv1" "acks_only P srv1 srv2"
  shows "acks_only P srv srv2"
proof -
  from assms obtain n1 n2 where "outs srv1 = outs srv @ n1" "\<forall>e\<in>set n1. is_send e \<and> (\<forall>i. acks e i \<longrightarrow> P i)"
    "outs srv2 = outs srv1 @ n2" "\<forall>e\<in>set n2. is_send e \<and> (\<forall>i. acks e i \<longrightarrow> P i)" unfolding acks_only_def by blast
  then show ?thesis unfolding acks_only_def by (intro exI [of _ "n1 @ n2"]) auto
qed

lemma acks_only_mono: "acks_only P srv srv' \<Longrightarrow> (\<And>i. P i \<Longrightarrow> Q i) \<Longrightarrow> acks_only Q srv srv'"
  unfolding acks_only_def by blast

lemma acks_vote_info [simp]: "acks (SendFrame j (build_vote_info q r v)) i \<longleftrightarrow> j = i \<and> v = Vote_ACK"
  by (auto simp: acks_def vote_info_roundtrip)

text \<open>None of the other replies is an acknowledgement.\<close>

lemma not_acks [simp]:
  "\<not> acks StateChange i" "\<not> acks (CloseConnection j) i"
  "\<not> acks (SendFrame j (build_server_error ss q code)) i"
  "\<not> acks (SendFrame j (build_preinit_reply ss q tls cert)) i"
  "\<not> acks (SendFrame j (build_init_reply ss q code msgs opts mq mr)) i"
  "\<not> acks (SendFrame j (build_set_option_reply ss q hs h ks k)) i"
  "v \<noteq> Vote_ACK \<Longrightarrow> \<not> acks (SendFrame j (build_node_list_reply q ty ring v)) i"
  "v \<noteq> Vote_ACK \<Longrightarrow> \<not> acks (SendFrame j (build_heuristics_change_reply ss q v)) i"
  by (auto simp: acks_def server_error_roundtrip preinit_reply_roundtrip init_reply_roundtrip set_option_reply_roundtrip
      node_list_reply_roundtrip heuristics_change_reply_roundtrip MsgDecoded_def)

lemma not_acks_echo: "MSG_HEADER_LEN \<le> length f \<Longrightarrow> \<not> acks (SendFrame j (build_echo_reply f)) i"
  using echo_reply_roundtrip(1) [of f] by (auto simp: acks_def decode_frame_def MsgType_of_def msg_types_def dest: msg_decode_bounds(2))

lemma acks_only_plumbing:
  "acks_only P srv srv' \<Longrightarrow> acks_only P srv (notify srv')"
  "acks_only P srv srv' \<Longrightarrow> j < MAX_CLIENTS \<Longrightarrow> complete f \<Longrightarrow> (\<And>i. acks (SendFrame j f) i \<Longrightarrow> P i) \<Longrightarrow> acks_only P srv (send_frame srv' j f)"
  "acks_only P srv srv' \<Longrightarrow> j < MAX_CLIENTS \<Longrightarrow> acks_only P srv (send_err srv' j m code)"
  "acks_only P srv srv' \<Longrightarrow> outs srv'' = outs srv' \<Longrightarrow> acks_only P srv srv''"
proof -
  have snoc: "acks_only P srv srv''" if "acks_only P srv srv'" "outs srv'' = outs srv' @ [e]" "is_send e" "\<And>i. acks e i \<Longrightarrow> P i" for srv'' e
    using that by (intro acks_only_trans [OF that(1)]) (auto simp: acks_only_def)
  assume P: "acks_only P srv srv'"
  show "acks_only P srv (notify srv')"
    using P snoc [OF P, of "notify srv'" StateChange] by (cases "on_state_change srv'") (simp_all add: notify_def)
  show "acks_only P srv (send_frame srv' j f)" if "j < MAX_CLIENTS" "complete f" "\<And>i. acks (SendFrame j f) i \<Longrightarrow> P i"
    by (rule snoc [OF P _ _ that(3)]) (simp_all add: that(1,2))
  show "acks_only P srv (send_err srv' j m code)" if "j < MAX_CLIENTS"
    by (rule snoc [OF P, of _ "SendFrame j (build_server_error (m_seq_number_set m) (m_seq_number m) code)"])
      (use that in \<open>simp_all add: send_err_def\<close>)
  show "acks_only P srv srv''" if "outs srv'' = outs srv'" using P that by (simp add: acks_only_def)
qed

lemma decision_acks_only:
  assumes ok: "server_ok srv" and dec: "decision srv tv srv1" and act: "tv_slot tv < MAX_CLIENTS" "phase (sessions srv ! tv_slot tv) = ACTIVE"
  shows "acks_only (\<lambda>i. acked srv1 i \<and> in_walk srv (cluster (sessions srv ! tv_slot tv)) tv i) srv srv1"
proof -
  define c where c: "c = cluster (sessions srv ! tv_slot tv)"
  note cls = cluster_of_active [OF ok act c]
  have len: "length (sessions srv) = MAX_CLIENTS" "length (clusters srv) = MAX_CLUSTERS" using ok by simp_all
  from dec consider "outs srv1 = outs srv" | winner where "srv1 = apply_decision srv tv c (clusters srv ! nat c) winner"
    by (auto simp: decision_def cluster_at_eq_Some_iff c)
  then show ?thesis
  proof cases
    case 2
    have "acked srv1 i \<and> in_walk srv c tv i" if "i \<in> set (winners srv tv c winner)" "losers srv tv c winner = []" for i
      using that cls(2) len
      by (auto simp: 2 acked_def apply_decision_def winners_def decide_session_def voted_def vote_cast_def in_walk_def active_in_def
        filter_empty_conv)
    then show ?thesis
      unfolding acks_only_def c [symmetric]
      by (intro exI [of _ "if losers srv tv c winner \<noteq> [] then map (vote_event srv tv False) (losers srv tv c winner)
          else map (vote_event srv tv True) (winners srv tv c winner)"])
        (auto simp: 2 apply_decision_def vote_event_def vote_cast_def losers_def winners_def)
  qed simp
qed

subsection \<open>The handlers\<close>

lemma acked_similar: "sessions srv' = sessions srv \<Longrightarrow> clusters srv' = clusters srv \<Longrightarrow> acked srv' = acked srv"
  by (simp add: acked_def fun_eq_iff)

lemma acked_plumbing [simp]:
  "acked (notify srv) = acked srv" "acked (send_frame srv j f) = acked srv" "acked (send_err srv j m code) = acked srv"
  by (rule acked_similar; simp add: send_err_def)+

lemma acked_keeps:
  assumes "acked srv i" "length (sessions srv) = MAX_CLIENTS" "keeps (sessions srv ! slot) s'"
  shows "acked (set_session srv slot s') i"
  using assms by (auto simp: acked_def keeps_def role_def nth_update)

text \<open>The reply to a decision: the sender keeps its role and its last vote.\<close>

lemma decide_acks:
  assumes ok: "server_ok srv" and act: "slot < MAX_CLIENTS" "phase (sessions srv ! slot) = ACTIVE"
    and dec: "decision srv tv srv1" "tv_slot tv = slot" and k: "keeps (sessions srv1 ! slot) s'"
  shows "acks_only (acked (set_session srv1 slot s')) srv (set_session srv1 slot s')"
proof (rule acks_only_plumbing(4))
  note d = decision_slot [OF ok act dec]
  show "acks_only (acked (set_session srv1 slot s')) srv srv1"
    by (rule acks_only_mono [OF decision_acks_only [OF ok dec(1)]]) (use act dec(2) acked_keeps [OF _ d(4) k] in simp_all)
qed simp

lemma handle_vote_info_reply_acks:
  assumes ok: "server_ok srv" and act: "slot < MAX_CLIENTS" "phase (sessions srv ! slot) = ACTIVE"
    and "handle_vote_info_reply srv slot m = Some srv'"
  shows "acks_only (acked srv') srv srv'"
proof (cases "\<not> m_seq_number_set m \<or> m_seq_number m \<noteq> vote_info_seq (sessions srv ! slot)")
  case True
  with assms show ?thesis
    by (cases "m_seq_number_set m") (auto simp: handle_vote_info_reply_def intro!: acks_only_plumbing(3))
next
  case False
  define c where c: "c = cluster (sessions srv ! slot)"
  define srv1 where s1: "srv1 = set_session srv slot (acknowledged (sessions srv ! slot))"
  have len: "length (sessions srv1) = MAX_CLIENTS" "length (clusters srv) = MAX_CLUSTERS" using ok by (simp_all add: s1)
  from False have fresh: "m_seq_number_set m" "m_seq_number m = vote_info_seq (sessions srv ! slot)" by simp_all
  show ?thesis
    using ok act fresh c refl s1
  proof (cases rule: vote_info_reply_cases)
    case promote
    let ?to = "filter (\<lambda>i. active_in (sessions srv1 ! i) c \<and> ff_state (sessions srv1 ! i) = SENDING_ACK) [0..<MAX_CLIENTS]"
    have "acked srv' i" if "i \<in> set ?to" for i
    proof -
      have "SENDING_ACK \<in> set (member_states srv1 c)" using that unfolding set_member_states len(1) by auto
      then show ?thesis
        using promote(3) assms(4) that len cluster_of_active(2) [OF ok act c]
        by (auto simp: acked_def ack_waiting_def voted_def vote_cast_def active_in_def)
    qed
    moreover obtain srv2 where s2: "srv' = notify srv2" "outs srv2 = outs srv @ map (\<lambda>i. SendFrame i (build_vote_info (vote_info_seq (sessions srv1 ! i) + 1) (last_ring_id (sessions srv1 ! i)) Vote_ACK)) ?to"
      using promote(3) assms(4) that by simp
    ultimately have "acks_only (acked srv') srv srv2"
      by (auto simp: acks_only_def vote_event_def)
    then show ?thesis unfolding s2(1) by (rule acks_only_plumbing(1))
  qed (use assms(4) s1 in \<open>auto intro!: acks_only_plumbing(1)\<close>)
qed

lemma handle_node_list_acks:
  assumes ok: "server_ok srv" and act: "slot < MAX_CLIENTS" "phase (sessions srv ! slot) = ACTIVE"
    and m: "length (m_nodes m) \<le> MAX_NODES_PER_LIST" and h: "handle_node_list srv slot m = Some srv'"
  shows "acks_only (acked srv') srv srv'"
proof (cases "\<not> m_node_list_type_set m \<or> \<not> m_seq_number_set m")
  case True
  with assms show ?thesis by (auto simp: handle_node_list_def intro!: acks_only_plumbing(3))
next
  case set: False
  show ?thesis
  proof (cases rule: node_list_decide_cases [of srv slot m "sessions srv ! slot"])
    case (error err)
    with set assms show ?thesis by (auto simp: handle_node_list_def intro!: acks_only_plumbing(3))
  next
    case (later res)
    with set assms show ?thesis by (auto simp: handle_node_list_def Let_def intro!: acks_only_plumbing(1,2))
  next
    case (run tv)
    obtain srv1 res where do: "ffsplit_do srv tv = Some (srv1, NO_ERROR, res)" and dec: "decision srv tv srv1"
      and res: "res \<noteq> Vote_ACK" "res \<noteq> Vote_NACK" using ffsplit_do_active [OF ok act run(2)] .
    note d = decision_slot [OF ok act dec run(2)]
    have "keeps (sessions srv1 ! slot) (record_vote res (node_list_store m (sessions srv1 ! slot)))"
      using res run(4) by (intro record_vote_keeps node_list_store_keeps [OF d(1) act(1) d(2) m]) (simp_all add: d(3))
    from decide_acks [OF ok act dec run(2) this] show ?thesis
      using do run(1) set ok act(1) d(4) h res
      by (auto simp: handle_node_list_def Let_def intro!: acks_only_plumbing(1,2))
  qed
qed

lemma handle_heuristics_change_acks:
  assumes ok: "server_ok srv" and act: "slot < MAX_CLIENTS" "phase (sessions srv ! slot) = ACTIVE"
    and h: "handle_heuristics_change srv slot m = Some srv'"
  shows "acks_only (acked srv') srv srv'"
proof -
  let ?s = "sessions srv ! slot"
  let ?tv = "\<lparr>tv_slot = slot, tv_leaving = False, tv_ring_id = last_ring_id ?s, tv_config = config_list ?s,
    tv_membership = membership_list ?s, tv_heuristics = m_heuristics m\<rparr>"
  obtain srv1 res where do: "ffsplit_do srv ?tv = Some (srv1, NO_ERROR, res)" and dec: "decision srv ?tv srv1"
    and res: "res \<noteq> Vote_ACK" "res \<noteq> Vote_NACK" using ffsplit_do_active [OF ok act, of ?tv] by auto
  have tv: "tv_slot ?tv = slot" by simp
  note d = decision_slot [OF ok act dec tv]
  have "keeps (sessions srv1 ! slot) (record_vote res ((sessions srv1 ! slot)\<lparr>last_heuristics := m_heuristics m\<rparr>))"
    using active_session_ok [OF d(1) act(1) d(2)] res by (intro record_vote_keeps) (simp_all add: keeps_def role_def)
  note D = decide_acks [OF ok act dec tv this]
  show ?thesis
  proof (cases "\<not> m_seq_number_set m \<or> m_heuristics m = Heuristics_UNDEFINED \<or> config_list ?s = [] \<or> membership_list ?s = []")
    case True
    with assms show ?thesis
      by (auto simp: handle_heuristics_change_def Let_def split: if_splits intro!: acks_only_plumbing(1,2,3))
  next
    case False
    with D show ?thesis
      using do ok act(1) d(4) h res by (auto simp: handle_heuristics_change_def Let_def intro!: acks_only_plumbing(1,2))
  qed
qed

lemma find_or_create_cluster_outs: "outs (fst (find_or_create_cluster srv name)) = outs srv"
  by (simp add: find_or_create_cluster_def split: option.split)

lemma init_join_outs: "init_join srv slot s now = Some (code, srv1) \<Longrightarrow> outs srv1 = outs srv"
  using find_or_create_cluster_outs [of srv "cluster_name s"]
  by (auto simp: init_join_def Let_def case_prod_unfold bind_eq_Some_conv split: if_splits)

lemma handle_init_outs:
  assumes "slot < MAX_CLIENTS" "server_ok srv" "handle_init srv slot m now = Some srv'"
  shows "acks_only P srv srv'"
proof -
  obtain code s where c: "init_checks srv slot m (sessions srv ! slot) = (code, s)" by fastforce
  obtain code1 srv1 where r: "(if code = NO_ERROR then init_join srv slot s now else Some (code, set_session srv slot s)) = Some (code1, srv1)"
    and srv': "srv' = notify (send_frame srv1 slot
       (build_init_reply (m_seq_number_set m) (m_seq_number m) code1
         (m_supported_messages_present m) (m_supported_options_present m) (max_rx_frame srv1) (max_rx_frame srv1)))"
    using assms c by (auto simp: handle_init_def bind_eq_Some_conv)
  have "outs srv1 = outs srv" using r by (auto split: if_splits dest: init_join_outs)
  with assms(1) show ?thesis unfolding srv' by (auto intro!: acks_only_plumbing(1,2))
qed

lemma handle_frame_acks:
  assumes ok: "server_ok srv" and run: "processing srv" and slot: "slot < MAX_CLIENTS"
    and fr: "framed frame payload" and h: "handle_frame srv slot type frame payload now = Some srv'"
  shows "acks_only (acked srv') srv srv'"
proof -
  have at: "session_at srv slot = Some (sessions srv ! slot)" using ok slot by simp
  have len: "MSG_HEADER_LEN \<le> length frame" using fr by (simp add: framed_def)
  obtain d where d: "msg_decode type payload = Some d" using msg_decode_defined by blast
  show ?thesis
  proof (cases d)
    case None
    with h d run ok slot have "outs srv' = outs (send_err srv slot MsgDecoded ERROR_DECODING_MSG)"
      by (auto simp: handle_frame_def disconnect_client_def send_err_def Let_def split: if_splits)
    then show ?thesis by (rule acks_only_plumbing(4) [OF acks_only_plumbing(3) [OF acks_only_refl [OF refl] slot]])
  next
    case (Some m)
    have nodes: "length (m_nodes m) \<le> MAX_NODES_PER_LIST" using d Some by (auto dest: msg_decode_bounds)
    have active: "acks_only (acked srv') srv srv'"
      if a: "handle_active srv slot type frame m now = Some srv'" and ph: "phase (sessions srv ! slot) = ACTIVE"
    proof (cases type)
      case MsgType_NODE_LIST
      with a handle_node_list_acks [OF ok slot ph nodes] show ?thesis by (simp add: handle_active_def)
    next
      case MsgType_VOTE_INFO_REPLY
      with a handle_vote_info_reply_acks [OF ok slot ph] show ?thesis by (simp add: handle_active_def)
    next
      case MsgType_HEURISTICS_CHANGE
      with a handle_heuristics_change_acks [OF ok slot ph] show ?thesis by (simp add: handle_active_def)
    next
      case MsgType_SET_OPTION
      with a at slot show ?thesis
        by (auto simp: handle_active_def handle_set_option_def Let_def split: if_splits intro!: acks_only_plumbing(2,3))
    qed (use a slot not_acks_echo [OF len] complete_echo [OF fr d [unfolded Some]] in \<open>auto simp: handle_active_def intro!: acks_only_plumbing(2,3)\<close>)
    show ?thesis
    proof (cases "type = MsgType_INIT \<and> phase (sessions srv ! slot) \<noteq> WAIT_PREINIT")
      case True
      then show ?thesis
        using h d Some at handle_init_outs [OF slot ok] by (simp add: handle_frame_def)
    next
      case False
      then show ?thesis
        using h d Some at active slot
        by (auto simp: handle_frame_def handle_preinit_def split: if_splits intro!: acks_only_plumbing(2,3))
    qed
  qed
qed

subsection \<open>Departures\<close>

lemma leave_cluster_acks:
  assumes ok: "server_ok srv" and slot: "slot < MAX_CLIENTS" and l: "leave_cluster srv slot = Some srv'"
  shows "acks_only (\<lambda>i. i \<noteq> slot \<and> acked (set_session srv' slot Session) i) srv srv'"
proof (cases "phase (sessions srv ! slot) = ACTIVE")
  case False
  with l show ?thesis by (simp add: leave_cluster_inactive [OF ok slot])
next
  case act: True
  define c where c: "c = cluster (sessions srv ! slot)"
  from leave_cluster_active [OF ok slot act c] obtain tv srv1 cl where dec: "decision srv tv srv1"
    and tv: "tv_slot tv = slot" "tv_leaving tv"
    and cl: "cl = (clusters srv1 ! nat c)\<lparr>cl_members := cl_members (clusters srv1 ! nat c) - 1\<rparr>"
    and leave: "leave_cluster srv slot = Some (set_session (set_cluster srv1 c (if cl_members cl \<le> 0 then Cluster else cl)) slot
       ((sessions srv1 ! slot)\<lparr>cluster := -1\<rparr>))" .
  have srv': "srv' = set_session (set_cluster srv1 c (if cl_members cl \<le> 0 then Cluster else cl)) slot
       ((sessions srv1 ! slot)\<lparr>cluster := -1\<rparr>)" using leave l by simp
  have len: "length (sessions srv1) = MAX_CLIENTS" "nat c < length (clusters srv1)"
    using decision_frame(2,3) [OF dec] ok cluster_of_active(2) [OF ok slot act c] by simp_all
  have other: "i \<noteq> slot \<and> acked (set_session srv' slot Session) i" if "acked srv1 i" "in_walk srv c tv i" for i
  proof -
    have i: "i \<noteq> slot" "active_in (sessions srv ! i) c" "i < MAX_CLIENTS"
      using that tv by (auto simp: in_walk_def skip_in_cluster_walk_def acked_def)
    then have "\<not> cl_members (clusters srv1 ! nat c) \<le> 1" using leave_members [OF ok dec slot act c tv(1)] by blast
    moreover have "cluster (sessions srv1 ! i) = c"
      using i ok core_eq_fields [OF same_core_nth [OF decision_frame(1) [OF dec]], of i] by (simp add: active_in_def)
    ultimately show ?thesis using i that(1) len by (simp add: acked_def srv' cl)
  qed
  have "acks_only (\<lambda>i. i \<noteq> slot \<and> acked (set_session srv' slot Session) i) srv srv1"
    by (rule acks_only_mono [OF decision_acks_only [OF ok dec]]) (use slot act tv(1) other in \<open>simp_all flip: c\<close>)
  then show ?thesis by (rule acks_only_plumbing(4)) (simp add: srv')
qed

text \<open>What \<open>acked\<close> means under the invariants.\<close>

lemma acked_safe:
  assumes ok: "server_ok srv" and v: "votes_ok srv" and i: "acked srv i"
  shows "node_id (sessions srv ! i) \<in> node_ids (quorate_partition (clusters srv ! nat (cluster (sessions srv ! i))))"
    and "SENDING_NACK \<notin> set (member_states srv (cluster (sessions srv ! i)))"
proof -
  show "node_id (sessions srv ! i) \<in> node_ids (quorate_partition (clusters srv ! nat (cluster (sessions srv ! i))))"
    using v i by (auto simp: votes_ok_def granted_def acked_def)
  show "SENDING_NACK \<notin> set (member_states srv (cluster (sessions srv ! i)))"
    using cluster_of_active(4) [OF ok _ _ refl] i by (auto simp: acked_def cluster_ok_def)
qed

lemma acks_safe:
  assumes "server_ok srv'" "votes_ok srv'" "acks_only (acked srv') srv srv'"
  shows "\<exists>new. outs srv' = outs srv @ new \<and> (\<forall>e\<in>set new. \<forall>i. acks e i \<longrightarrow> phase (sessions srv' ! i) = ACTIVE \<and>
      node_id (sessions srv' ! i) \<in> node_ids (quorate_partition (clusters srv' ! nat (cluster (sessions srv' ! i)))) \<and>
      SENDING_NACK \<notin> set (member_states srv' (cluster (sessions srv' ! i))))"
proof -
  have "phase (sessions srv' ! i) = ACTIVE \<and>
      node_id (sessions srv' ! i) \<in> node_ids (quorate_partition (clusters srv' ! nat (cluster (sessions srv' ! i)))) \<and>
      SENDING_NACK \<notin> set (member_states srv' (cluster (sessions srv' ! i)))" if "acked srv' i" for i
    using acked_safe [OF assms(1,2) that] that by (simp add: acked_def)
  with assms(3) show ?thesis unfolding acks_only_def by blast
qed

text \<open>Both ways in which votes change, handling a frame and leaving, keep the invariants.\<close>

lemma handle_frame_keeps_votes:
  assumes "server_ok srv" "votes_ok srv" "processing srv" "slot < MAX_CLIENTS"
    and "phase (sessions srv ! slot) \<noteq> FREE" "\<not> schedule_disconnect (sessions srv ! slot)"
    and "type = MsgType_INIT \<longrightarrow> phase (sessions srv ! slot) \<noteq> ACTIVE" and "framed frame payload"
    and "handle_frame srv slot type frame payload now = Some srv'"
  shows "server_ok srv' \<and> votes_ok srv' \<and> acks_only (acked srv') srv srv'"
proof -
  have st: "frame_step (type = MsgType_INIT) srv slot srv'"
    using handle_frame_step [OF assms(1,3-6), of type frame payload now] assms(9) by simp
  show ?thesis
    using frame_step_server_ok [OF st assms(1,4,5)] frame_step_votes_ok [OF st assms(1,2,4)] assms(7) handle_frame_acks [OF assms(1,3,4,8,9)]
    by simp
qed

lemma leave_cluster_keeps_votes:
  assumes "server_ok srv" "votes_ok srv" "slot < MAX_CLIENTS"
    and "map_option (\<lambda>srv1. set_session srv1 slot Session) (leave_cluster srv slot) = Some srv'"
  shows "server_ok srv' \<and> votes_ok srv' \<and> acks_only (acked srv') srv srv'"
proof -
  from assms(4) obtain srv1 where l: "leave_cluster srv slot = Some srv1" "srv' = set_session srv1 slot Session" by auto
  obtain "server_ok srv'" "votes_ok srv'" using leave_cluster_frame [OF assms(1,3)] assms(2) l by (metis option.inject)
  moreover have "acks_only (acked srv') srv srv'"
    using leave_cluster_acks [OF assms(1,3) l(1)] l(2) by (fastforce simp: acks_only_def)
  ultimately show ?thesis by blast
qed

subsection \<open>What a call asks of the transport\<close>

text \<open>\<open>srv'\<close> has asked for more than \<open>srv\<close>: it closed exactly the connections \<open>cs\<close>, and sent
  frames to slots.\<close>

definition emits :: "nat set \<Rightarrow> server \<Rightarrow> server \<Rightarrow> bool" where
  "emits cs srv srv' \<longleftrightarrow> on_state_change srv' = on_state_change srv \<and> (\<exists>new. outs srv' = outs srv @ new \<and>
     (\<forall>e\<in>set new. is_send e \<or> (\<exists>j\<in>cs. e = CloseConnection j)) \<and> (\<forall>j\<in>cs. CloseConnection j \<in> set new))"

lemma acks_only_emits: "acks_only P srv srv' \<Longrightarrow> on_state_change srv' = on_state_change srv \<Longrightarrow> emits {} srv srv'"
  by (auto simp: acks_only_def emits_def)

lemma emits_refl: "outs srv' = outs srv \<Longrightarrow> on_state_change srv' = on_state_change srv \<Longrightarrow> emits {} srv srv'"
  by (simp add: emits_def)

lemma emits_cong:
  "outs srv1 = outs srv \<Longrightarrow> outs srv2 = outs srv' \<Longrightarrow> on_state_change srv1 = on_state_change srv \<Longrightarrow>
   on_state_change srv2 = on_state_change srv' \<Longrightarrow> emits cs srv1 srv2 = emits cs srv srv'"
  by (simp add: emits_def)

lemma emits_trans:
  assumes "emits cs srv srv1" "emits ds srv1 srv2"
  shows "emits (cs \<union> ds) srv srv2"
proof -
  from assms obtain n1 n2 where "outs srv1 = outs srv @ n1" "outs srv2 = outs srv1 @ n2"
    "\<forall>e\<in>set n1. is_send e \<or> (\<exists>j\<in>cs. e = CloseConnection j)" "\<forall>j\<in>cs. CloseConnection j \<in> set n1"
    "\<forall>e\<in>set n2. is_send e \<or> (\<exists>j\<in>ds. e = CloseConnection j)" "\<forall>j\<in>ds. CloseConnection j \<in> set n2"
    "on_state_change srv2 = on_state_change srv"
    unfolding emits_def by auto
  then show ?thesis unfolding emits_def by (intro conjI exI [of _ "n1 @ n2"]) auto
qed

lemma emits_plumbing: "emits {} srv (notify srv)" "emits {slot} srv (close_connection srv slot)"
  "slot < MAX_CLIENTS \<Longrightarrow> emits {} srv (send_err srv slot m code)"
  by (auto simp: emits_def notify_def send_err_def)

text \<open>The callback of the embedder is called.\<close>

definition tells :: "server \<Rightarrow> server \<Rightarrow> bool" where
  "tells srv srv' \<longleftrightarrow> (\<exists>new. outs srv' = outs srv @ new \<and> (on_state_change srv \<longrightarrow> StateChange \<in> set new))"

text \<open>The callback is called unless nothing changed that an embedder can ask for.\<close>

definition told :: "server \<Rightarrow> server \<Rightarrow> bool" where
  "told srv srv' \<longleftrightarrow> tells srv srv' \<or> sessions srv' = sessions srv \<and> clusters srv' = clusters srv \<and> decisions srv' = decisions srv"

lemma told_refl [simp]: "told srv srv"
  by (simp add: told_def)

lemma tells_notify: "emits cs srv srv' \<Longrightarrow> tells srv (notify srv')"
  by (auto simp: tells_def emits_def notify_def)

lemma emits_tells: "emits cs srv srv1 \<Longrightarrow> tells srv1 srv2 \<Longrightarrow> tells srv srv2"
  by (auto simp: tells_def emits_def)

lemma tells_emits: "tells srv srv1 \<Longrightarrow> emits cs srv1 srv2 \<Longrightarrow> tells srv srv2"
  by (auto simp: tells_def emits_def)

lemma told_trans: "told srv srv1 \<Longrightarrow> emits cs srv srv1 \<Longrightarrow> told srv1 srv2 \<Longrightarrow> emits ds srv1 srv2 \<Longrightarrow> told srv srv2"
  unfolding told_def using emits_tells [of cs srv srv1 srv2] tells_emits [of srv srv1 ds srv2] by auto

lemma tells_cong:
  "outs srv1 = outs srv \<Longrightarrow> on_state_change srv1 = on_state_change srv \<Longrightarrow> outs srv2 = outs srv' \<Longrightarrow> tells srv1 srv2 = tells srv srv'"
  by (simp add: tells_def)

end
