(* ===== verification/Entry_Points.thy ===== *)
theory Entry_Points
  imports Wire_Votes
begin

text \<open>
  The entry points of the server as transformers of invariants. The locale
  \<open>server_invariant\<close> takes a predicate of the server that the steps of the protocol, a new
  connection, a departure and the bookkeeping of the receive buffer preserve, and shows
  once that \<open>drain_closes\<close>, \<open>disconnect_client\<close>, \<open>tick\<close>, \<open>on_connect\<close>, \<open>on_disconnected\<close>
  and \<open>on_data\<close> return (no undefined behaviour, no endless loop) and preserve it.
  \<open>fits\<close> restricts the frames a client may send on a connection in a given phase.
\<close>

subsection \<open>The frames in a buffer\<close>

function frames :: "u32 \<Rightarrow> bytes \<Rightarrow> (u16 \<times> bytes) list" where
  "frames max_rx buf =
    (case (be_get16 buf 0, be_get32 buf 2) of
       (Some type, Some plen) \<Rightarrow>
         if plen > max_rx \<or> length buf < MSG_HEADER_LEN + unat plen then []
         else (type, take (unat plen) (drop MSG_HEADER_LEN buf)) # frames max_rx (drop (MSG_HEADER_LEN + unat plen) buf)
     | _ \<Rightarrow> [])"
  by pat_completeness auto
termination
  by (relation "measure (\<lambda>(m, buf). length buf)") (auto simp: MSG_HEADER_LEN_def)

declare frames.simps [simp del]

lemma header_defined: "MSG_HEADER_LEN \<le> length buf \<Longrightarrow> \<exists>t p. be_get16 buf 0 = Some t \<and> be_get32 buf 2 = Some p"
  by (cases buf) (auto simp: be_get16_def be_get32_def MSG_HEADER_LEN_def at_ub_def)

lemma frames_Cons:
  assumes "be_get16 buf 0 = Some t" "be_get32 buf 2 = Some p" "\<not> p > max_rx" "MSG_HEADER_LEN + unat p \<le> length buf"
  shows "frames max_rx buf = (t, take (unat p) (drop MSG_HEADER_LEN buf)) # frames max_rx (drop (MSG_HEADER_LEN + unat p) buf)"
  using assms by (subst frames.simps) simp

lemma frame_step_phase:
  assumes "frame_step False srv slot srv'" and "server_ok srv" "slot < MAX_CLIENTS" "phase (sessions srv ! slot) \<noteq> FREE"
  shows "phase (sessions srv' ! slot) = ACTIVE \<longleftrightarrow> phase (sessions srv ! slot) = ACTIVE"
proof -
  have len: "length (sessions srv) = MAX_CLIENTS" using assms(2) by simp
  show ?thesis
    using assms(1)
  proof (cases rule: frame_step.cases)
    case (decide tv srv1 s')
    then show ?thesis
      using decision_slot [OF assms(2,3) decide(1) decide(4,2)] assms(3) by (auto simp: similar_def keeps_def role_def)
  qed (use assms(3) len in \<open>auto simp: similar_def keeps_def role_def nth_update\<close>)
qed

subsection \<open>Entry points and invariants\<close>

definition reset_rx :: "session \<Rightarrow> session \<Rightarrow> bool" where
  "reset_rx s s' \<longleftrightarrow> (\<exists>buf dl. s' = s\<lparr>rx := buf, deadline_ms := dl\<rparr>)"

lemma reset_rxI: "reset_rx s (s\<lparr>rx := buf\<rparr>)" "reset_rx s (reschedule_dpd (s\<lparr>rx := buf\<rparr>) now)"
proof -
  show "reset_rx s (s\<lparr>rx := buf\<rparr>)"
    unfolding reset_rx_def by (rule exI [of _ buf], rule exI [of _ "deadline_ms s"]) simp
  show "reset_rx s (reschedule_dpd (s\<lparr>rx := buf\<rparr>) now)"
    unfolding reset_rx_def
    by (rule exI [of _ buf], rule exI [of _ "deadline_ms (reschedule_dpd (s\<lparr>rx := buf\<rparr>) now)"]) (simp add: reschedule_dpd_def)
qed

text \<open>Between two calls of the embedder nothing is being processed and no close is pending.\<close>

definition idle :: "server \<Rightarrow> bool" where
  "idle srv \<longleftrightarrow> pending_ok srv \<and> pending_close srv = [] \<and> \<not> processing srv"

text \<open>The deadline of a connection has passed.\<close>

definition expired :: "u64 \<Rightarrow> session \<Rightarrow> bool" where
  "expired now s \<longleftrightarrow> phase s \<noteq> FREE \<and> deadline_ms s \<noteq> 0 \<and> deadline_ms s \<le> now"

text \<open>The connections of the slots \<open>cs\<close> are gone; the other sessions changed at most in their
  voting state.\<close>

definition closes :: "nat set \<Rightarrow> server \<Rightarrow> server \<Rightarrow> bool" where
  "closes cs srv srv' \<longleftrightarrow> (\<forall>i<MAX_CLIENTS. core (sessions srv' ! i) = (if i \<in> cs then Session else core (sessions srv ! i)))"

lemma core_Session [simp]: "core Session = Session"
  by (simp add: core_def Session_def)

lemma closes_empty [simp]: "sessions srv' = sessions srv \<Longrightarrow> closes {} srv srv'"
  by (simp add: closes_def)

lemma closes_trans: "closes cs srv srv1 \<Longrightarrow> closes ds srv1 srv2 \<Longrightarrow> closes (cs \<union> ds) srv srv2"
  by (auto simp: closes_def)

lemma closes_cong: "sessions srv1 = sessions srv \<Longrightarrow> sessions srv2 = sessions srv' \<Longrightarrow> closes cs srv1 srv2 = closes cs srv srv'"
  by (simp add: closes_def)

lemma closes_free:
  assumes "server_ok srv" "phase (sessions srv ! slot) = FREE"
  shows "closes {slot} srv srv"
  using server_ok_session [OF assms(1), of slot] assms(2) by (auto simp: closes_def session_ok_def)

subsection \<open>One pass of the framing loop\<close>

text \<open>When the loop of \<open>on_data\<close> stops, the connection is going away or what is left in the
  buffer is less than one frame of the largest size.\<close>

definition rx_done :: "server \<Rightarrow> nat \<Rightarrow> bool" where
  "rx_done srv slot \<longleftrightarrow> phase (sessions srv ! slot) = FREE \<or> schedule_disconnect (sessions srv ! slot) \<or>
     length (rx (sessions srv ! slot)) < MSG_HEADER_LEN + unat (max_rx_frame srv)"

definition same_rx :: "nat \<Rightarrow> server \<Rightarrow> server \<Rightarrow> bool" where
  "same_rx slot srv srv' \<longleftrightarrow> (\<forall>i<MAX_CLIENTS. i \<noteq> slot \<longrightarrow> rx (sessions srv' ! i) = rx (sessions srv ! i) \<and>
     schedule_disconnect (sessions srv' ! i) = schedule_disconnect (sessions srv ! i))"

definition same_conns :: "server \<Rightarrow> server \<Rightarrow> bool" where
  "same_conns srv srv' \<longleftrightarrow> (\<forall>i<MAX_CLIENTS. phase (sessions srv' ! i) = FREE \<longleftrightarrow> phase (sessions srv ! i) = FREE)"

lemma on_data_step_cases:
  assumes ok: "server_ok srv" and run: "processing srv" and slot: "slot < MAX_CLIENTS"
  obtains (stop) "on_data_step srv slot now = Some (Inl srv)" "rx_done srv slot"
  | (long) srv1 where "phase (sessions srv ! slot) \<noteq> FREE" "\<not> schedule_disconnect (sessions srv ! slot)"
      "srv1 = (set_session (send_err srv slot MsgDecoded MESSAGE_TOO_LONG) slot ((sessions srv ! slot)\<lparr>schedule_disconnect := True\<rparr>))
         \<lparr>pending_close := pending_close srv @ [slot]\<rparr>"
      "on_data_step srv slot now = Some (Inl srv1)"
  | (frame) t p srv1 where "phase (sessions srv ! slot) \<noteq> FREE" "\<not> schedule_disconnect (sessions srv ! slot)"
      "be_get16 (rx (sessions srv ! slot)) 0 = Some t" "be_get32 (rx (sessions srv ! slot)) 2 = Some p" "\<not> p > max_rx_frame srv"
      "MSG_HEADER_LEN + unat p \<le> length (rx (sessions srv ! slot))"
      "frame_step (MsgType_of t = MsgType_INIT) srv slot srv1" "emits {} srv srv1"
      "on_data_step srv slot now = Some (Inr (set_session srv1 slot
         ((sessions srv1 ! slot)\<lparr>rx := drop (MSG_HEADER_LEN + unat p) (rx (sessions srv ! slot))\<rparr>)))"
proof -
  let ?s = "sessions srv ! slot"
  have at: "session_at srv slot = Some ?s" using ok slot by simp
  show thesis
  proof (cases "phase ?s = FREE \<or> schedule_disconnect ?s \<or> length (rx ?s) < MSG_HEADER_LEN")
    case True
    with at show thesis by (intro stop) (auto simp: on_data_step_def rx_done_def)
  next
    case False
    then obtain t p where h: "be_get16 (rx ?s) 0 = Some t" "be_get32 (rx ?s) 2 = Some p"
      using header_defined [of "rx ?s"] by auto
    have conn: "phase ?s \<noteq> FREE" "\<not> schedule_disconnect ?s" "\<not> length (rx ?s) < MSG_HEADER_LEN" using False by simp_all
    consider (lng) "p > max_rx_frame srv" | (wait) "\<not> p > max_rx_frame srv" "length (rx ?s) < MSG_HEADER_LEN + unat p"
      | (frm) "\<not> p > max_rx_frame srv" "MSG_HEADER_LEN + unat p \<le> length (rx ?s)" by linarith
    then show thesis
    proof cases
      case wait
      then have "unat p \<le> unat (max_rx_frame srv)" by (simp add: not_less word_le_nat_alt)
      with wait conn at h show thesis by (intro stop) (auto simp: on_data_step_def rx_done_def)
    next
      case lng
      let ?e = "send_err srv slot MsgDecoded MESSAGE_TOO_LONG"
      have "disconnect_client ?e slot = Some ((set_session ?e slot (?s\<lparr>schedule_disconnect := True\<rparr>))\<lparr>pending_close := pending_close srv @ [slot]\<rparr>)"
        using conn ok slot run by (simp add: disconnect_client_def Let_def session_at_def send_err_def)
      with lng conn at h show thesis by (intro long) (auto simp: on_data_step_def)
    next
      case frm
      obtain srv1 where hf: "handle_frame srv slot (MsgType_of t) (take (MSG_HEADER_LEN + unat p) (rx ?s))
          (take (unat p) (drop MSG_HEADER_LEN (rx ?s))) now = Some srv1"
        and st: "frame_step (MsgType_of t = MsgType_INIT) srv slot srv1"
        using handle_frame_step [OF ok run slot conn(1,2)] by blast
      have "rx (sessions srv1 ! slot) = rx ?s" "server_ok srv1"
        using frame_step_steady [OF st ok slot conn(1) slot] frame_step_server_ok [OF st ok slot conn(1)] by (simp_all add: steady_def)
      moreover have "emits {} srv srv1"
        using handle_frame_acks [OF ok run slot framed_slice [OF h(2) frm(2)] hf] frame_step_frame(3) [OF st] by (simp add: acks_only_emits)
      ultimately show thesis
        using conn frm at h hf st slot by (intro frame [OF conn(1,2) h frm st]) (simp_all add: on_data_step_def)
    qed
  qed
qed

text \<open>Closing the scheduled connections leaves every buffer bounded.\<close>

definition rx_bounded :: "server \<Rightarrow> bool" where
  "rx_bounded srv \<longleftrightarrow> (\<forall>i<MAX_CLIENTS. length (rx (sessions srv ! i)) < MSG_HEADER_LEN + unat (max_rx_frame srv))"

lemma closes_rx:
  assumes "closes cs srv srv'" "i < MAX_CLIENTS"
  shows "rx (sessions srv' ! i) = (if i \<in> cs then [] else rx (sessions srv ! i))"
proof -
  have "core (sessions srv' ! i) = core (if i \<in> cs then Session else sessions srv ! i)" using assms by (simp add: closes_def)
  from core_eq_fields(19) [OF this] show ?thesis by (simp add: Session_def)
qed

lemma closes_phase:
  assumes "closes cs srv srv'" "i < MAX_CLIENTS"
  shows "phase (sessions srv' ! i) = FREE \<longleftrightarrow> phase (sessions srv ! i) = FREE \<or> i \<in> cs"
proof -
  have "core (sessions srv' ! i) = core (if i \<in> cs then Session else sessions srv ! i)" using assms by (simp add: closes_def)
  from core_eq_fields(1) [OF this] show ?thesis by (simp add: Session_def)
qed

lemma closes_rx_bounded: "closes cs srv srv' \<Longrightarrow> max_rx_frame srv' = max_rx_frame srv \<Longrightarrow> rx_bounded srv \<Longrightarrow> rx_bounded srv'"
  by (simp add: rx_bounded_def closes_rx MSG_HEADER_LEN_def)

lemma rx_bounded_drain:
  assumes ok: "server_ok srv" and pend: "pending_ok srv" and "rx_done srv slot" and slot: "slot < MAX_CLIENTS"
    and cs: "closes (set (pending_close srv)) srv srv'"
    and other: "\<And>j. j < MAX_CLIENTS \<Longrightarrow> j \<noteq> slot \<Longrightarrow> length (rx (sessions srv ! j)) < MSG_HEADER_LEN + unat (max_rx_frame srv)"
    and max: "max_rx_frame srv' = max_rx_frame srv"
  shows "rx_bounded srv'"
proof -
  have "length (rx (sessions srv ! slot)) < MSG_HEADER_LEN + unat (max_rx_frame srv)" if "slot \<notin> set (pending_close srv)"
    using assms(3) that pend slot server_ok_session [OF ok slot]
    by (auto simp: rx_done_def pending_ok_def session_ok_def Session_def MSG_HEADER_LEN_def)
  with other show ?thesis by (auto simp: rx_bounded_def max closes_rx [OF cs] MSG_HEADER_LEN_def)
qed

subsection \<open>Invariants\<close>

locale server_invariant =
  fixes inv :: "server \<Rightarrow> bool"
    and fits :: "phase \<Rightarrow> (u16 \<times> bytes) list \<Rightarrow> bool"
  assumes inv_server_ok: "inv srv \<Longrightarrow> server_ok srv"
    and inv_cong: "sessions srv' = sessions srv \<Longrightarrow> clusters srv' = clusters srv \<Longrightarrow> inv srv' = inv srv"
    and inv_reset_rx: "inv srv \<Longrightarrow> slot < MAX_CLIENTS \<Longrightarrow> phase (sessions srv ! slot) \<noteq> FREE \<Longrightarrow>
      reset_rx (sessions srv ! slot) s \<Longrightarrow> inv (set_session srv slot s)"
    and inv_connect: "inv srv \<Longrightarrow> slot < MAX_CLIENTS \<Longrightarrow> phase (sessions srv ! slot) = FREE \<Longrightarrow>
      inv (set_session srv slot (Session\<lparr>phase := WAIT_PREINIT, peer := name, deadline_ms := dl\<rparr>))"
    and inv_leave: "inv srv \<Longrightarrow> slot < MAX_CLIENTS \<Longrightarrow> leave_cluster srv slot = Some srv' \<Longrightarrow>
      inv (set_session srv' slot Session)"
    and inv_frame: "inv srv \<Longrightarrow> slot < MAX_CLIENTS \<Longrightarrow> phase (sessions srv ! slot) \<noteq> FREE \<Longrightarrow>
      fits (phase (sessions srv ! slot)) ((t, payload) # fs) \<Longrightarrow>
      frame_step (MsgType_of t = MsgType_INIT) srv slot srv' \<Longrightarrow> inv srv'"
    and inv_schedule: "inv srv \<Longrightarrow> slot < MAX_CLIENTS \<Longrightarrow> phase (sessions srv ! slot) \<noteq> FREE \<Longrightarrow>
      inv (set_session srv slot ((sessions srv ! slot)\<lparr>schedule_disconnect := True\<rparr>))"
    and fits_frame: "fits ph ((t, payload) # fs) \<Longrightarrow>
      (MsgType_of t \<noteq> MsgType_INIT \<Longrightarrow> ph' = ACTIVE \<longleftrightarrow> ph = ACTIVE) \<Longrightarrow> fits ph' fs"
begin

lemma inv_plumbing [simp]:
  "inv (send_frame srv i f) = inv srv" "inv (send_err srv i m e) = inv srv" "inv (close_connection srv i) = inv srv"
  "inv (notify srv) = inv srv" "inv (srv\<lparr>processing := b\<rparr>) = inv srv" "inv (srv\<lparr>pending_close := p\<rparr>) = inv srv"
  by (rule inv_cong; simp add: send_err_def)+

text \<open>A popped slot leaves its cluster and is reset; the remaining flags agree with the list.\<close>

lemma close_step:
  assumes I: "inv srv" and pend: "pending_ok srv" and ne: "pending_close srv = ps @ [slot]"
  obtains srv' where "leave_cluster (srv\<lparr>pending_close := ps\<rparr>) slot = Some srv'" "phase (sessions srv ! slot) \<noteq> FREE"
    "inv (set_session srv' slot Session)" "pending_ok (set_session srv' slot Session)" "pending_close srv' = ps"
    "processing srv' = processing srv" "max_rx_frame srv' = max_rx_frame srv" "closes {slot} srv (set_session srv' slot Session)" "emits {} srv srv'"
proof -
  let ?srv = "srv\<lparr>pending_close := ps\<rparr>"
  have slot: "slot < MAX_CLIENTS" and sched: "schedule_disconnect (sessions srv ! slot)" and dist: "distinct (ps @ [slot])"
    using pend ne by (auto simp: pending_ok_def)
  have ok: "server_ok ?srv" using I inv_server_ok by simp
  have "sessions srv ! slot \<noteq> Session" using sched by (auto simp: Session_def)
  then have ph: "phase (sessions srv ! slot) \<noteq> FREE"
    using server_ok_session [OF ok slot] by (auto simp: session_ok_def)
  obtain srv' where l: "leave_cluster ?srv slot = Some srv'" and len: "length (sessions srv') = MAX_CLIENTS"
    and core: "\<forall>i<MAX_CLIENTS. i \<noteq> slot \<longrightarrow> core (sessions srv' ! i) = core (sessions ?srv ! i)"
    and fr: "pending_close srv' = pending_close ?srv" "processing srv' = processing ?srv" "max_rx_frame srv' = max_rx_frame ?srv"
      "on_state_change srv' = on_state_change ?srv"
    using leave_cluster_frame [OF ok slot] by metis
  have flag: "schedule_disconnect ((sessions srv')[slot := Session] ! i) =
      (i \<noteq> slot \<and> schedule_disconnect (sessions srv ! i))" if "i < MAX_CLIENTS" for i
    using that len core core_eq_fields(18) [of "sessions srv' ! i" "sessions srv ! i"] by (cases "i = slot") simp_all
  have "pending_ok (set_session srv' slot Session)"
    using pend dist unfolding pending_ok_def ne by (auto simp: flag fr)
  moreover have "inv (set_session srv' slot Session)" using inv_leave [OF _ slot l] I by simp
  moreover have "closes {slot} srv (set_session srv' slot Session)"
    using core len by (auto simp: closes_def nth_update)
  moreover have "emits {} srv srv'"
    using acks_only_emits [OF leave_cluster_acks [OF ok slot l] fr(4)] emits_cong [of ?srv srv srv' srv'] by simp
  ultimately show thesis using that [OF l ph] fr by simp
qed

lemma drain_loop_inv:
  assumes "inv srv" "pending_ok srv"
  shows "\<exists>srv'. drain_loop srv = Some srv' \<and> inv srv' \<and> pending_ok srv' \<and> pending_close srv' = [] \<and>
    processing srv' = processing srv \<and> max_rx_frame srv' = max_rx_frame srv \<and> closes (set (pending_close srv)) srv srv' \<and>
    emits (set (pending_close srv)) srv srv'"
  using assms
proof (induction "length (pending_close srv)" arbitrary: srv)
  case 0
  then show ?case by (subst drain_loop.simps) (simp add: emits_refl)
next
  case (Suc n)
  then obtain ps slot where ne: "pending_close srv = ps @ [slot]" by (cases "pending_close srv" rule: rev_cases) auto
  obtain srv' where l: "leave_cluster (srv\<lparr>pending_close := ps\<rparr>) slot = Some srv'" and ph: "phase (sessions srv ! slot) \<noteq> FREE"
    and I: "inv (set_session srv' slot Session)" "pending_ok (set_session srv' slot Session)" and fr: "pending_close srv' = ps"
      "processing srv' = processing srv" "max_rx_frame srv' = max_rx_frame srv" and cs: "closes {slot} srv (set_session srv' slot Session)" and em: "emits {} srv srv'"
    using close_step [OF Suc.prems ne] .
  let ?srv = "close_connection (set_session srv' slot Session) slot"
  have p: "pending_ok ?srv" using I(2) by (simp add: pending_ok_def)
  have "\<exists>srv'. drain_loop ?srv = Some srv' \<and> inv srv' \<and> pending_ok srv' \<and> pending_close srv' = [] \<and>
    processing srv' = processing ?srv \<and> max_rx_frame srv' = max_rx_frame ?srv \<and> closes (set (pending_close ?srv)) ?srv srv' \<and>
    emits (set (pending_close ?srv)) ?srv srv'"
    using Suc.hyps(2) I(1) p by (intro Suc.hyps(1)) (simp_all add: fr ne)
  then obtain srv2 where s2: "drain_loop ?srv = Some srv2" "inv srv2" "pending_ok srv2" "pending_close srv2 = []"
    "processing srv2 = processing srv" "max_rx_frame srv2 = max_rx_frame srv" and c2: "closes (set ps) ?srv srv2"
    and e2: "emits (set ps) ?srv srv2"
    using fr by auto
  have "emits {slot} srv ?srv"
    using emits_trans [OF em, of "{slot}" ?srv] emits_plumbing(2) [where srv = "set_session srv' slot Session" and slot = slot]
      emits_cong [of srv' "set_session srv' slot Session" ?srv ?srv] by simp
  from emits_trans [OF this e2] have "emits (set (pending_close srv)) srv srv2" using ne by simp
  moreover from c2 have "closes (set (pending_close srv)) srv srv2"
    using closes_trans [OF cs, of "set ps" srv2] closes_cong [of ?srv "set_session srv' slot Session" srv2 srv2] ne by simp
  moreover have "slot < MAX_CLIENTS" using Suc.prems(2) ne by (auto simp: pending_ok_def)
  ultimately show ?case
    using ne ph l s2 inv_server_ok [OF Suc.prems(1)] by (subst drain_loop.simps) simp
qed


definition quiet :: "server \<Rightarrow> bool" where
  "quiet srv \<longleftrightarrow> inv srv \<and> idle srv"

lemma drain_closes_inv:
  assumes "inv srv" "pending_ok srv"
  shows "\<exists>srv'. drain_closes srv = Some srv' \<and> quiet srv' \<and> max_rx_frame srv' = max_rx_frame srv \<and>
    closes (set (pending_close srv)) srv srv' \<and> emits (set (pending_close srv)) srv srv' \<and> tells srv srv'"
proof -
  have "pending_ok (srv\<lparr>processing := True\<rparr>)" using assms(2) by (simp add: pending_ok_def)
  then obtain srv' where s': "drain_loop (srv\<lparr>processing := True\<rparr>) = Some srv'" "inv srv'" "pending_ok srv'" "pending_close srv' = []"
    "max_rx_frame srv' = max_rx_frame srv" "closes (set (pending_close srv)) (srv\<lparr>processing := True\<rparr>) srv'"
    and e: "emits (set (pending_close srv)) (srv\<lparr>processing := True\<rparr>) srv'"
    using drain_loop_inv [of "srv\<lparr>processing := True\<rparr>"] assms(1) by auto
  have "emits (set (pending_close srv)) srv (notify (srv'\<lparr>processing := False\<rparr>))"
    using emits_trans [OF e, of "{}" "notify (srv'\<lparr>processing := False\<rparr>)"] emits_plumbing(1) [of "srv'\<lparr>processing := False\<rparr>"]
    by (simp add: emits_def)
  moreover have "tells srv (notify (srv'\<lparr>processing := False\<rparr>))"
    using e by (intro tells_notify [of "set (pending_close srv)"]) (simp add: emits_def)
  ultimately show ?thesis using s' by (simp add: drain_closes_def quiet_def idle_def pending_ok_def closes_def)
qed

lemma schedule_pending:
  assumes "server_ok srv" "pending_ok srv" "slot < MAX_CLIENTS" "\<not> schedule_disconnect (sessions srv ! slot)"
  shows "pending_ok ((set_session srv slot ((sessions srv ! slot)\<lparr>schedule_disconnect := True\<rparr>))\<lparr>pending_close := pending_close srv @ [slot]\<rparr>)"
  using assms by (auto simp: pending_ok_def nth_update)

lemma disconnect_inv:
  assumes "quiet srv" "slot < MAX_CLIENTS"
  shows "\<exists>srv'. disconnect_client srv slot = Some srv' \<and> quiet srv' \<and> max_rx_frame srv' = max_rx_frame srv \<and>
    closes {slot} srv srv' \<and> emits (if phase (sessions srv ! slot) = FREE then {} else {slot}) srv srv' \<and> told srv srv'"
proof (cases "phase (sessions srv ! slot) = FREE \<or> schedule_disconnect (sessions srv ! slot)")
  case True
  then have "phase (sessions srv ! slot) = FREE" using assms by (auto simp: quiet_def idle_def pending_ok_def)
  with assms show ?thesis
    using closes_free [of srv slot] inv_server_ok by (auto simp: disconnect_client_def quiet_def idle_def emits_refl)
next
  case False
  let ?srv = "(set_session srv slot ((sessions srv ! slot)\<lparr>schedule_disconnect := True\<rparr>))\<lparr>pending_close := pending_close srv @ [slot]\<rparr>"
  have q: "inv srv" "pending_ok srv" "\<not> processing srv" using assms(1) by (simp_all add: quiet_def idle_def)
  have I: "inv ?srv" using inv_schedule [OF q(1) assms(2)] False by simp
  have p: "pending_ok ?srv" using schedule_pending [OF inv_server_ok [OF q(1)] q(2) assms(2)] False by simp
  have none: "pending_close srv = []" using assms(1) by (simp add: quiet_def idle_def)
  obtain srv' where s': "drain_closes ?srv = Some srv'" "quiet srv'" "max_rx_frame srv' = max_rx_frame srv" "closes {slot} ?srv srv'"
    "emits {slot} srv srv'" "told srv srv'"
    using drain_closes_inv [OF I p] none by (auto simp: emits_def told_def tells_def)
  have "closes {slot} srv srv'" using s'(4) inv_server_ok [OF q(1)] by (auto simp: closes_def nth_update)
  with s' show ?thesis
    using False inv_server_ok [OF q(1)] assms(2) q(3) by (simp add: disconnect_client_def Let_def)
qed

lemma tick_prefix:
  assumes "quiet srv" "k \<le> MAX_CLIENTS"
  shows "\<exists>srv'. fold_ub (tick_slot now) [0..<k] srv = Some srv' \<and> quiet srv' \<and> max_rx_frame srv' = max_rx_frame srv \<and>
    closes {i. i < k \<and> expired now (sessions srv ! i)} srv srv' \<and> emits {i. i < k \<and> expired now (sessions srv ! i)} srv srv' \<and>
    told srv srv'"
  using assms(2)
proof (induction k)
  case 0
  then show ?case using assms(1) by (simp add: closes_def emits_refl)
next
  case (Suc k)
  then obtain srv1 where s1: "fold_ub (tick_slot now) [0..<k] srv = Some srv1" "quiet srv1" "max_rx_frame srv1 = max_rx_frame srv"
    and c1: "closes {i. i < k \<and> expired now (sessions srv ! i)} srv srv1"
    and e1: "emits {i. i < k \<and> expired now (sessions srv ! i)} srv srv1" and t1: "told srv srv1" by auto
  have k: "k < MAX_CLIENTS" using Suc.prems by simp
  have at: "session_at srv1 k = Some (sessions srv1 ! k)" using s1(2) k inv_server_ok by (simp add: quiet_def)
  have "core (sessions srv1 ! k) = core (sessions srv ! k)" using c1 k by (simp add: closes_def)
  then have same: "expired now (sessions srv1 ! k) = expired now (sessions srv ! k)"
    by (metis core_eq_fields(1) core_eq_fields(17) expired_def)
  have flag: "\<not> schedule_disconnect (sessions srv1 ! k)" using s1(2) k by (simp add: quiet_def idle_def pending_ok_def)
  have step: "fold_ub (tick_slot now) [0..<Suc k] srv = (if expired now (sessions srv ! k) then disconnect_client srv1 k else Some srv1)"
    using at flag s1(1) unfolding same [symmetric]
    by (cases "disconnect_client srv1 k") (simp_all add: fold_ub_append tick_slot_def expired_def)
  have less: "{i. i < Suc k \<and> expired now (sessions srv ! i)} =
      {i. i < k \<and> expired now (sessions srv ! i)} \<union> (if expired now (sessions srv ! k) then {k} else {})"
    by (auto simp: less_Suc_eq)
  show ?case
  proof (cases "expired now (sessions srv ! k)")
    case True
    then have "phase (sessions srv1 ! k) \<noteq> FREE" using same by (simp add: expired_def)
    then obtain srv2 where "disconnect_client srv1 k = Some srv2" "quiet srv2" "max_rx_frame srv2 = max_rx_frame srv1" "closes {k} srv1 srv2"
      "emits {k} srv1 srv2" "told srv1 srv2"
      using disconnect_inv [OF s1(2) k] by auto
    then show ?thesis
      using s1 True closes_trans [OF c1, of "{k}" srv2] emits_trans [OF e1, of "{k}" srv2] told_trans [OF t1 e1, of srv2 "{k}"]
      unfolding step less by simp
  next
    case False
    then show ?thesis using s1 c1 e1 t1 unfolding step less by simp
  qed
qed

lemma tick_inv:
  assumes "quiet srv"
  shows "\<exists>srv'. tick srv now = Some srv' \<and> quiet srv' \<and> max_rx_frame srv' = max_rx_frame srv \<and>
    closes {i. i < MAX_CLIENTS \<and> expired now (sessions srv ! i)} srv srv' \<and>
    emits {i. i < MAX_CLIENTS \<and> expired now (sessions srv ! i)} srv srv' \<and> told srv srv'"
  unfolding tick_def using assms order_refl by (rule tick_prefix)

lemma connect_inv:
  assumes "quiet srv"
  shows "quiet (fst (on_connect srv now name))" "max_rx_frame (fst (on_connect srv now name)) = max_rx_frame srv"
    "told srv (fst (on_connect srv now name))"
proof -
  have q: "inv srv" "pending_ok srv" "pending_close srv = []" "\<not> processing srv" using assms by (simp_all add: quiet_def idle_def)
  have len: "length (sessions srv) = MAX_CLIENTS" using inv_server_ok [OF q(1)] by simp
  let ?find = "List.find (\<lambda>i. phase (sessions srv ! i) = FREE) [0..<MAX_CLIENTS]"
  show "quiet (fst (on_connect srv now name))"
  proof (cases ?find)
    case (Some i)
    then have i: "i < MAX_CLIENTS" "phase (sessions srv ! i) = FREE" by (auto simp: find_Some_iff)
    let ?s = "Session\<lparr>phase := WAIT_PREINIT, peer := name, deadline_ms := now + PREACTIVE_TIMEOUT_MS\<rparr>"
    have "\<not> schedule_disconnect ?s" by (simp add: Session_def)
    then have "pending_ok (set_session srv i ?s)" using q(2,3) len by (auto simp: pending_ok_def nth_update)
    with Some inv_connect [OF q(1) i] q show ?thesis by (simp add: on_connect_def quiet_def idle_def pending_ok_def)
  qed (use assms in \<open>simp add: on_connect_def\<close>)
  show "max_rx_frame (fst (on_connect srv now name)) = max_rx_frame srv"
    by (simp add: on_connect_def split: option.split)
  show "told srv (fst (on_connect srv now name))"
    by (auto simp: on_connect_def told_def tells_def notify_def split: option.split)
qed

lemma disconnected_inv:
  assumes "quiet srv"
  shows "\<exists>srv'. on_disconnected srv slot = Some srv' \<and> quiet srv' \<and> max_rx_frame srv' = max_rx_frame srv \<and>
    closes {i. int i = slot} srv srv' \<and> emits {} srv srv' \<and> told srv srv'"
proof (cases "slot < 0 \<or> slot \<ge> int MAX_CLIENTS \<or> phase (sessions srv ! nat slot) = FREE")
  case True
  have "closes {i. int i = slot} srv srv"
  proof (cases "slot < 0 \<or> slot \<ge> int MAX_CLIENTS")
    case False
    then have "{i. int i = slot} = {nat slot}" by auto
    with True False closes_free [of srv "nat slot"] assms inv_server_ok show ?thesis by (auto simp: quiet_def)
  qed (auto simp: closes_def)
  with True assms show ?thesis using inv_server_ok by (auto simp: on_disconnected_def quiet_def idle_def emits_refl)
next
  case False
  define i where "i = nat slot"
  have i: "i < MAX_CLIENTS" "\<not> (slot < 0 \<or> slot \<ge> int MAX_CLIENTS)" "phase (sessions srv ! i) \<noteq> FREE"
    using False by (auto simp: i_def)
  have q: "inv srv" "pending_ok srv" "pending_close srv = []" "\<not> processing srv" using assms by (simp_all add: quiet_def idle_def)
  let ?srv = "srv\<lparr>processing := True\<rparr>"
  have ok: "server_ok ?srv" using inv_server_ok [OF q(1)] by simp
  obtain srv' where l: "leave_cluster ?srv i = Some srv'" and len: "length (sessions srv') = MAX_CLIENTS"
    and core: "\<forall>j<MAX_CLIENTS. j \<noteq> i \<longrightarrow> core (sessions srv' ! j) = core (sessions ?srv ! j)"
    and fr: "pending_close srv' = pending_close ?srv" "max_rx_frame srv' = max_rx_frame ?srv" "on_state_change srv' = on_state_change ?srv"
    using leave_cluster_frame [OF ok i(1)] by metis
  let ?srv2 = "(set_session srv' i Session)\<lparr>processing := False\<rparr>"
  have I: "inv ?srv2" using inv_leave [OF _ i(1) l] q(1) by simp
  have "\<not> schedule_disconnect ((sessions srv')[i := Session] ! j)" if "j < MAX_CLIENTS" for j
    using that len core q(2,3) core_eq_fields(18) [of "sessions srv' ! j" "sessions srv ! j"]
    by (cases "j = i") (simp_all add: pending_ok_def)
  then have "pending_ok ?srv2" using q(3) fr by (simp add: pending_ok_def)
  from drain_closes_inv [OF I this] obtain srv3 where s3: "drain_closes ?srv2 = Some srv3" "quiet srv3" "max_rx_frame srv3 = max_rx_frame srv"
    "closes {} ?srv2 srv3" and e3: "emits {} ?srv2 srv3"
    using fr q(3) by auto
  have "emits {} ?srv srv'" using acks_only_emits [OF leave_cluster_acks [OF ok i(1) l] fr(3)] .
  then have "emits {} srv ?srv2" by (simp add: emits_def)
  from emits_trans [OF this e3] have e4: "emits {} srv srv3" by simp
  from emits_trans [OF e4 emits_plumbing(1)] tells_notify [OF e4] have e: "emits {} srv (notify srv3)" "told srv (notify srv3)"
    by (simp_all add: told_def)
  have "closes {i. int i = slot} srv srv3"
    using s3(4) core len i(2) by (auto simp: closes_def nth_update i_def)
  with s3(1-3) e show ?thesis
    using i l q(4) inv_server_ok [OF q(1)] by (simp add: on_disconnected_def Let_def quiet_def idle_def pending_ok_def closes_def flip: i_def)
qed


lemma on_data_loop_inv:
  assumes "inv srv" "pending_ok srv" "processing srv" "slot < MAX_CLIENTS"
    "fits (phase (sessions srv ! slot)) (frames (max_rx_frame srv) (rx (sessions srv ! slot)))"
  shows "\<exists>srv'. on_data_loop slot now srv = Some srv' \<and> inv srv' \<and> pending_ok srv' \<and> max_rx_frame srv' = max_rx_frame srv \<and>
    rx_done srv' slot \<and> same_rx slot srv srv' \<and> same_conns srv srv' \<and> emits {} srv srv'"
  using assms
proof (induction "length (rx (sessions srv ! slot))" arbitrary: srv rule: less_induct)
  case less
  note I = less.prems
  have ok: "server_ok srv" using I(1) by (rule inv_server_ok)
  show ?case
    using ok I(3,4)
  proof (cases rule: on_data_step_cases [where now = now])
    case stop
    with I show ?thesis by (subst on_data_loop.simps) (simp add: same_rx_def same_conns_def emits_refl)
  next
    case (long srv1)
    have "inv srv1" using inv_schedule [OF I(1,4) long(1)] inv_cong [of srv1 "set_session srv slot _"] long(3)
      by (simp add: send_err_def)
    moreover have "pending_ok srv1" using schedule_pending [OF ok I(2,4) long(2)] long(3) by (simp add: pending_ok_def send_err_def)
    moreover have "rx_done srv1 slot" "same_rx slot srv srv1" "max_rx_frame srv1 = max_rx_frame srv" "same_conns srv srv1"
      using long(1,3) ok I(4) by (auto simp: rx_done_def same_rx_def send_err_def same_conns_def nth_update)
    moreover have "emits {} srv srv1"
      using emits_plumbing(3) [OF I(4), of srv MsgDecoded MESSAGE_TOO_LONG] long(3) by (simp add: emits_def)
    ultimately show ?thesis using long(4) by (subst on_data_loop.simps) simp
  next
    case (frame t p srv1)
    let ?s = "sessions srv ! slot"
    let ?s1 = "(sessions srv1 ! slot)\<lparr>rx := drop (MSG_HEADER_LEN + unat p) (rx ?s)\<rparr>"
    let ?srv2 = "set_session srv1 slot ?s1"
    note st = frame(7)
    have ok1: "server_ok srv1" using frame_step_server_ok [OF st ok I(4) frame(1)] .
    have steady: "steady (i = slot) (sessions srv ! i) (sessions srv1 ! i)" if "i < MAX_CLIENTS" for i
      using frame_step_steady [OF st ok I(4) frame(1) that] .
    have s2: "sessions ?srv2 ! slot = ?s1" using ok1 I(4) by simp
    have I1: "inv srv1" using inv_frame [OF I(1,4) frame(1) _ st] I(5) frames_Cons [OF frame(3-6)] by simp
    have I2: "inv ?srv2" using steady [OF I(4)] by (intro inv_reset_rx [OF I1 I(4)] reset_rxI) (simp add: steady_def)
    have p2: "pending_ok ?srv2"
      using frame_step_pending [OF st ok I(4,2) frame(1)] ok1 I(4) by (simp add: pending_ok_def nth_update)
    have "phase ?s1 = ACTIVE \<longleftrightarrow> phase ?s = ACTIVE" if "MsgType_of t \<noteq> MsgType_INIT"
      using frame_step_phase [of srv slot srv1] st that ok I(4) frame(1) by simp
    then have fits2: "fits (phase (sessions ?srv2 ! slot)) (frames (max_rx_frame ?srv2) (rx (sessions ?srv2 ! slot)))"
      using fits_frame [of "phase ?s"] I(5) frame_step_frame [OF st] frames_Cons [OF frame(3-6)] unfolding s2 by simp
    have "length (rx (sessions ?srv2 ! slot)) < length (rx ?s)" using frame(6) unfolding s2 by (simp add: MSG_HEADER_LEN_def)
    from less.hyps [OF this I2 p2 _ I(4) fits2] obtain srv3 where "on_data_loop slot now ?srv2 = Some srv3" "inv srv3" "pending_ok srv3"
        "max_rx_frame srv3 = max_rx_frame srv" "rx_done srv3 slot" "same_rx slot ?srv2 srv3"
        "same_conns ?srv2 srv3" "emits {} ?srv2 srv3"
      using frame_step_frame [OF st] I(3) by auto
    moreover from this(6) have "same_rx slot srv srv3"
      using steady ok1 by (auto simp: same_rx_def nth_update steady_def)
    moreover from calculation(7) have "same_conns srv srv3"
      using steady ok1 frame(1) by (auto simp: same_conns_def nth_update steady_def split: if_splits)
    moreover from calculation(8) have "emits {} srv srv3"
      using emits_trans [OF frame(8), of "{}" srv3] by (simp add: emits_def)
    ultimately show ?thesis using frame(9) by (subst on_data_loop.simps) simp
  qed
qed

lemma on_data_inv:
  assumes "quiet srv"
    and fit: "0 \<le> slot \<Longrightarrow> slot < int MAX_CLIENTS \<Longrightarrow>
      fits (phase (sessions srv ! nat slot)) (frames (max_rx_frame srv) (rx (sessions srv ! nat slot) @ data))"
  shows "\<exists>srv'. on_data srv slot data now = Some srv' \<and> quiet srv' \<and> max_rx_frame srv' = max_rx_frame srv \<and>
    (rx_bounded srv \<longrightarrow> rx_bounded srv') \<and> told srv srv' \<and>
    (\<exists>cs. cs \<subseteq> {..<MAX_CLIENTS} \<and> emits cs srv srv' \<and> (\<forall>i<MAX_CLIENTS. phase (sessions srv' ! i) = FREE \<longleftrightarrow> phase (sessions srv ! i) = FREE \<or> i \<in> cs))"
proof (cases "slot < 0 \<or> slot \<ge> int MAX_CLIENTS \<or> phase (sessions srv ! nat slot) = FREE \<or> schedule_disconnect (sessions srv ! nat slot)")
  case True
  have "\<exists>cs. cs \<subseteq> {..<MAX_CLIENTS} \<and> emits cs srv srv \<and> (\<forall>i<MAX_CLIENTS. phase (sessions srv ! i) = FREE \<longleftrightarrow> phase (sessions srv ! i) = FREE \<or> i \<in> cs)"
    using emits_refl [of srv srv] by auto
  moreover have "on_data srv slot data now = Some srv"
    using True assms(1) inv_server_ok by (auto simp: on_data_def quiet_def)
  ultimately show ?thesis using assms(1) told_refl [of srv] by blast
next
  case False
  define i where "i = nat slot"
  have i: "i < MAX_CLIENTS" "\<not> (slot < 0 \<or> slot \<ge> int MAX_CLIENTS)" "phase (sessions srv ! i) \<noteq> FREE" "\<not> schedule_disconnect (sessions srv ! i)"
    using False by (auto simp: i_def)
  have q: "inv srv" "pending_ok srv" using assms(1) by (simp_all add: quiet_def idle_def)
  have len: "length (sessions srv) = MAX_CLIENTS" using inv_server_ok [OF q(1)] by simp
  let ?s = "reschedule_dpd ((sessions srv ! i)\<lparr>rx := rx (sessions srv ! i) @ data\<rparr>) now"
  let ?srv = "(set_session srv i ?s)\<lparr>processing := True\<rparr>"
  have I: "inv ?srv" using inv_reset_rx [OF q(1) i(1,3) reset_rxI(2)] by simp
  have p: "pending_ok ?srv" using q(2) len by (auto simp: pending_ok_def nth_update)
  have "fits (phase (sessions ?srv ! i)) (frames (max_rx_frame ?srv) (rx (sessions ?srv ! i)))"
    using fit i len by (simp add: i_def)
  from on_data_loop_inv [OF I p _ i(1) this] obtain srv1 where l: "on_data_loop i now ?srv = Some srv1" "inv srv1" "pending_ok srv1"
    "max_rx_frame srv1 = max_rx_frame srv" "rx_done srv1 i" "same_rx i ?srv srv1"
    "same_conns ?srv srv1" "emits {} ?srv srv1" by auto
  have "pending_ok (srv1\<lparr>processing := False\<rparr>)" using l(3) by (simp add: pending_ok_def)
  with drain_closes_inv [of "srv1\<lparr>processing := False\<rparr>"] l(2,4) obtain srv2 where
    s2: "drain_closes (srv1\<lparr>processing := False\<rparr>) = Some srv2" "quiet srv2" "max_rx_frame srv2 = max_rx_frame srv"
    and cs: "closes (set (pending_close srv1)) srv1 srv2" and em: "emits (set (pending_close srv1)) srv1 srv2"
    and tl: "tells srv1 srv2"
    by (auto simp: closes_def emits_def tells_def)
  have "tells srv srv2" using emits_tells [OF l(8) tl] by (simp add: tells_def)
  then have td: "told srv srv2" by (simp add: told_def)
  have "emits (set (pending_close srv1)) srv srv2"
    using emits_trans [OF l(8) em] by (simp add: emits_def)
  moreover have "phase (sessions srv2 ! j) = FREE \<longleftrightarrow> phase (sessions srv ! j) = FREE \<or> j \<in> set (pending_close srv1)" if "j < MAX_CLIENTS" for j
    using that l(7) closes_phase [OF cs that] i(1,3) len by (auto simp: same_conns_def nth_update split: if_splits)
  moreover have "set (pending_close srv1) \<subseteq> {..<MAX_CLIENTS}" using l(3) by (auto simp: pending_ok_def)
  ultimately have conns: "\<exists>cs. cs \<subseteq> {..<MAX_CLIENTS} \<and> emits cs srv srv2 \<and>
      (\<forall>i<MAX_CLIENTS. phase (sessions srv2 ! i) = FREE \<longleftrightarrow> phase (sessions srv ! i) = FREE \<or> i \<in> cs)" by blast
  have "rx_bounded srv2" if "rx_bounded srv"
  proof (rule rx_bounded_drain [OF inv_server_ok [OF l(2)] l(3,5) i(1) cs])
    show "length (rx (sessions srv1 ! j)) < MSG_HEADER_LEN + unat (max_rx_frame srv1)" if "j < MAX_CLIENTS" "j \<noteq> i" for j
      using that \<open>rx_bounded srv\<close> l(4,6) by (simp add: rx_bounded_def same_rx_def)
  qed (use s2(3) l(4) in simp)
  moreover have "on_data srv slot data now = Some srv2" using s2(1) l(1) i len by (simp add: on_data_def Let_def flip: i_def)
  ultimately show ?thesis using s2(2,3) conns td by blast
qed

end

end
