(* ===== verification/Server_Runs.thy ===== *)
theory Server_Runs
  imports Entry_Points
begin

text \<open>
  Sequences of calls of the embedder. \<open>event\<close> has one constructor per entry point of
  \<^verbatim>\<open>components/qnetd/server.h\<close>, and \<open>run\<close> performs a sequence of them. The locale of the
  entry points is interpreted twice: with \<open>server_ok\<close> for arbitrary peers, and with
  \<open>server_ok\<close> and \<open>votes_ok\<close> for peers that send INIT once per connection.
\<close>

subsection \<open>Sequences of calls\<close>

datatype event =
    Connect u64 string
  | Data int bytes u64
  | Disconnected int
  | Tick u64

fun server_step :: "event \<Rightarrow> server \<Rightarrow> server ub" where
  "server_step (Connect now name) srv = Some (fst (on_connect srv now name))"
| "server_step (Data slot data now) srv = on_data srv slot data now"
| "server_step (Disconnected slot) srv = on_disconnected srv slot"
| "server_step (Tick now) srv = tick srv now"

definition run :: "event list \<Rightarrow> server \<Rightarrow> server ub" where
  "run es srv = fold_ub server_step es srv"

lemma run_snoc: "run (es @ [e]) srv = Option.bind (run es srv) (server_step e)"
  by (simp only: run_def fold_ub_append fold_ub_single)

text \<open>A guard that holds before each call of a sequence.\<close>

primrec guarded :: "('e \<Rightarrow> 's \<Rightarrow> 's ub) \<Rightarrow> ('e \<Rightarrow> 's \<Rightarrow> bool) \<Rightarrow> 'e list \<Rightarrow> 's \<Rightarrow> bool" where
  "guarded step guard [] s = True"
| "guarded step guard (e # es) s = (guard e s \<and> (case step e s of None \<Rightarrow> True | Some s' \<Rightarrow> guarded step guard es s'))"

lemma guarded_appendD: "guarded step guard (es @ es') s \<Longrightarrow> guarded step guard es s"
  by (induction es arbitrary: s) (auto split: option.splits)

locale event_system =
  fixes step :: "'e \<Rightarrow> 's \<Rightarrow> 's ub" and guard :: "'e \<Rightarrow> 's \<Rightarrow> bool" and good :: "'s \<Rightarrow> bool"
  assumes step_good: "good s \<Longrightarrow> guard e s \<Longrightarrow> \<exists>s'. step e s = Some s' \<and> good s'"
begin

lemma run_good: "good s \<Longrightarrow> guarded step guard es s \<Longrightarrow> \<exists>s'. fold_ub step es s = Some s' \<and> good s'"
proof (induction es arbitrary: s)
  case (Cons e es)
  then have "guard e s" by simp
  from step_good [OF Cons.prems(1) this] obtain s1 where "step e s = Some s1" "good s1" by blast
  with Cons show ?case by simp
qed simp

end

context server_invariant
begin

definition permitted :: "event \<Rightarrow> server \<Rightarrow> bool" where
  "permitted e srv = (case e of
     Data slot data now \<Rightarrow> 0 \<le> slot \<and> slot < int MAX_CLIENTS \<longrightarrow>
       fits (phase (sessions srv ! nat slot)) (frames (max_rx_frame srv) (rx (sessions srv ! nat slot) @ data))
   | _ \<Rightarrow> True)"

end

sublocale server_invariant \<subseteq> calls: event_system server_step permitted quiet
proof
  fix srv e assume "quiet srv" and "permitted e srv"
  then show "\<exists>srv'. server_step e srv = Some srv' \<and> quiet srv'"
    using connect_inv(1) on_data_inv disconnected_inv tick_inv by (cases e) (auto simp: permitted_def; blast)+
qed

subsection \<open>The two invariants\<close>

lemma session_ok_reset_rx: "session_ok s \<Longrightarrow> phase s \<noteq> FREE \<Longrightarrow> reset_rx s s' \<Longrightarrow> session_ok s'"
  by (auto simp: session_ok_def reset_rx_def)

lemma server_ok_reset_rx:
  assumes "server_ok srv" "slot < MAX_CLIENTS" "phase (sessions srv ! slot) \<noteq> FREE" "reset_rx (sessions srv ! slot) s"
  shows "server_ok (set_session srv slot s)"
  by (rule server_ok_set_session [OF assms(1,2)])
    (use session_ok_reset_rx [OF server_ok_session [OF assms(1,2)] assms(3,4)] assms(4) in \<open>auto simp: role_def reset_rx_def\<close>)

lemma server_ok_connect:
  assumes "server_ok srv" "slot < MAX_CLIENTS" "phase (sessions srv ! slot) = FREE"
  shows "server_ok (set_session srv slot (Session\<lparr>phase := WAIT_PREINIT, peer := name, deadline_ms := dl\<rparr>))"
  using assms by (intro server_ok_set_inactive) (simp_all add: session_ok_def Session_def)

lemma server_ok_schedule:
  assumes "server_ok srv" "slot < MAX_CLIENTS" "phase (sessions srv ! slot) \<noteq> FREE"
  shows "server_ok (set_session srv slot ((sessions srv ! slot)\<lparr>schedule_disconnect := True\<rparr>))"
  using server_ok_session [OF assms(1,2)] assms
  by (intro server_ok_set_session) (auto simp: role_def session_ok_def)

interpretation total: server_invariant server_ok "\<lambda>ph fs. True"
proof
  fix srv slot srv'
  show "server_ok (set_session srv' slot Session)" if "server_ok srv" "slot < MAX_CLIENTS" "leave_cluster srv slot = Some srv'"
    using leave_cluster_frame [OF that(1,2)] that(3) by (metis option.inject)
qed (use server_ok_cong server_ok_reset_rx server_ok_connect server_ok_schedule frame_step_server_ok in blast)+

definition init_once :: "phase \<Rightarrow> (u16 \<times> bytes) list \<Rightarrow> bool" where
  "init_once ph fs \<longleftrightarrow> length (filter (\<lambda>(t, payload). MsgType_of t = MsgType_INIT) fs) \<le> (if ph = ACTIVE then 0 else 1)"

lemma votes_ok_update:
  assumes "server_ok srv" "votes_ok srv" "slot < MAX_CLIENTS" "phase s = phase (sessions srv ! slot)" "cluster s = cluster (sessions srv ! slot)"
    "node_id s = node_id (sessions srv ! slot)" "tie_breaker s = tie_breaker (sessions srv ! slot)"
    "last_ack_nack s = last_ack_nack (sessions srv ! slot)" "ff_state s = ff_state (sessions srv ! slot)"
    "config_list s = config_list (sessions srv ! slot)" "membership_list s = membership_list (sessions srv ! slot)"
  shows "votes_ok (set_session srv slot s)"
proof -
  have "granted srv (sessions srv ! slot)" using assms(2,3) by (simp add: votes_ok_def)
  then have "granted srv s" using assms(4-) by (simp add: granted_def)
  then show ?thesis using assms by (intro votes_ok_set_session) simp_all
qed

interpretation once: server_invariant "\<lambda>srv. server_ok srv \<and> votes_ok srv" init_once
proof
  fix srv srv' slot s name dl t payload fs ph ph'
  show "(server_ok srv' \<and> votes_ok srv') = (server_ok srv \<and> votes_ok srv)"
    if "sessions srv' = sessions srv" "clusters srv' = clusters srv" for srv' srv
    using that server_ok_cong votes_ok_cong by blast
  assume I: "server_ok srv \<and> votes_ok srv" and slot: "slot < MAX_CLIENTS"
  show "server_ok (set_session srv slot s) \<and> votes_ok (set_session srv slot s)"
    if "phase (sessions srv ! slot) \<noteq> FREE" "reset_rx (sessions srv ! slot) s" for s
    using server_ok_reset_rx [OF _ slot that] votes_ok_update [of srv slot s] I slot that(2) by (auto simp: reset_rx_def)
  show "server_ok (set_session srv slot (Session\<lparr>phase := WAIT_PREINIT, peer := name, deadline_ms := dl\<rparr>)) \<and>
      votes_ok (set_session srv slot (Session\<lparr>phase := WAIT_PREINIT, peer := name, deadline_ms := dl\<rparr>))"
    if "phase (sessions srv ! slot) = FREE"
    using server_ok_connect [OF _ slot that] I slot that
    by (intro conjI votes_ok_set_session) (simp_all add: granted_def)
  show "server_ok (set_session srv' slot Session) \<and> votes_ok (set_session srv' slot Session)"
    if "leave_cluster srv slot = Some srv'"
    using leave_cluster_frame [of srv slot] I slot that by (metis option.inject)
  show "server_ok srv' \<and> votes_ok srv'"
    if "phase (sessions srv ! slot) \<noteq> FREE" "init_once (phase (sessions srv ! slot)) ((t, payload) # fs)"
      "frame_step (MsgType_of t = MsgType_INIT) srv slot srv'"
    using frame_step_server_ok [OF that(3) _ slot that(1)] frame_step_votes_ok [OF that(3) _ _ slot] I that(2)
    by (auto simp: init_once_def split: if_splits)
  show "server_ok (set_session srv slot ((sessions srv ! slot)\<lparr>schedule_disconnect := True\<rparr>)) \<and>
      votes_ok (set_session srv slot ((sessions srv ! slot)\<lparr>schedule_disconnect := True\<rparr>))"
    if "phase (sessions srv ! slot) \<noteq> FREE"
    using server_ok_schedule [OF _ slot that] votes_ok_update [of srv slot] I slot by simp
next
  show "init_once ph' fs" if "init_once ph ((t, payload) # fs)" "MsgType_of t \<noteq> MsgType_INIT \<Longrightarrow> (ph' = ACTIVE) = (ph = ACTIVE)" for ph ph' t payload fs
    using that by (auto simp: init_once_def split: if_splits)
qed simp

subsection \<open>The initial state\<close>

lemma Server_member_states [simp]: "member_states (Server m cb) c = []"
  by (simp add: member_states_def Server_def active_in_def Session_def)

lemma Server_idle: "idle (Server m cb)"
  by (simp add: idle_def pending_ok_def Server_def Session_def)

lemma Server_ok: "server_ok (Server m cb)"
  unfolding server_ok_def clusters_ok_def Server_member_states
  by (simp add: Server_def session_ok_def placed_def cluster_ok_def Session_def Cluster_def)

lemma Server_votes_ok: "votes_ok (Server m cb)"
  by (simp add: votes_ok_def peers_differ_def Server_def granted_def Session_def)

lemma total_guarded: "guarded step (\<lambda>e s. True) es s"
  by (induction es arbitrary: s) (simp_all split: option.splits)

lemma total_permitted: "total.permitted = (\<lambda>e srv. True)"
  by (intro ext) (simp add: total.permitted_def split: event.splits)

lemma run_total: "\<exists>srv. run es (Server m cb) = Some srv \<and> server_ok srv \<and> idle srv"
  using total.calls.run_good [of "Server m cb" es] Server_ok Server_idle
  by (simp add: run_def total.quiet_def total_permitted total_guarded)

text \<open>Peers that send INIT at most once per connection.\<close>

definition sends_init_once :: "event \<Rightarrow> server \<Rightarrow> bool" where
  "sends_init_once e srv = (case e of
     Data slot data now \<Rightarrow> 0 \<le> slot \<and> slot < int MAX_CLIENTS \<longrightarrow>
       init_once (phase (sessions srv ! nat slot)) (frames (max_rx_frame srv) (rx (sessions srv ! nat slot) @ data))
   | _ \<Rightarrow> True)"

definition init_once_run :: "event list \<Rightarrow> server \<Rightarrow> bool" where
  "init_once_run es srv = guarded server_step sends_init_once es srv"

lemma once_permitted: "once.permitted = sends_init_once"
  by (intro ext) (simp add: once.permitted_def sends_init_once_def)

lemma run_once:
  assumes "init_once_run es (Server m cb)"
  shows "\<exists>srv. run es (Server m cb) = Some srv \<and> server_ok srv \<and> votes_ok srv \<and> idle srv"
  using once.calls.run_good [of "Server m cb" es] assms Server_ok Server_idle Server_votes_ok
  by (auto simp: run_def init_once_run_def once.quiet_def once_permitted)

text \<open>The receive buffers stay bounded, whatever the peers send.\<close>

lemma on_connect_rx_bounded:
  assumes "server_ok srv" "rx_bounded srv"
  shows "rx_bounded (fst (on_connect srv now name))"
  using assms by (auto simp: rx_bounded_def on_connect_def nth_update Session_def MSG_HEADER_LEN_def split: option.split)

interpretation bounded: event_system server_step "\<lambda>e s. True" "\<lambda>srv. total.quiet srv \<and> rx_bounded srv"
proof
  fix srv e assume "total.quiet srv \<and> rx_bounded srv"
  then have q: "total.quiet srv" and b: "rx_bounded srv" by simp_all
  have ok: "server_ok srv" using q by (simp add: total.quiet_def)
  show "\<exists>srv'. server_step e srv = Some srv' \<and> total.quiet srv' \<and> rx_bounded srv'"
  proof (cases e)
    case (Connect now name)
    with total.connect_inv(1) [OF q] on_connect_rx_bounded [OF ok b] show ?thesis by simp
  next
    case (Data slot data now)
    with total.on_data_inv [OF q, of slot data now] b show ?thesis by auto
  next
    case (Disconnected slot)
    with total.disconnected_inv [OF q, of slot] b closes_rx_bounded show ?thesis by fastforce
  next
    case (Tick now)
    with total.tick_inv [OF q, of now] b closes_rx_bounded show ?thesis by fastforce
  qed
qed

lemma run_rx_bounded:
  assumes "run es (Server m cb) = Some srv"
  shows "rx_bounded srv"
proof -
  have "rx_bounded (Server m cb)" by (simp add: rx_bounded_def Server_def Session_def MSG_HEADER_LEN_def)
  then show ?thesis
    using bounded.run_good [of "Server m cb" es] Server_ok Server_idle assms
    by (auto simp: total.quiet_def total_guarded run_def)
qed

subsection \<open>What leaves the server\<close>

text \<open>Complete frames to slots in range, closes of slots in range, calls of the callback.\<close>

definition proper :: "out_event \<Rightarrow> bool" where
  "proper e \<longleftrightarrow> is_send e \<or> (\<exists>j<MAX_CLIENTS. e = CloseConnection j)"

lemma emits_proper: "emits cs srv srv' \<Longrightarrow> cs \<subseteq> {..<MAX_CLIENTS} \<Longrightarrow> \<forall>e\<in>set (outs srv). proper e \<Longrightarrow> \<forall>e\<in>set (outs srv'). proper e"
  unfolding emits_def proper_def by (metis Un_iff lessThan_iff set_append subsetD)

text \<open>Every entry point emits proper requests and calls the callback when something changed.\<close>

lemma server_step_emits:
  assumes q: "total.quiet srv"
  shows "\<exists>srv' cs. server_step e srv = Some srv' \<and> total.quiet srv' \<and> told srv srv' \<and> emits cs srv srv' \<and> cs \<subseteq> {..<MAX_CLIENTS}"
proof (cases e)
  case (Connect now name)
  have "emits {} srv (fst (on_connect srv now name))"
    by (auto simp: on_connect_def emits_def notify_def split: option.split)
  with Connect total.connect_inv(1,3) [OF q, of now name] show ?thesis by (auto intro!: exI [of _ "{}"])
next
  case (Data slot data now)
  with total.on_data_inv [OF q, of slot data now] show ?thesis by auto
next
  case (Disconnected slot)
  with total.disconnected_inv [OF q, of slot] show ?thesis by fastforce
next
  case (Tick now)
  have "{i. i < MAX_CLIENTS \<and> expired now (sessions srv ! i)} \<subseteq> {..<MAX_CLIENTS}" by auto
  with Tick total.tick_inv [OF q, of now] show ?thesis by (metis server_step.simps(4))
qed

interpretation outputs: event_system server_step "\<lambda>e s. True" "\<lambda>srv. total.quiet srv \<and> (\<forall>e\<in>set (outs srv). proper e)"
proof
  fix srv e assume "total.quiet srv \<and> (\<forall>e\<in>set (outs srv). proper e)"
  with server_step_emits [of srv e] emits_proper show "\<exists>srv'. server_step e srv = Some srv' \<and> total.quiet srv' \<and> (\<forall>e\<in>set (outs srv'). proper e)"
    by metis
qed

lemma run_proper:
  assumes "run es (Server m cb) = Some srv" "e \<in> set (outs srv)"
  shows "proper e"
proof -
  have "outs (Server m cb) = []" by (simp add: Server_def)
  then show ?thesis
    using outputs.run_good [of "Server m cb" es] Server_ok Server_idle assms by (auto simp: total.quiet_def total_guarded run_def)
qed

end
