(* ===== verification/Embedding.thy ===== *)
theory Embedding
  imports Server_Runs
begin

text \<open>
  A server and the transport it is embedded in. \<^verbatim>\<open>server.h\<close> declares the interface
  \<open>Transport\<close>; the ESPHome component and the POSIX host program implement it. The server
  records what it asks of the transport in \<open>outs\<close>; \<open>call\<close> performs one entry point and
  carries out the recorded requests in order. A transport may not call back into the
  server, so the outcome is the same as carrying out each request when it is made.

  The locale \<open>transport\<close> states what an implementation promises: requests return, sending
  leaves the table of open connections alone, closing removes one entry. In it the table
  and the sessions of the server stay in step. A request may also end the program, as a
  signal does; then it is not \<open>alive\<close> any more and nothing happens after that.
\<close>

subsection \<open>What both platforms have\<close>

datatype errno = EWOULDBLOCK | EAGAIN | EINTR | EOTHER

datatype sockaddr = AF_INET bytes | AF_INET6 bytes | AF_UNSPEC

subsection \<open>Calls\<close>

definition call :: "(out_event \<Rightarrow> 't \<Rightarrow> 't ub) \<Rightarrow> (server \<Rightarrow> server ub) \<Rightarrow> server \<times> 't \<Rightarrow> (server \<times> 't) ub" where
  "call request f st = do {
     srv \<leftarrow> f ((fst st)\<lparr>outs := []\<rparr>);
     t \<leftarrow> fold_ub request (outs srv) (snd st);
     Some (srv, t)
   }"

definition call_connect ::
    "(out_event \<Rightarrow> 't \<Rightarrow> 't ub) \<Rightarrow> u64 \<Rightarrow> string \<Rightarrow> server \<times> 't \<Rightarrow> (int \<times> server \<times> 't) ub" where
  "call_connect request now_ms peer_name st =
     (case on_connect ((fst st)\<lparr>outs := []\<rparr>) now_ms peer_name of (srv, slot) \<Rightarrow> do {
        t \<leftarrow> fold_ub request (outs srv) (snd st);
        Some (slot, srv, t)
      })"

lemma quiet_outs [simp]: "total.quiet (srv\<lparr>outs := es\<rparr>) = total.quiet srv"
  using server_ok_cong [of "srv\<lparr>outs := es\<rparr>" srv] by (simp add: total.quiet_def idle_def pending_ok_def)

subsection \<open>What a transport promises\<close>

locale transport =
  fixes request :: "out_event \<Rightarrow> 't \<Rightarrow> 't ub"
    and is_open :: "'t \<Rightarrow> nat \<Rightarrow> bool"
    and ok :: "'t \<Rightarrow> bool"
    and alive :: "'t \<Rightarrow> bool"
    and budget :: "'t \<Rightarrow> nat"
  assumes request_send: "ok t \<Longrightarrow> is_send e \<Longrightarrow>
      \<exists>t'. request e t = Some t' \<and> ok t' \<and> budget t' \<le> budget t \<and>
        (alive t' \<longrightarrow> alive t \<and> (\<forall>i<MAX_CLIENTS. is_open t' i = is_open t i))"
    and request_close: "ok t \<Longrightarrow> i < MAX_CLIENTS \<Longrightarrow>
      \<exists>t'. request (CloseConnection i) t = Some t' \<and> ok t' \<and> budget t' \<le> budget t \<and>
        (alive t' \<longrightarrow> alive t \<and> (\<forall>j<MAX_CLIENTS. is_open t' j \<longleftrightarrow> is_open t j \<and> j \<noteq> i))"
begin

lemma requests:
  assumes "ok t" "cs \<subseteq> {..<MAX_CLIENTS}" "\<forall>e\<in>set es. is_send e \<or> (\<exists>j\<in>cs. e = CloseConnection j)"
  shows "\<exists>t'. fold_ub request es t = Some t' \<and> ok t' \<and> budget t' \<le> budget t \<and>
    (alive t' \<longrightarrow> alive t \<and> (\<forall>j<MAX_CLIENTS. is_open t' j \<longleftrightarrow> is_open t j \<and> CloseConnection j \<notin> set es))"
  using assms
proof (induction es arbitrary: t)
  case (Cons e es)
  have "\<exists>t1. request e t = Some t1 \<and> ok t1 \<and> budget t1 \<le> budget t \<and>
      (alive t1 \<longrightarrow> alive t \<and> (\<forall>j<MAX_CLIENTS. is_open t1 j \<longleftrightarrow> is_open t j \<and> e \<noteq> CloseConnection j))"
  proof (cases "is_send e")
    case True
    moreover from True have "e \<noteq> CloseConnection j" for j by auto
    ultimately show ?thesis using request_send [OF Cons.prems(1) True] by simp
  next
    case False
    then obtain j where "e = CloseConnection j" "j < MAX_CLIENTS" using Cons.prems(2,3) by auto
    then show ?thesis using request_close [OF Cons.prems(1)] by simp metis
  qed
  then obtain t1 where t1: "request e t = Some t1" "ok t1" "budget t1 \<le> budget t"
    "alive t1 \<longrightarrow> alive t \<and> (\<forall>j<MAX_CLIENTS. is_open t1 j \<longleftrightarrow> is_open t j \<and> e \<noteq> CloseConnection j)" by blast
  from Cons.IH [OF t1(2) Cons.prems(2)] Cons.prems(3) obtain t2 where "fold_ub request es t1 = Some t2" "ok t2" "budget t2 \<le> budget t1"
    "alive t2 \<longrightarrow> alive t1 \<and> (\<forall>j<MAX_CLIENTS. is_open t2 j \<longleftrightarrow> is_open t1 j \<and> CloseConnection j \<notin> set es)" by auto
  with t1 show ?case by (auto intro: order_trans)
qed simp

text \<open>While the program lives, a connection is open exactly if the server has a session for it,
  except for the slots \<open>gone\<close>, which the embedder has closed and not yet reported.\<close>

definition in_step :: "nat set \<Rightarrow> server \<times> 't \<Rightarrow> bool" where
  "in_step gone st \<longleftrightarrow> total.quiet (fst st) \<and> ok (snd st) \<and> (alive (snd st) \<longrightarrow>
     (\<forall>i<MAX_CLIENTS. is_open (snd st) i \<longleftrightarrow> phase (sessions (fst st) ! i) \<noteq> FREE \<and> i \<notin> gone))"

lemma call_in_step:
  assumes st: "in_step gone st" and f: "f ((fst st)\<lparr>outs := []\<rparr>) = Some srv" "total.quiet srv"
    and cs: "cs \<subseteq> {..<MAX_CLIENTS}" "emits cs ((fst st)\<lparr>outs := []\<rparr>) srv"
    and ph: "\<And>i. i < MAX_CLIENTS \<Longrightarrow> phase (sessions srv ! i) = FREE \<longleftrightarrow> phase (sessions (fst st) ! i) = FREE \<or> i \<in> cs \<union> gone"
  shows "\<exists>st'. call request f st = Some st' \<and> in_step {} st' \<and> budget (snd st') \<le> budget (snd st)"
proof -
  have es: "\<forall>e\<in>set (outs srv). is_send e \<or> (\<exists>j\<in>cs. e = CloseConnection j)" "\<forall>j\<in>cs. CloseConnection j \<in> set (outs srv)"
    using cs(2) by (auto simp: emits_def)
  have "ok (snd st)" using st by (simp add: in_step_def)
  from requests [OF this cs(1) es(1)] obtain t where t: "fold_ub request (outs srv) (snd st) = Some t" "ok t" "budget t \<le> budget (snd st)"
    "alive t \<longrightarrow> alive (snd st) \<and> (\<forall>j<MAX_CLIENTS. is_open t j \<longleftrightarrow> is_open (snd st) j \<and> CloseConnection j \<notin> set (outs srv))" by blast
  have iff: "CloseConnection j \<in> set (outs srv) \<longleftrightarrow> j \<in> cs" for j using es by force
  then have "in_step {} (srv, t)" using f(2) t(2,4) st ph by (simp add: in_step_def iff) blast
  then show ?thesis using f(1) t(1,3) by (simp add: call_def)
qed

lemma call_data:
  assumes "in_step {} st"
  shows "\<exists>st'. call request (\<lambda>srv. on_data srv slot data now) st = Some st' \<and> in_step {} st' \<and> budget (snd st') \<le> budget (snd st)"
proof -
  have "total.quiet ((fst st)\<lparr>outs := []\<rparr>)" using assms by (simp add: in_step_def)
  from total.on_data_inv [OF this, of slot data now] obtain srv cs where "on_data ((fst st)\<lparr>outs := []\<rparr>) slot data now = Some srv"
    "total.quiet srv" "cs \<subseteq> {..<MAX_CLIENTS}" "emits cs ((fst st)\<lparr>outs := []\<rparr>) srv"
    "\<forall>i<MAX_CLIENTS. phase (sessions srv ! i) = FREE \<longleftrightarrow> phase (sessions (fst st) ! i) = FREE \<or> i \<in> cs" by auto
  then show ?thesis by (intro call_in_step [OF assms]) auto
qed

lemma call_disconnected:
  assumes "in_step {i} st" "i < MAX_CLIENTS"
  shows "\<exists>st'. call request (\<lambda>srv. on_disconnected srv (int i)) st = Some st' \<and> in_step {} st' \<and> budget (snd st') \<le> budget (snd st)"
proof -
  have "total.quiet ((fst st)\<lparr>outs := []\<rparr>)" using assms by (simp add: in_step_def)
  from total.disconnected_inv [OF this, of "int i"] obtain srv where "on_disconnected ((fst st)\<lparr>outs := []\<rparr>) (int i) = Some srv"
    "total.quiet srv" "emits {} ((fst st)\<lparr>outs := []\<rparr>) srv" and cs: "closes {i} ((fst st)\<lparr>outs := []\<rparr>) srv" by auto
  then show ?thesis using closes_phase [OF cs] by (intro call_in_step [OF assms(1)]) auto
qed

lemma call_tick:
  assumes "in_step {} st"
  shows "\<exists>st'. call request (\<lambda>srv. tick srv now) st = Some st' \<and> in_step {} st' \<and> budget (snd st') \<le> budget (snd st)"
proof -
  have "total.quiet ((fst st)\<lparr>outs := []\<rparr>)" using assms by (simp add: in_step_def)
  from total.tick_inv [OF this, of now] obtain srv cs where "tick ((fst st)\<lparr>outs := []\<rparr>) now = Some srv"
    "total.quiet srv" "emits cs ((fst st)\<lparr>outs := []\<rparr>) srv" and cs: "closes cs ((fst st)\<lparr>outs := []\<rparr>) srv" "cs \<subseteq> {..<MAX_CLIENTS}" by auto
  then show ?thesis using closes_phase [OF cs(1)] by (intro call_in_step [OF assms]) auto
qed

text \<open>After \<open>on_connect\<close> the new session has no connection yet; the embedder stores it next.\<close>

lemma call_connect_in_step:
  assumes "in_step {} st"
  obtains (full) t where "call_connect request now name st = Some (-1, (fst st)\<lparr>outs := []\<rparr>, t)"
      "in_step {} ((fst st)\<lparr>outs := []\<rparr>, t)" "budget t \<le> budget (snd st)"
  | (slot) i srv t where "i < MAX_CLIENTS" "call_connect request now name st = Some (int i, srv, t)" "in_step {i} (srv, t)"
      "alive t \<Longrightarrow> \<not> is_open t i" "phase (sessions srv ! i) \<noteq> FREE" "budget t \<le> budget (snd st)"
proof -
  let ?srv = "(fst st)\<lparr>outs := []\<rparr>"
  obtain srv slot where oc: "on_connect ?srv now name = (srv, slot)" by fastforce
  have q: "total.quiet srv" using total.connect_inv(1) [of ?srv now name] assms oc by (simp add: in_step_def)
  have len: "length (sessions (fst st)) = MAX_CLIENTS" using assms by (simp add: in_step_def total.quiet_def)
  have es: "\<forall>e\<in>set (outs srv). is_send e \<or> (\<exists>j\<in>{}. e = CloseConnection j)"
    using oc by (auto simp: on_connect_def notify_def split: option.splits if_splits)
  have "ok (snd st)" using assms by (simp add: in_step_def)
  from requests [OF this _ es] obtain t where t: "fold_ub request (outs srv) (snd st) = Some t" "ok t" "budget t \<le> budget (snd st)"
    "alive t \<longrightarrow> alive (snd st) \<and> (\<forall>j<MAX_CLIENTS. is_open t j \<longleftrightarrow> is_open (snd st) j \<and> CloseConnection j \<notin> set (outs srv))" by auto
  have same: "alive t \<Longrightarrow> alive (snd st) \<and> (\<forall>j<MAX_CLIENTS. is_open t j = is_open (snd st) j)" using t(4) es by auto
  have cc: "call_connect request now name st = Some (slot, srv, t)" using oc t(1) by (simp add: call_connect_def)
  show thesis
  proof (cases "List.find (\<lambda>i. phase (sessions (fst st) ! i) = FREE) [0..<MAX_CLIENTS]")
    case None
    with oc have "srv = ?srv" "slot = -1" by (simp_all add: on_connect_def)
    with cc t(2,3) q same assms show thesis by (intro full [of t]) (simp_all add: in_step_def)
  next
    case (Some i)
    then have i: "i < MAX_CLIENTS" "phase (sessions (fst st) ! i) = FREE" by (auto simp: find_Some_iff)
    from Some oc have slot': "slot = int i" and s: "sessions srv = (sessions (fst st))[i := Session\<lparr>phase := WAIT_PREINIT, peer := name, deadline_ms := now + PREACTIVE_TIMEOUT_MS\<rparr>]"
      by (auto simp: on_connect_def)
    have "alive t \<Longrightarrow> \<forall>j<MAX_CLIENTS. is_open t j \<longleftrightarrow> phase (sessions (fst st) ! j) \<noteq> FREE" using assms same by (simp add: in_step_def)
    then have "in_step {i} (srv, t)" using q t(2) len i by (auto simp: in_step_def s nth_update)
    moreover have "alive t \<Longrightarrow> \<not> is_open t i" "phase (sessions srv ! i) \<noteq> FREE"
      using same assms i len by (simp_all add: in_step_def s)
    ultimately show thesis using cc t(3) i slot' by (intro slot) simp_all
  qed
qed

text \<open>Storing the connection brings the table in step again.\<close>

lemma adopt_in_step:
  assumes "in_step {i} (srv, t)" "ok t'" "phase (sessions srv ! i) \<noteq> FREE"
    and "alive t' \<longrightarrow> alive t \<and> (\<forall>j<MAX_CLIENTS. is_open t' j \<longleftrightarrow> is_open t j \<or> j = i)"
  shows "in_step {} (srv, t')"
  using assms by (auto simp: in_step_def)

lemma close_in_step:
  assumes "in_step {} (srv, t)" "ok t'" "alive t' \<longrightarrow> alive t \<and> (\<forall>j<MAX_CLIENTS. is_open t' j \<longleftrightarrow> is_open t j \<and> j \<noteq> i)"
  shows "in_step {i} (srv, t')"
  using assms by (auto simp: in_step_def)

lemma in_step_cong:
  assumes "in_step gone (srv, t)" "ok t'" "alive t' \<longrightarrow> alive t \<and> (\<forall>j<MAX_CLIENTS. is_open t' j = is_open t j)"
  shows "in_step gone (srv, t')"
  using assms by (auto simp: in_step_def)

end

end
