(* ===== verification/Component.thy ===== *)
theory Component
  imports Embedding
begin

text \<open>
  The ESPHome component: \<^verbatim>\<open>components/qnetd/qnetd_component.h\<close> and
  \<^verbatim>\<open>components/qnetd/qnetd_component.cpp\<close>. ESPHome itself (sockets, \<open>millis\<close>, sensors)
  is a parameter: the record \<open>esphome\<close> has one function per call of the component, over
  a type \<open>'k\<close> of socket handles and a type \<open>'w\<close> of states of the outside world. What the
  component relies on is \<open>esphome_ok\<close>.

  A state is the server the component owns and the rest of the component. ESPHome calls
  \<open>setup\<close> once and then \<open>loop\<close> again and again. Log output and \<open>dump_config\<close> are left out.
\<close>

subsection \<open>The platform\<close>

datatype publication =
    PublishConnected nat
  | PublishDecisions u32
  | PublishVoteGranted bool
  | PublishStatus string

text \<open>A negative result of \<open>read\<close> and \<open>write\<close> is \<open>Inl\<close> with the value of \<^verbatim>\<open>errno\<close>; \<open>Inr\<close> is the
  number of bytes written, or the bytes read. Reading no bytes is the end of the stream.\<close>

record ('k, 'w) esphome =
  socket_ip :: "'w \<Rightarrow> 'k option \<times> 'w"
  set_sockaddr_any :: "u16 \<Rightarrow> bytes"
  sock_setopt :: "'k \<Rightarrow> string \<Rightarrow> 'w \<Rightarrow> 'w"
  sock_setblocking :: "'k \<Rightarrow> bool \<Rightarrow> 'w \<Rightarrow> 'w"
  sock_bind :: "'k \<Rightarrow> bytes \<Rightarrow> 'w \<Rightarrow> int \<times> 'w"
  sock_listen :: "'k \<Rightarrow> int \<Rightarrow> 'w \<Rightarrow> int \<times> 'w"
  sock_accept :: "'k \<Rightarrow> 'w \<Rightarrow> ('k \<times> sockaddr) option \<times> 'w"
  inet_ntop :: "sockaddr \<Rightarrow> string"
  sock_write :: "'k \<Rightarrow> bytes \<Rightarrow> 'w \<Rightarrow> (errno + nat) \<times> 'w"
  sock_read :: "'k \<Rightarrow> nat \<Rightarrow> 'w \<Rightarrow> (errno + bytes) \<times> 'w"
  sock_close :: "'k \<Rightarrow> 'w \<Rightarrow> 'w"
  millis :: "'w \<Rightarrow> u32 \<times> 'w"
  publish_state :: "publication \<Rightarrow> 'w \<Rightarrow> 'w"
  status_state :: "'w \<Rightarrow> string option"
  use_ipv6 :: bool

subsection \<open>State\<close>

record 'k conn =
  sock :: "'k option"
  tx :: bytes
  used :: bool

definition Conn :: "'k conn" where
  "Conn = \<lparr>sock = None, tx = [], used = False\<rparr>"

record ('k, 'w) component =
  port :: u16
  listen_sock :: "'k option"
  conns :: "'k conn list"
  dirty :: bool
  last_millis :: u32
  millis_high :: u64
  connected_sensor :: bool
  decisions_sensor :: bool
  vote_granted_sensor :: bool
  status_sensor :: bool
  failed :: bool
  world :: 'w

definition QnetdComponent :: "'w \<Rightarrow> ('k, 'w) component" where
  "QnetdComponent w =
    \<lparr>port = 5403, listen_sock = None, conns = replicate MAX_CLIENTS Conn, dirty = False,
     last_millis = 0, millis_high = 0, connected_sensor = False, decisions_sensor = False,
     vote_granted_sensor = False, status_sensor = False, failed = False, world = w\<rparr>"

definition set_port :: "u16 \<Rightarrow> ('k, 'w) component \<Rightarrow> ('k, 'w) component" where
  "set_port p c = c\<lparr>port := p\<rparr>"

definition set_connected_sensor :: "bool \<Rightarrow> ('k, 'w) component \<Rightarrow> ('k, 'w) component" where
  "set_connected_sensor s c = c\<lparr>connected_sensor := s\<rparr>"

definition set_decisions_sensor :: "bool \<Rightarrow> ('k, 'w) component \<Rightarrow> ('k, 'w) component" where
  "set_decisions_sensor s c = c\<lparr>decisions_sensor := s\<rparr>"

definition set_vote_granted_sensor :: "bool \<Rightarrow> ('k, 'w) component \<Rightarrow> ('k, 'w) component" where
  "set_vote_granted_sensor s c = c\<lparr>vote_granted_sensor := s\<rparr>"

definition set_status_sensor :: "bool \<Rightarrow> ('k, 'w) component \<Rightarrow> ('k, 'w) component" where
  "set_status_sensor s c = c\<lparr>status_sensor := s\<rparr>"

subsection \<open>Clock and setup\<close>

definition now_ms :: "('k, 'w) esphome \<Rightarrow> ('k, 'w) component \<Rightarrow> u64 \<times> ('k, 'w) component" where
  "now_ms env c =
     (case millis env (world c) of (now, w) \<Rightarrow>
        let high = (if now < last_millis c then millis_high c + 0x100000000 else millis_high c)
        in (high OR ucast now, c\<lparr>world := w, millis_high := high, last_millis := now\<rparr>))"

text \<open>The server is created with its default limit of 32768 bytes per message and with a
  callback. \<open>mark_failed\<close> makes every later \<open>loop\<close> a no-op.\<close>

definition component_setup :: "('k, 'w) esphome \<Rightarrow> ('k, 'w) component \<Rightarrow> server \<times> ('k, 'w) component" where
  "component_setup env c =
     (case socket_ip env (world c) of
        (None, w) \<Rightarrow> (Server 32768 True, c\<lparr>listen_sock := None, world := w, failed := True\<rparr>)
      | (Some l, w) \<Rightarrow>
          let w = sock_setblocking env l False (sock_setopt env l ''SO_REUSEADDR'' w);
              addr = set_sockaddr_any env (port c);
              (bound, w) = (if addr = [] then (False, w)
                            else case sock_bind env l addr w of (r, w) \<Rightarrow> (r = 0, w));
              (listening, w) = (if \<not> bound then (False, w)
                                else case sock_listen env l 4 w of (r, w) \<Rightarrow> (r = 0, w))
          in (Server 32768 True, c\<lparr>listen_sock := Some l, world := w, failed := failed c \<or> \<not> listening\<rparr>))"

subsection \<open>The transport\<close>

definition set_conn :: "nat \<Rightarrow> 'k conn \<Rightarrow> ('k, 'w) component \<Rightarrow> ('k, 'w) component" where
  "set_conn slot cn c = c\<lparr>conns := (conns c)[slot := cn]\<rparr>"

text \<open>The connection of a slot, if it is in use and has a socket.\<close>

definition live :: "'k conn \<Rightarrow> 'k option" where
  "live cn = (if used cn then sock cn else None)"

definition component_send_frame ::
    "('k, 'w) esphome \<Rightarrow> nat \<Rightarrow> frame \<Rightarrow> ('k, 'w) component \<Rightarrow> ('k, 'w) component ub" where
  "component_send_frame env slot data c = do {
     cn \<leftarrow> at_ub (conns c) slot;
     case live cn of
       None \<Rightarrow> Some c
     | Some k \<Rightarrow>
         if tx cn = [] then
           (case sock_write env k data (world c) of (r, w) \<Rightarrow>
              case (case r of Inr n \<Rightarrow> Some n
                    | Inl e \<Rightarrow> if e \<noteq> EWOULDBLOCK \<and> e \<noteq> EAGAIN then None else Some 0) of
                None \<Rightarrow> Some (c\<lparr>world := w\<rparr>)
              | Some n \<Rightarrow>
                  Some (if n < length data then set_conn slot (cn\<lparr>tx := tx cn @ drop n data\<rparr>) (c\<lparr>world := w\<rparr>)
                        else c\<lparr>world := w\<rparr>))
         else Some (set_conn slot (cn\<lparr>tx := tx cn @ data\<rparr>) c)
   }"

definition component_close_connection ::
    "('k, 'w) esphome \<Rightarrow> nat \<Rightarrow> ('k, 'w) component \<Rightarrow> ('k, 'w) component ub" where
  "component_close_connection env slot c = do {
     cn \<leftarrow> at_ub (conns c) slot;
     let w = (case sock cn of None \<Rightarrow> world c | Some k \<Rightarrow> sock_close env k (world c));
     Some (set_conn slot (cn\<lparr>sock := None, tx := [], used := False\<rparr>) (c\<lparr>world := w\<rparr>))
   }"

fun component_request :: "('k, 'w) esphome \<Rightarrow> out_event \<Rightarrow> ('k, 'w) component \<Rightarrow> ('k, 'w) component ub" where
  "component_request env (SendFrame slot f) c = component_send_frame env slot f c"
| "component_request env (CloseConnection slot) c = component_close_connection env slot c"
| "component_request env StateChange c = Some (c\<lparr>dirty := True\<rparr>)"

subsection \<open>The loop\<close>

type_synonym ('k, 'w) state = "server \<times> ('k, 'w) component"

definition peername :: "('k, 'w) esphome \<Rightarrow> sockaddr \<Rightarrow> string" where
  "peername env addr =
     (case addr of
        AF_INET a \<Rightarrow> inet_ntop env addr
      | AF_INET6 a \<Rightarrow> if use_ipv6 env then inet_ntop env addr else ''?''
      | AF_UNSPEC \<Rightarrow> ''?'')"

text \<open>One pass of a loop: \<open>Inl\<close> leaves it, \<open>Inr\<close> goes round again.\<close>

definition accept_step ::
    "('k, 'w) esphome \<Rightarrow> u64 \<Rightarrow> ('k, 'w) state \<Rightarrow> (('k, 'w) state + ('k, 'w) state) ub" where
  "accept_step env now st = do {
     l \<leftarrow> listen_sock (snd st);
     case sock_accept env l (world (snd st)) of
       (None, w) \<Rightarrow> Some (Inl (fst st, (snd st)\<lparr>world := w\<rparr>))
     | (Some (k, addr), w) \<Rightarrow> do {
         let w = sock_setopt env k ''TCP_NODELAY'' (sock_setblocking env k False w);
         (slot, srv, c) \<leftarrow> call_connect (component_request env) now (peername env addr) (fst st, (snd st)\<lparr>world := w\<rparr>);
         if slot < 0 then Some (Inr (srv, c\<lparr>world := sock_close env k (world c)\<rparr>))
         else do {
           cn \<leftarrow> at_ub (conns c) (nat slot);
           Some (Inr (srv, set_conn (nat slot) (cn\<lparr>sock := Some k, tx := [], used := True\<rparr>) c))
         }
       }
   }"

partial_function (option) accept_loop ::
    "('k, 'w) esphome \<Rightarrow> u64 \<Rightarrow> ('k, 'w) state \<Rightarrow> ('k, 'w) state option" where
  "accept_loop env now st =
     Option.bind (accept_step env now st) (\<lambda>r.
       case r of Inl st' \<Rightarrow> Some st' | Inr st' \<Rightarrow> accept_loop env now st')"

declare accept_loop.simps [code]

definition drop_connection :: "('k, 'w) esphome \<Rightarrow> nat \<Rightarrow> ('k, 'w) state \<Rightarrow> ('k, 'w) state ub" where
  "drop_connection env i st = do {
     c \<leftarrow> component_close_connection env i (snd st);
     call (component_request env) (\<lambda>srv. on_disconnected srv (int i)) (fst st, c)
   }"

definition read_step ::
    "('k, 'w) esphome \<Rightarrow> u64 \<Rightarrow> nat \<Rightarrow> ('k, 'w) state \<Rightarrow> (('k, 'w) state + ('k, 'w) state) ub" where
  "read_step env now i st = do {
     cn \<leftarrow> at_ub (conns (snd st)) i;
     case live cn of
       None \<Rightarrow> Some (Inl st)
     | Some k \<Rightarrow>
         (case sock_read env k 512 (world (snd st)) of (r, w) \<Rightarrow>
            let st = (fst st, (snd st)\<lparr>world := w\<rparr>)
            in case r of
                 Inr data \<Rightarrow>
                   if data \<noteq> [] then do {
                     st \<leftarrow> call (component_request env) (\<lambda>srv. on_data srv (int i) data now) st;
                     Some (Inr st)
                   }
                   else do { st \<leftarrow> drop_connection env i st; Some (Inl st) }
               | Inl e \<Rightarrow>
                   if e = EWOULDBLOCK \<or> e = EAGAIN then Some (Inl st)
                   else do { st \<leftarrow> drop_connection env i st; Some (Inl st) })
   }"

partial_function (option) read_loop ::
    "('k, 'w) esphome \<Rightarrow> u64 \<Rightarrow> nat \<Rightarrow> ('k, 'w) state \<Rightarrow> ('k, 'w) state option" where
  "read_loop env now i st =
     Option.bind (read_step env now i st) (\<lambda>r.
       case r of Inl st' \<Rightarrow> Some st' | Inr st' \<Rightarrow> read_loop env now i st')"

declare read_loop.simps [code]

definition flush_tx :: "('k, 'w) esphome \<Rightarrow> nat \<Rightarrow> 'k conn \<Rightarrow> 'k \<Rightarrow> ('k, 'w) component \<Rightarrow> ('k, 'w) component ub" where
  "flush_tx env i cn k c =
     (if tx cn = [] then Some c
      else case sock_write env k (tx cn) (world c) of
             (Inl e, w) \<Rightarrow> Some (c\<lparr>world := w\<rparr>)
           | (Inr n, w) \<Rightarrow>
               if n \<le> length (tx cn) then Some (set_conn i (cn\<lparr>tx := drop n (tx cn)\<rparr>) (c\<lparr>world := w\<rparr>))
               else None)"

definition io_slot :: "('k, 'w) esphome \<Rightarrow> u64 \<Rightarrow> nat \<Rightarrow> ('k, 'w) state \<Rightarrow> ('k, 'w) state ub" where
  "io_slot env now i st = do {
     cn \<leftarrow> at_ub (conns (snd st)) i;
     case live cn of
       None \<Rightarrow> Some st
     | Some k \<Rightarrow> do {
         c \<leftarrow> flush_tx env i cn k (snd st);
         read_loop env now i (fst st, c)
       }
   }"

definition publish :: "('k, 'w) esphome \<Rightarrow> ('k, 'w) state \<Rightarrow> ('k, 'w) state" where
  "publish env st =
     (let srv = fst st; c = snd st; w = world c;
          w = (if connected_sensor c then publish_state env (PublishConnected (connected_clients srv)) w else w);
          w = (if decisions_sensor c then publish_state env (PublishDecisions (decisions srv)) w else w);
          w = (if vote_granted_sensor c then publish_state env (PublishVoteGranted (any_ack srv)) w else w);
          w = (if status_sensor c then
                 (if status_state env w = None \<or> status_state env w \<noteq> Some (status_string srv)
                  then publish_state env (PublishStatus (status_string srv)) w else w)
               else w)
      in (srv, c\<lparr>world := w\<rparr>))"

definition component_loop :: "('k, 'w) esphome \<Rightarrow> ('k, 'w) state \<Rightarrow> ('k, 'w) state ub" where
  "component_loop env st =
     (if failed (snd st) then Some st
      else case now_ms env (snd st) of (now, c) \<Rightarrow> do {
        st \<leftarrow> accept_loop env now (fst st, c);
        st \<leftarrow> fold_ub (io_slot env now) [0..<MAX_CLIENTS] st;
        st \<leftarrow> call (component_request env) (\<lambda>srv. tick srv now) st;
        Some (if dirty (snd st) then publish env (fst st, (snd st)\<lparr>dirty := False\<rparr>) else st)
      })"

end
