(* ===== verification/Component_Facts.thy ===== *)
theory Component_Facts
  imports Component
begin

text \<open>
  The component as a transport of the server. \<open>esphome_ok\<close> collects what is assumed of the
  platform; under it \<open>loop\<close> returns and keeps the table of connections in step with the
  sessions. Then the 64-bit clock, and what reaches a peer: whole frames in order.
\<close>

subsection \<open>Assumptions on the platform\<close>

text \<open>\<open>input w\<close> bounds what the peers still send while \<open>loop\<close> runs: connections and bytes.
  Accepting a connection and reading bytes use it up, nothing adds to it. \<open>write\<close> reports
  at most as many bytes as it was given.\<close>

definition esphome_ok :: "('k, 'w) esphome \<Rightarrow> ('w \<Rightarrow> nat) \<Rightarrow> bool" where
  "esphome_ok env input \<longleftrightarrow>
     (\<forall>k opt w. input (sock_setopt env k opt w) \<le> input w) \<and>
     (\<forall>k b w. input (sock_setblocking env k b w) \<le> input w) \<and>
     (\<forall>k w. input (sock_close env k w) \<le> input w) \<and>
     (\<forall>w. input (snd (millis env w)) \<le> input w) \<and>
     (\<forall>k bs w. case sock_write env k bs w of (r, w') \<Rightarrow> input w' \<le> input w \<and> (\<forall>n. r = Inr n \<longrightarrow> n \<le> length bs)) \<and>
     (\<forall>k n w. case sock_read env k n w of (r, w') \<Rightarrow>
        input w' + (case r of Inr bs \<Rightarrow> length bs | Inl e \<Rightarrow> 0) \<le> input w) \<and>
     (\<forall>l w. case sock_accept env l w of (r, w') \<Rightarrow> input w' + (if r = None then 0 else 1) \<le> input w)"

lemma esphome_okD:
  assumes "esphome_ok env input"
  shows "input (sock_setopt env k opt w) \<le> input w" "input (sock_setblocking env k b w) \<le> input w"
    "input (sock_close env k w) \<le> input w" "input (snd (millis env w)) \<le> input w"
    "sock_write env k bs w = (r, w') \<Longrightarrow> input w' \<le> input w" "sock_write env k bs w = (Inr n, w') \<Longrightarrow> n \<le> length bs"
    "sock_read env k m w = (Inr bs, w') \<Longrightarrow> input w' + length bs \<le> input w"
    "sock_read env k m w = (Inl e, w') \<Longrightarrow> input w' \<le> input w"
    "sock_accept env k w = (None, w') \<Longrightarrow> input w' \<le> input w"
    "sock_accept env k w = (Some a, w') \<Longrightarrow> input w' < input w"
proof -
  note laws = assms [unfolded esphome_ok_def]
  show "input (sock_setopt env k opt w) \<le> input w" "input (sock_setblocking env k b w) \<le> input w"
    "input (sock_close env k w) \<le> input w" "input (snd (millis env w)) \<le> input w"
    using laws by simp_all
  have wr: "case sock_write env k bs w of (r, w') \<Rightarrow> input w' \<le> input w \<and> (\<forall>n. r = Inr n \<longrightarrow> n \<le> length bs)"
    using laws by meson
  then show "sock_write env k bs w = (r, w') \<Longrightarrow> input w' \<le> input w" "sock_write env k bs w = (Inr n, w') \<Longrightarrow> n \<le> length bs"
    by simp_all
  have rd: "case sock_read env k m w of (r, w') \<Rightarrow> input w' + (case r of Inr bs \<Rightarrow> length bs | Inl e \<Rightarrow> 0) \<le> input w"
    using laws by meson
  then show "sock_read env k m w = (Inr bs, w') \<Longrightarrow> input w' + length bs \<le> input w"
    "sock_read env k m w = (Inl e, w') \<Longrightarrow> input w' \<le> input w" by simp_all
  have "case sock_accept env k w of (r, w') \<Rightarrow> input w' + (if r = None then 0 else 1) \<le> input w"
    using laws by meson
  then show "sock_accept env k w = (None, w') \<Longrightarrow> input w' \<le> input w"
    "sock_accept env k w = (Some a, w') \<Longrightarrow> input w' < input w" by simp_all
qed

definition conn_ok :: "'k conn \<Rightarrow> bool" where
  "conn_ok cn \<longleftrightarrow> (used cn \<longleftrightarrow> sock cn \<noteq> None) \<and> (\<not> used cn \<longrightarrow> tx cn = [])"

definition component_ok :: "('k, 'w) esphome \<Rightarrow> ('w \<Rightarrow> nat) \<Rightarrow> ('k, 'w) component \<Rightarrow> bool" where
  "component_ok env input c \<longleftrightarrow> esphome_ok env input \<and> length (conns c) = MAX_CLIENTS \<and> listen_sock c \<noteq> None \<and>
     (\<forall>cn\<in>set (conns c). conn_ok cn)"

definition is_open :: "('k, 'w) component \<Rightarrow> nat \<Rightarrow> bool" where
  "is_open c i \<longleftrightarrow> live (conns c ! i) \<noteq> None"

lemma component_ok_conn: "component_ok env input c \<Longrightarrow> i < MAX_CLIENTS \<Longrightarrow> at_ub (conns c) i = Some (conns c ! i) \<and> conn_ok (conns c ! i)"
  by (simp add: component_ok_def)

lemma set_conn_ok: "component_ok env input c \<Longrightarrow> conn_ok cn \<Longrightarrow> component_ok env input (set_conn i cn c)"
  using set_update_subset_insert [of "conns c" i cn] by (auto simp: component_ok_def set_conn_def)

lemma set_conn_frame [simp]:
  "world (set_conn i cn c) = world c" "conns (set_conn i cn c) = (conns c)[i := cn]" "dirty (set_conn i cn c) = dirty c"
  by (simp_all add: set_conn_def)

lemma component_ok_frame [simp]:
  "component_ok env input (c\<lparr>world := w\<rparr>) = component_ok env input c"
  "component_ok env input (c\<lparr>dirty := d\<rparr>) = component_ok env input c"
  by (simp_all add: component_ok_def)

lemma is_open_frame [simp]: "is_open (c\<lparr>world := w\<rparr>) = is_open c" "is_open (c\<lparr>dirty := d\<rparr>) = is_open c"
  by (simp_all add: is_open_def fun_eq_iff)

subsection \<open>The requests\<close>

text \<open>The outcomes of \<open>send_frame\<close> on an open connection: some bytes are handed to the
  socket and the rest is queued, or a broken socket drops the frame.\<close>

lemma send_frame_cases:
  assumes "component_ok env input c" "i < MAX_CLIENTS"
  obtains (closed) "live (conns c ! i) = None" "component_send_frame env i f c = Some c"
  | (queued) k where "live (conns c ! i) = Some k" "tx (conns c ! i) \<noteq> []"
      "component_send_frame env i f c = Some (set_conn i ((conns c ! i)\<lparr>tx := tx (conns c ! i) @ f\<rparr>) c)"
  | (written) k n w where "live (conns c ! i) = Some k" "tx (conns c ! i) = []" "n \<le> length f"
      "sock_write env k f (world c) = (Inr n, w) \<or>
        n = 0 \<and> (\<exists>e. sock_write env k f (world c) = (Inl e, w) \<and> (e = EWOULDBLOCK \<or> e = EAGAIN))"
      "component_send_frame env i f c = Some (set_conn i ((conns c ! i)\<lparr>tx := drop n f\<rparr>) (c\<lparr>world := w\<rparr>))"
  | (dropped) k e w where "live (conns c ! i) = Some k" "tx (conns c ! i) = []"
      "sock_write env k f (world c) = (Inl e, w)" "e \<noteq> EWOULDBLOCK" "e \<noteq> EAGAIN"
      "component_send_frame env i f c = Some (c\<lparr>world := w\<rparr>)"
proof -
  let ?cn = "conns c ! i"
  have at: "at_ub (conns c) i = Some ?cn" and p: "esphome_ok env input" and len: "length (conns c) = MAX_CLIENTS"
    using assms component_ok_conn by (auto simp: component_ok_def)
  show thesis
  proof (cases "live ?cn")
    case None
    with at closed show thesis by (simp add: component_send_frame_def)
  next
    case (Some k)
    obtain r w where wr: "sock_write env k f (world c) = (r, w)" by fastforce
    have fit: "set_conn i (?cn\<lparr>tx := []\<rparr>) c1 = c1" if "tx ?cn = []" "conns c1 = conns c" for c1
    proof -
      have "?cn\<lparr>tx := []\<rparr> = ?cn" using that(1) by (cases ?cn) simp
      with that(2) show ?thesis by (simp add: set_conn_def flip: that(2))
    qed
    consider "tx ?cn \<noteq> []" | n where "tx ?cn = []" "r = Inr n" | e where "tx ?cn = []" "r = Inl e" by (cases r) auto
    then show thesis
    proof cases
      case 1
      with at Some queued show thesis by (simp add: component_send_frame_def)
    next
      case (2 n)
      then have "n \<le> length f" using esphome_okD(6) [OF p] wr by blast
      then show thesis
        using 2 at Some wr fit [of "c\<lparr>world := w\<rparr>"]
        by (intro written [of k n w]) (auto simp: component_send_frame_def)
    next
      case (3 e)
      then show thesis
        using at Some wr dropped [of k e w] written [of k 0 w] fit [of "c\<lparr>world := w\<rparr>"]
        by (cases "e = EWOULDBLOCK \<or> e = EAGAIN") (auto simp: component_send_frame_def)
    qed
  qed
qed

lemma close_connection_ok:
  assumes "component_ok env input c" "i < MAX_CLIENTS"
  shows "\<exists>c'. component_close_connection env i c = Some c' \<and> component_ok env input c' \<and> input (world c') \<le> input (world c) \<and>
    (\<forall>j<MAX_CLIENTS. is_open c' j \<longleftrightarrow> is_open c j \<and> j \<noteq> i)"
proof -
  let ?w = "case sock (conns c ! i) of None \<Rightarrow> world c | Some k \<Rightarrow> sock_close env k (world c)"
  let ?c = "set_conn i ((conns c ! i)\<lparr>sock := None, tx := [], used := False\<rparr>) (c\<lparr>world := ?w\<rparr>)"
  have "component_close_connection env i c = Some ?c" using component_ok_conn [OF assms] by (simp add: component_close_connection_def)
  moreover have "component_ok env input ?c" using assms by (intro set_conn_ok) (simp_all add: conn_ok_def)
  moreover have "input ?w \<le> input (world c)"
    using assms(1) esphome_okD(3) by (auto simp: component_ok_def split: option.splits)
  moreover have "is_open ?c j \<longleftrightarrow> is_open c j \<and> j \<noteq> i" if "j < MAX_CLIENTS" for j
    using that assms by (simp add: is_open_def nth_update live_def component_ok_def)
  ultimately show ?thesis by auto
qed

lemma send_frame_ok:
  assumes "component_ok env input c" "i < MAX_CLIENTS"
  shows "\<exists>c'. component_send_frame env i f c = Some c' \<and> component_ok env input c' \<and> input (world c') \<le> input (world c) \<and>
    is_open c' = is_open c"
proof -
  have p: "esphome_ok env input" using assms(1) by (simp add: component_ok_def)
  have cn: "conn_ok (conns c ! i)" using component_ok_conn [OF assms] by simp
  have set: "component_ok env input (set_conn i ((conns c ! i)\<lparr>tx := q\<rparr>) c1) \<and> is_open (set_conn i ((conns c ! i)\<lparr>tx := q\<rparr>) c1) = is_open c"
    if "live (conns c ! i) = Some k" "component_ok env input c1" "conns c1 = conns c" for q k c1
    using that cn assms(2)
    by (intro conjI set_conn_ok) (auto simp: conn_ok_def live_def is_open_def fun_eq_iff nth_update split: if_splits)
  show ?thesis
    using assms
  proof (cases rule: send_frame_cases [where f = f])
    case closed
    with assms show ?thesis by simp
  next
    case (queued k)
    with set [OF queued(1) assms(1)] show ?thesis by simp
  next
    case (written k n w)
    then have "input w \<le> input (world c)" using esphome_okD(5) [OF p] by blast
    with written set [OF written(1), of "c\<lparr>world := w\<rparr>"] assms(1) show ?thesis by simp
  next
    case (dropped k e w)
    then have "input w \<le> input (world c)" using esphome_okD(5) [OF p] by blast
    with dropped assms(1) show ?thesis by simp
  qed
qed

interpretation esp: transport "component_request env" is_open "component_ok env input" "\<lambda>c. True" "\<lambda>c. input (world c)" for env input
proof
  fix c e i
  assume ok: "component_ok env input c"
  show "\<exists>c'. component_request env e c = Some c' \<and> component_ok env input c' \<and> input (world c') \<le> input (world c) \<and>
      (True \<longrightarrow> True \<and> (\<forall>i<MAX_CLIENTS. is_open c' i = is_open c i))" if "is_send e"
    using that ok send_frame_ok by (cases e) fastforce+
  show "\<exists>c'. component_request env (CloseConnection i) c = Some c' \<and> component_ok env input c' \<and> input (world c') \<le> input (world c) \<and>
      (True \<longrightarrow> True \<and> (\<forall>j<MAX_CLIENTS. is_open c' j \<longleftrightarrow> is_open c j \<and> j \<noteq> i))" if "i < MAX_CLIENTS"
    using close_connection_ok [OF ok that] by simp
qed

subsection \<open>The loop\<close>

abbreviation in_step :: "('k, 'w) esphome \<Rightarrow> ('w \<Rightarrow> nat) \<Rightarrow> ('k, 'w) state \<Rightarrow> bool" where
  "in_step env input st \<equiv> transport.in_step is_open (component_ok env input) (\<lambda>c. True) {} st"

lemma in_step_ok: "in_step env input st \<Longrightarrow> component_ok env input (snd st)"
  by (simp add: esp.in_step_def)

lemma in_step_world: "in_step env input (srv, c) \<Longrightarrow> in_step env input (srv, c\<lparr>world := w\<rparr>)"
  by (simp add: esp.in_step_def)

lemma store_in_step:
  assumes "transport.in_step is_open (component_ok env input) (\<lambda>c. True) {i} (srv, c)" "i < MAX_CLIENTS" "phase (sessions srv ! i) \<noteq> FREE"
  shows "in_step env input (srv, set_conn i ((conns c ! i)\<lparr>sock := Some k, tx := [], used := True\<rparr>) c)"
proof (rule esp.adopt_in_step [OF assms(1) _ assms(3)])
  have ok: "component_ok env input c" using assms(1) by (simp add: esp.in_step_def)
  then show "component_ok env input (set_conn i ((conns c ! i)\<lparr>sock := Some k, tx := [], used := True\<rparr>) c)"
    by (rule set_conn_ok) (simp add: conn_ok_def)
  show "True \<longrightarrow> True \<and>
      (\<forall>j<MAX_CLIENTS. is_open (set_conn i ((conns c ! i)\<lparr>sock := Some k, tx := [], used := True\<rparr>) c) j \<longleftrightarrow> is_open c j \<or> j = i)"
    using ok assms(2) by (auto simp: is_open_def nth_update live_def component_ok_def)
qed

lemma accept_step_cases:
  assumes st: "in_step env input st"
  obtains (stop) w where "accept_step env now st = Some (Inl (fst st, (snd st)\<lparr>world := w\<rparr>))"
      "in_step env input (fst st, (snd st)\<lparr>world := w\<rparr>)" "input w \<le> input (world (snd st))"
  | (again) st' where "accept_step env now st = Some (Inr st')" "in_step env input st'" "input (world (snd st')) < input (world (snd st))"
proof -
  have ok: "component_ok env input (snd st)" using st by (rule in_step_ok)
  then obtain l where l: "listen_sock (snd st) = Some l" and p: "esphome_ok env input" by (auto simp: component_ok_def)
  show thesis
  proof (cases "sock_accept env l (world (snd st))")
    case (Pair a w)
    show thesis
    proof (cases a)
      case None
      with Pair l stop [of w] esphome_okD(9) [OF p] in_step_world [of env input "fst st" "snd st" w] st show thesis
        by (simp add: accept_step_def)
    next
      case (Some ka)
      obtain k addr where ka: "ka = (k, addr)" by fastforce
      let ?w = "sock_setopt env k ''TCP_NODELAY'' (sock_setblocking env k False w)"
      have w: "input ?w < input (world (snd st))"
        using esphome_okD(10) [OF p, of l "world (snd st)" ka w] Pair Some
          order_trans [OF esphome_okD(1) [OF p, of k "''TCP_NODELAY''" "sock_setblocking env k False w"] esphome_okD(2) [OF p, of k False w]] by simp
      have st1: "in_step env input (fst st, (snd st)\<lparr>world := ?w\<rparr>)" using st by (simp add: in_step_world)
      note step = accept_step_def [of env now st] l Pair Some ka
      show thesis
        using st1
      proof (cases rule: esp.call_connect_in_step [where now = now and name = "peername env addr"])
        case (full c)
        then have "in_step env input ((fst st)\<lparr>outs := []\<rparr>, c\<lparr>world := sock_close env k (world c)\<rparr>)"
          by (simp add: in_step_world)
        with full w esphome_okD(3) [OF p, of k "world c"] show thesis
          by (intro again [of "((fst st)\<lparr>outs := []\<rparr>, c\<lparr>world := sock_close env k (world c)\<rparr>)"]) (simp_all add: step)
      next
        case (slot i srv c)
        have "at_ub (conns c) i = Some (conns c ! i)"
          using slot(1,3) component_ok_conn by (auto simp: esp.in_step_def)
        with slot w store_in_step [OF slot(3,1,5), of k] show thesis
          by (intro again [of "(srv, set_conn i ((conns c ! i)\<lparr>sock := Some k, tx := [], used := True\<rparr>) c)"]) (simp_all add: step)
      qed
    qed
  qed
qed

lemma accept_loop_in_step:
  assumes "in_step env input st"
  shows "\<exists>st'. accept_loop env now st = Some st' \<and> in_step env input st'"
  using assms
proof (induction "input (world (snd st))" arbitrary: st rule: less_induct)
  case less
  show ?case
    using less.prems
  proof (cases rule: accept_step_cases [where now = now])
    case (stop w)
    then show ?thesis by (subst accept_loop.simps) simp
  next
    case (again st')
    with less.hyps [OF again(3,2)] show ?thesis by (subst accept_loop.simps) simp
  qed
qed

lemma drop_connection_in_step:
  assumes "in_step env input st" "i < MAX_CLIENTS"
  shows "\<exists>st'. drop_connection env i st = Some st' \<and> in_step env input st'"
proof -
  obtain c where c: "component_close_connection env i (snd st) = Some c" "component_ok env input c"
    "\<forall>j<MAX_CLIENTS. is_open c j \<longleftrightarrow> is_open (snd st) j \<and> j \<noteq> i"
    using close_connection_ok [OF in_step_ok [OF assms(1)] assms(2)] by blast
  have "transport.in_step is_open (component_ok env input) (\<lambda>c. True) {i} (fst st, c)"
    using esp.close_in_step [of env input "fst st" "snd st", OF _ c(2)] c(3) assms(1) by simp
  from esp.call_disconnected [OF this assms(2)] c(1) show ?thesis by (auto simp: drop_connection_def)
qed

lemma read_step_cases:
  assumes st: "in_step env input st" and i: "i < MAX_CLIENTS"
  obtains (stop) st' where "read_step env now i st = Some (Inl st')" "in_step env input st'"
  | (again) st' where "read_step env now i st = Some (Inr st')" "in_step env input st'" "input (world (snd st')) < input (world (snd st))"
proof -
  have ok: "component_ok env input (snd st)" using st by (rule in_step_ok)
  have at: "at_ub (conns (snd st)) i = Some (conns (snd st) ! i)" and p: "esphome_ok env input"
    using component_ok_conn [OF ok i] ok by (simp_all add: component_ok_def)
  show thesis
  proof (cases "live (conns (snd st) ! i)")
    case None
    with at st stop show thesis by (simp add: read_step_def)
  next
    case (Some k)
    obtain r w where rd: "sock_read env k 512 (world (snd st)) = (r, w)" by fastforce
    let ?st = "(fst st, (snd st)\<lparr>world := w\<rparr>)"
    have st1: "in_step env input ?st" using st by (simp add: in_step_world)
    note step = read_step_def [of env now i st] at Some rd
    from drop_connection_in_step [OF st1 i] obtain st2 where "drop_connection env i ?st = Some st2" "in_step env input st2" by blast
    note gone = stop [OF _ this(2)] this(1)
    show thesis
    proof (cases r)
      case (Inl e)
      then show thesis using st1 stop [of ?st] gone by (cases "e = EWOULDBLOCK \<or> e = EAGAIN") (auto simp: step)
    next
      case (Inr data)
      show thesis
      proof (cases "data = []")
        case True
        with Inr gone show thesis by (simp add: step)
      next
        case False
        then have "input w < input (world (snd st))" using esphome_okD(7) [OF p rd [unfolded Inr]] by (cases data) simp_all
        moreover obtain st2 where "call (component_request env) (\<lambda>srv. on_data srv (int i) data now) ?st = Some st2"
          "in_step env input st2" "input (world (snd st2)) \<le> input w"
          using esp.call_data [OF st1, of "int i" data now] by auto
        ultimately show thesis using Inr False by (intro again [of st2]) (simp_all add: step)
      qed
    qed
  qed
qed

lemma read_loop_in_step:
  assumes "in_step env input st" "i < MAX_CLIENTS"
  shows "\<exists>st'. read_loop env now i st = Some st' \<and> in_step env input st'"
  using assms(1)
proof (induction "input (world (snd st))" arbitrary: st rule: less_induct)
  case less
  show ?case
    using less.prems assms(2)
  proof (cases rule: read_step_cases [where now = now])
    case (stop st')
    then show ?thesis by (subst read_loop.simps) simp
  next
    case (again st')
    with less.hyps [OF again(3,2)] show ?thesis by (subst read_loop.simps) simp
  qed
qed

lemma flush_tx_in_step:
  assumes "in_step env input (srv, c)" "i < MAX_CLIENTS" "live (conns c ! i) = Some k"
  shows "\<exists>c'. flush_tx env i (conns c ! i) k c = Some c' \<and> in_step env input (srv, c')"
proof (cases "tx (conns c ! i) = []")
  case True
  with assms show ?thesis by (simp add: flush_tx_def)
next
  case False
  obtain r w where wr: "sock_write env k (tx (conns c ! i)) (world c) = (r, w)" by fastforce
  have ok: "component_ok env input c" using in_step_ok [OF assms(1)] by simp
  show ?thesis
  proof (cases r)
    case (Inl e)
    with False wr assms(1) show ?thesis by (simp add: flush_tx_def in_step_world)
  next
    case (Inr n)
    let ?c = "set_conn i ((conns c ! i)\<lparr>tx := drop n (tx (conns c ! i))\<rparr>) (c\<lparr>world := w\<rparr>)"
    have "n \<le> length (tx (conns c ! i))" using esphome_okD(6) [of env input] ok wr Inr by (simp add: component_ok_def)
    moreover have "component_ok env input ?c"
      using ok component_ok_conn [OF ok assms(2)] by (intro set_conn_ok) (auto simp: conn_ok_def)
    moreover have "is_open ?c j = is_open c j" for j
      using assms(3) by (simp add: is_open_def nth_update live_def split: if_splits)
    ultimately show ?thesis using False wr Inr esp.in_step_cong [OF assms(1), of ?c] by (simp add: flush_tx_def)
  qed
qed

lemma io_slot_in_step:
  assumes "in_step env input st" "i < MAX_CLIENTS"
  shows "\<exists>st'. io_slot env now i st = Some st' \<and> in_step env input st'"
proof (cases "live (conns (snd st) ! i)")
  case None
  with assms component_ok_conn [OF in_step_ok [OF assms(1)] assms(2)] show ?thesis by (simp add: io_slot_def)
next
  case (Some k)
  then obtain c where "flush_tx env i (conns (snd st) ! i) k (snd st) = Some c" "in_step env input (fst st, c)"
    using flush_tx_in_step [of env input "fst st" "snd st"] assms by auto
  moreover from this(2) obtain st' where "read_loop env now i (fst st, c) = Some st'" "in_step env input st'"
    using read_loop_in_step [OF _ assms(2)] by blast
  ultimately show ?thesis
    using Some component_ok_conn [OF in_step_ok [OF assms(1)] assms(2)] by (simp add: io_slot_def)
qed

lemma now_ms_frame:
  assumes "now_ms env c = (now, c')"
  shows "conns c' = conns c" "listen_sock c' = listen_sock c" "failed c' = failed c" "dirty c' = dirty c"
  using assms by (auto simp: now_ms_def Let_def split: prod.splits)

lemma now_ms_in_step: "in_step env input (srv, c) \<Longrightarrow> now_ms env c = (now, c') \<Longrightarrow> in_step env input (srv, c')"
  by (rule esp.in_step_cong) (auto simp: component_ok_def is_open_def now_ms_frame dest!: in_step_ok)

lemma publish_in_step: "in_step env input st \<Longrightarrow> in_step env input (publish env (fst st, (snd st)\<lparr>dirty := d\<rparr>))"
  by (simp add: publish_def Let_def esp.in_step_def)

lemma component_loop_in_step:
  assumes "in_step env input st" "\<not> failed (snd st)"
  shows "\<exists>st'. component_loop env st = Some st' \<and> in_step env input st' \<and> \<not> dirty (snd st')"
proof -
  obtain now c where now: "now_ms env (snd st) = (now, c)" by fastforce
  have "in_step env input (fst st, c)" using now_ms_in_step [OF _ now] assms(1) by simp
  from accept_loop_in_step [OF this] obtain st1 where st1: "accept_loop env now (fst st, c) = Some st1" "in_step env input st1" by blast
  obtain st2 where st2: "fold_ub (io_slot env now) [0..<MAX_CLIENTS] st1 = Some st2" "in_step env input st2"
    using fold_ub_invariant [where P = "in_step env input", OF st1(2), of "[0..<MAX_CLIENTS]" "io_slot env now"] io_slot_in_step
    by (metis atLeastLessThan_iff set_upt)
  obtain st3 where st3: "call (component_request env) (\<lambda>srv. tick srv now) st2 = Some st3" "in_step env input st3"
    using esp.call_tick [OF st2(2)] by blast
  have "component_loop env st = Some (if dirty (snd st3) then publish env (fst st3, (snd st3)\<lparr>dirty := False\<rparr>) else st3)"
    using assms(2) now st1(1) st2(1) st3(1) by (simp add: component_loop_def)
  with st3(2) publish_in_step [OF st3(2)] show ?thesis by (auto simp: publish_def Let_def)
qed

subsection \<open>From setup on\<close>

text \<open>A component as the configuration leaves it before \<open>setup\<close>: a port and the sensors attached.\<close>

definition configured :: "u16 \<Rightarrow> bool \<Rightarrow> bool \<Rightarrow> bool \<Rightarrow> bool \<Rightarrow> 'w \<Rightarrow> ('k, 'w) component" where
  "configured p connected decs vote status w =
     set_status_sensor status (set_vote_granted_sensor vote (set_decisions_sensor decs
       (set_connected_sensor connected (set_port p (QnetdComponent w)))))"

lemma configured_fresh [simp]:
  "conns (configured p a b v s w) = replicate MAX_CLIENTS Conn" "\<not> failed (configured p a b v s w)"
  by (simp_all add: configured_def set_status_sensor_def set_vote_granted_sensor_def set_decisions_sensor_def set_connected_sensor_def
      set_port_def QnetdComponent_def)

text \<open>ESPHome calls \<open>loop\<close> repeatedly; between two calls the world changes by itself.\<close>

definition passes :: "('k, 'w) esphome \<Rightarrow> ('w \<Rightarrow> 'w) list \<Rightarrow> ('k, 'w) state \<Rightarrow> ('k, 'w) state ub" where
  "passes env hs st = fold_ub (\<lambda>h st. component_loop env (fst st, (snd st)\<lparr>world := h (world (snd st))\<rparr>)) hs st"

lemma component_setup_in_step:
  assumes "esphome_ok env input" "conns c = replicate MAX_CLIENTS Conn" "\<not> failed c"
  shows "failed (snd (component_setup env c)) \<or> in_step env input (component_setup env c)"
proof (cases "socket_ip env (world c)")
  case (Pair l w)
  show ?thesis
  proof (cases l)
    case None
    with Pair show ?thesis by (simp add: component_setup_def)
  next
    case (Some k)
    have "in_step env input (Server 32768 True, c1)" if "conns c1 = conns c" "listen_sock c1 = Some k" for c1
    proof -
      have "phase (sessions (Server 32768 True) ! i) = FREE" if "i < MAX_CLIENTS" for i
        using that by (simp add: Server_def Session_def)
      then show ?thesis
        using that assms Server_ok Server_idle
        by (auto simp: esp.in_step_def total.quiet_def component_ok_def is_open_def live_def conn_ok_def Conn_def)
    qed
    with Pair Some show ?thesis by (auto simp: component_setup_def Let_def split: prod.splits)
  qed
qed

lemma passes_in_step:
  assumes "failed (snd st) \<or> in_step env input st"
  shows "\<exists>st'. passes env hs st = Some st' \<and> (failed (snd st') \<or> in_step env input st')"
  unfolding passes_def
proof (rule fold_ub_invariant [where P = "\<lambda>st. failed (snd st) \<or> in_step env input st", OF assms])
  fix h st
  assume "failed (snd st) \<or> in_step env input st"
  then show "\<exists>st'. component_loop env (fst st, (snd st)\<lparr>world := h (world (snd st))\<rparr>) = Some st' \<and> (failed (snd st') \<or> in_step env input st')"
    using component_loop_in_step [of env input "(fst st, (snd st)\<lparr>world := h (world (snd st))\<rparr>)"]
    by (cases "failed (snd st)") (auto simp: component_loop_def in_step_world)
qed

lemma passes_from_setup:
  assumes "esphome_ok env input"
  shows "\<exists>st. passes env hs (component_setup env (configured p a b v s w)) = Some st \<and> (failed (snd st) \<or> in_step env input st)"
  by (rule passes_in_step, rule component_setup_in_step [OF assms]) simp_all

lemma in_stepD:
  assumes "in_step env input (srv, c)"
  shows "server_ok srv" "idle srv" "length (conns c) = MAX_CLIENTS"
    "i < MAX_CLIENTS \<Longrightarrow> used (conns c ! i) \<longleftrightarrow> phase (sessions srv ! i) \<noteq> FREE"
    "i < MAX_CLIENTS \<Longrightarrow> sock (conns c ! i) \<noteq> None \<longleftrightarrow> phase (sessions srv ! i) \<noteq> FREE"
    "i < MAX_CLIENTS \<Longrightarrow> phase (sessions srv ! i) = FREE \<Longrightarrow> tx (conns c ! i) = []"
  using assms component_ok_conn [of env input c i]
  by (auto simp: esp.in_step_def total.quiet_def component_ok_def is_open_def live_def conn_ok_def split: if_splits)

end
