(* ===== verification/Component_Stream.thy ===== *)
theory Component_Stream
  imports Component_Facts "HOL-Library.Sublist"
begin

text \<open>
  What the component shows its neighbours: the 64-bit clock it hands to the server, and
  the bytes a peer receives. \<open>sent k w\<close> stands for the bytes the socket \<open>k\<close> has accepted so
  far; together with the queue of the connection they are a sequence of whole frames.
\<close>

subsection \<open>The clock\<close>

text \<open>The component has last read its clock at the time \<open>t\<close>, in milliseconds.\<close>

definition clock_at :: "('k, 'w) component \<Rightarrow> nat \<Rightarrow> bool" where
  "clock_at c t \<longleftrightarrow> last_millis c = of_nat t \<and> millis_high c = of_nat (t div 2 ^ 32 * 2 ^ 32)"

lemma or_low_word: "(of_nat (q * 2 ^ 32) :: u64) OR ucast (of_nat t :: u32) = of_nat (q * 2 ^ 32 + t mod 2 ^ 32)"
proof -
  have high: "(of_nat (q * 2 ^ 32) :: u64) = push_bit 32 (of_nat q)" by (simp add: push_bit_eq_mult)
  have low: "ucast (of_nat t :: u32) = (of_nat (t mod 2 ^ 32) :: u64)"
    by (simp add: unsigned_of_nat take_bit_eq_mod)
  have "bit (ucast (of_nat t :: u32) :: u64) n \<Longrightarrow> n < 32" for n by (simp add: bit_simps)
  then have "(push_bit 32 (of_nat q) :: u64) OR ucast (of_nat t :: u32) = push_bit 32 (of_nat q) + ucast (of_nat t :: u32)"
    by (intro disjunctive_add [symmetric]) (metis bit_push_bit_iff linorder_not_less)
  then show ?thesis unfolding high low [symmetric] by (simp add: low high [symmetric])
qed

lemma div_next:
  assumes "t \<le> t'" "t' < t + (m :: nat)"
  shows "t' div m = (if t' mod m < t mod m then t div m + 1 else t div m)"
proof -
  have m: "0 < m" using assms by simp
  have t: "t = m * (t div m) + t mod m" "t' = m * (t' div m) + t' mod m" "t mod m < m" using m by simp_all
  show ?thesis
  proof (cases "t' mod m < t mod m")
    case True
    have "m * (t div m) < m * (t' div m)" using True assms(1) t by linarith
    moreover have "m * (t' div m) < m * (t div m + 2)"
    proof -
      have "m * (t div m + 2) = m * (t div m) + m + m" by simp
      with assms(2) t show ?thesis by linarith
    qed
    ultimately show ?thesis using True m by (simp only: mult_less_cancel1) simp
  next
    case False
    have "m * (t' div m) < m * (t div m + 1)" 
    proof -
      have "m * (t div m + 1) = m * (t div m) + m" by simp
      with False assms(2) t show ?thesis by linarith
    qed
    moreover have "t div m \<le> t' div m" using assms(1) by (rule div_le_mono)
    ultimately show ?thesis using False m by (simp only: mult_less_cancel1) simp
  qed
qed

lemma unat_millis: "(of_nat t' :: u32) < of_nat t \<longleftrightarrow> t' mod 2 ^ 32 < t mod 2 ^ 32"
  by (simp add: word_less_nat_alt unat_of_nat)

lemma now_ms_exact:
  assumes "clock_at c t" "millis env (world c) = (of_nat t', w)" "t \<le> t'" "t' < t + 2 ^ 32"
  shows "\<exists>c'. now_ms env c = (of_nat t', c') \<and> clock_at c' t'"
proof -
  define high :: u64 where "high = of_nat (t' div 2 ^ 32 * 2 ^ 32)"
  have "high = (if (of_nat t' :: u32) < last_millis c then millis_high c + 0x100000000 else millis_high c)"
    using assms(1) div_next [OF assms(3,4)] unat_millis [of t' t] by (simp add: high_def clock_at_def algebra_simps)
  moreover have "high OR ucast (of_nat t' :: u32) = of_nat t'"
    using or_low_word [of "t' div 2 ^ 32" t'] by (simp add: high_def)
  ultimately show ?thesis using assms(2) by (simp add: now_ms_def Let_def clock_at_def high_def)
qed

subsection \<open>The stream of frames\<close>

text \<open>What \<open>write\<close> reports is what the peer receives, and writing to one socket leaves the
  others alone. Closing a socket sends nothing.\<close>

definition stream_ok :: "('k, 'w) esphome \<Rightarrow> ('k \<Rightarrow> 'w \<Rightarrow> bytes) \<Rightarrow> bool" where
  "stream_ok env sent \<longleftrightarrow>
     (\<forall>k bs w r w'. sock_write env k bs w = (r, w') \<longrightarrow>
        sent k w' = sent k w @ (case r of Inr n \<Rightarrow> take n bs | Inl e \<Rightarrow> []) \<and> (\<forall>k'. k' \<noteq> k \<longrightarrow> sent k' w' = sent k' w)) \<and>
     (\<forall>k k' w. sent k' (sock_close env k w) = sent k' w)"

lemma stream_okD:
  assumes "stream_ok env sent" "sock_write env k bs w = (r, w')"
  shows "sent k w' = sent k w @ (case r of Inr n \<Rightarrow> take n bs | Inl e \<Rightarrow> [])" "k' \<noteq> k \<Longrightarrow> sent k' w' = sent k' w"
  using assms unfolding stream_ok_def by blast+

text \<open>The connection of slot \<open>i\<close> has the socket \<open>k\<close>, and no other connection has it.\<close>

definition owns :: "('k, 'w) component \<Rightarrow> nat \<Rightarrow> 'k \<Rightarrow> bool" where
  "owns c i k \<longleftrightarrow> i < MAX_CLIENTS \<and> live (conns c ! i) = Some k \<and> (\<forall>j<MAX_CLIENTS. j \<noteq> i \<longrightarrow> sock (conns c ! j) \<noteq> Some k)"

definition stream :: "('k \<Rightarrow> 'w \<Rightarrow> bytes) \<Rightarrow> nat \<Rightarrow> 'k \<Rightarrow> ('k, 'w) component \<Rightarrow> bytes" where
  "stream sent i k c = sent k (world c) @ tx (conns c ! i)"

text \<open>The frames the server hands over for a slot.\<close>

fun frames_to :: "nat \<Rightarrow> out_event list \<Rightarrow> frame list" where
  "frames_to i [] = []"
| "frames_to i (SendFrame j f # es) = (if j = i then f # frames_to i es else frames_to i es)"
| "frames_to i (e # es) = frames_to i es"

text \<open>Writes to \<open>k\<close> fail only because the socket would block.\<close>

definition healthy :: "('k, 'w) esphome \<Rightarrow> 'k \<Rightarrow> bool" where
  "healthy env k \<longleftrightarrow> (\<forall>bs w e w'. sock_write env k bs w = (Inl e, w') \<longrightarrow> e = EWOULDBLOCK \<or> e = EAGAIN)"

lemma live_sock: "live cn = Some k \<Longrightarrow> sock cn = Some k"
  by (simp add: live_def split: if_splits)

text \<open>A frame for the slot goes to the end of the stream, or a broken socket drops it whole.\<close>

lemma send_own:
  assumes ok: "component_ok env input c" and s: "stream_ok env sent" and own: "owns c i k"
    and run: "component_send_frame env i f c = Some c'"
  shows "owns c' i k \<and> (stream sent i k c' = stream sent i k c @ f \<or> \<not> healthy env k \<and> stream sent i k c' = stream sent i k c)"
proof -
  have i: "i < MAX_CLIENTS" and k: "live (conns c ! i) = Some k" using own by (simp_all add: owns_def)
  have len: "length (conns c) = MAX_CLIENTS" using ok by (simp add: component_ok_def)
  have own': "owns (set_conn i ((conns c ! i)\<lparr>tx := q\<rparr>) c1) i k" if "conns c1 = conns c" for q c1
    using own that len i by (auto simp: owns_def nth_update live_def split: if_splits)
  show ?thesis
    using ok i
  proof (cases rule: send_frame_cases [where f = f])
    case closed
    with k show ?thesis by simp
  next
    case (queued k')
    with run own' [of c] i len show ?thesis by (auto simp: stream_def)
  next
    case (written k' n w)
    then have k': "k' = k" using k by simp
    have "sent k w = sent k (world c) @ take n f"
      using written(4) stream_okD(1) [OF s, of k f "world c" _ w] unfolding k' by auto
    with written run own' [of "c\<lparr>world := w\<rparr>"] i len show ?thesis by (auto simp: stream_def)
  next
    case (dropped k' e w)
    then have k': "k' = k" using k by simp
    have "sent k w = sent k (world c)" using stream_okD(1) [OF s dropped(3)] unfolding k' by simp
    moreover have "\<not> healthy env k" using dropped(3-5) k' by (auto simp: healthy_def)
    ultimately show ?thesis using dropped(6) run own by (auto simp: stream_def owns_def)
  qed
qed

lemma request_other:
  assumes ok: "component_ok env input c" and s: "stream_ok env sent" and own: "owns c i k"
    and run: "component_request env e c = Some c'" and other: "\<And>f. e \<noteq> SendFrame i f" "e \<noteq> CloseConnection i"
    and e: "is_send e \<or> (\<exists>j<MAX_CLIENTS. e = CloseConnection j)"
  shows "owns c' i k \<and> stream sent i k c' = stream sent i k c"
proof (cases e)
  case (SendFrame j f)
  then have j: "j < MAX_CLIENTS" "j \<noteq> i" using e other by auto
  have own': "owns (set_conn j ((conns c ! j)\<lparr>tx := q\<rparr>) c1) i k" if "conns c1 = conns c" for q c1
    using own that j by (auto simp: owns_def nth_update)
  have ne: "k' \<noteq> k" if "live (conns c ! j) = Some k'" for k' using live_sock [OF that] own j by (auto simp: owns_def)
  have run': "component_send_frame env j f c = Some c'" using run SendFrame by simp
  show ?thesis
    using ok j(1)
  proof (cases rule: send_frame_cases [where f = f])
    case closed
    with run' own show ?thesis by simp
  next
    case (queued k')
    with run' own' [of c] j show ?thesis by (auto simp: stream_def)
  next
    case (written k' n w)
    have "sent k w = sent k (world c)"
      using written(4) stream_okD(2) [OF s, of k' f "world c" _ w k] ne [OF written(1)] by auto
    with written run' own' [of "c\<lparr>world := w\<rparr>"] j show ?thesis by (auto simp: stream_def)
  next
    case (dropped k' e w)
    have "sent k w = sent k (world c)" using stream_okD(2) [OF s dropped(3)] ne [OF dropped(1)] by simp
    with dropped run' own show ?thesis by (auto simp: stream_def owns_def)
  qed
next
  case (CloseConnection j)
  then have j: "j \<noteq> i" using other by auto
  have w: "sent k (case sock cn of None \<Rightarrow> world c | Some k \<Rightarrow> sock_close env k (world c)) = sent k (world c)" for cn :: "'a conn"
    using s by (simp add: stream_ok_def split: option.split)
  show ?thesis
    using run CloseConnection j own w
    by (auto simp: component_close_connection_def bind_eq_Some_conv at_ub_eq_Some_iff owns_def stream_def nth_update split: if_splits)
next
  case StateChange
  with run own show ?thesis by (auto simp: owns_def stream_def)
qed

lemma requests_stream:
  assumes "component_ok env input c" "stream_ok env sent" "owns c i k"
    "fold_ub (component_request env) es c = Some c'" "\<forall>e\<in>set es. is_send e \<or> (\<exists>j<MAX_CLIENTS. e = CloseConnection j)" "CloseConnection i \<notin> set es"
  shows "owns c' i k \<and> (\<exists>fs. subseq fs (frames_to i es) \<and> stream sent i k c' = stream sent i k c @ concat fs \<and>
    (healthy env k \<longrightarrow> fs = frames_to i es))"
  using assms
proof (induction es arbitrary: c)
  case Nil
  then show ?case by (auto intro!: exI [of _ "[]"])
next
  case (Cons e es)
  from Cons.prems(4) obtain c1 where c1: "component_request env e c = Some c1" "fold_ub (component_request env) es c1 = Some c'"
    by (auto simp: bind_eq_Some_conv)
  have ok1: "component_ok env input c1"
    using esp.request_send [OF Cons.prems(1), of e] esp.request_close [OF Cons.prems(1)] c1(1) Cons.prems(5) by fastforce
  show ?case
  proof (cases "\<exists>f. e = SendFrame i f")
    case True
    then obtain f where f: "e = SendFrame i f" by blast
    with send_own [OF Cons.prems(1-3)] c1(1) have s: "owns c1 i k"
      "stream sent i k c1 = stream sent i k c @ f \<or> \<not> healthy env k \<and> stream sent i k c1 = stream sent i k c" by auto
    from Cons.IH [OF ok1 Cons.prems(2) s(1) c1(2)] Cons.prems(5,6) obtain fs where "owns c' i k" "subseq fs (frames_to i es)"
      "stream sent i k c' = stream sent i k c1 @ concat fs" "healthy env k \<longrightarrow> fs = frames_to i es" by auto
    with s(2) show ?thesis
      by (elim disjE) (intro conjI exI [of _ "f # fs"] | intro conjI exI [of _ fs] | auto simp: f)+
  next
    case False
    with request_other [OF Cons.prems(1-3) c1(1)] Cons.prems(5,6) have s: "owns c1 i k" "stream sent i k c1 = stream sent i k c"
      by auto
    have "frames_to i (e # es) = frames_to i es" using False by (cases e) auto
    with Cons.IH [OF ok1 Cons.prems(2) s(1) c1(2)] Cons.prems(5,6) s(2) show ?thesis by simp
  qed
qed

lemma flush_stream:
  assumes "stream_ok env sent" "owns c i k" "flush_tx env i (conns c ! i) k c = Some c'" "length (conns c) = MAX_CLIENTS"
  shows "stream sent i k c' = stream sent i k c"
proof (cases "tx (conns c ! i) = []")
  case True
  with assms(3) show ?thesis by (simp add: flush_tx_def)
next
  case False
  obtain r w where wr: "sock_write env k (tx (conns c ! i)) (world c) = (r, w)" by fastforce
  have "i < MAX_CLIENTS" using assms(2) by (simp add: owns_def)
  with False wr assms(3,4) stream_okD(1) [OF assms(1) wr] show ?thesis
    by (auto simp: flush_tx_def stream_def split: sum.splits if_splits)
qed

end
