(* ===== verification/Component_Sensors.thy ===== *)
theory Component_Sensors
  imports Component_Facts
begin

text \<open>
  The sensors of the component. The server calls its callback whenever it changes, the
  callback marks the component dirty, and a dirty component publishes at the end of
  \<open>loop\<close>. So once a sensor shows the state of the server, it shows it after every \<open>loop\<close>.
\<close>

subsection \<open>What a sensor shows\<close>

fun sensor :: "publication \<Rightarrow> nat" where
  "sensor (PublishConnected n) = 0"
| "sensor (PublishDecisions n) = 1"
| "sensor (PublishVoteGranted b) = 2"
| "sensor (PublishStatus s) = 3"

text \<open>\<open>display w p\<close>: in the world \<open>w\<close> the value last published to the sensor of \<open>p\<close> is that of
  \<open>p\<close>. Publishing sets the value of one sensor; sockets and clock leave the sensors alone.\<close>

definition sensors_ok :: "('k, 'w) esphome \<Rightarrow> ('w \<Rightarrow> publication \<Rightarrow> bool) \<Rightarrow> bool" where
  "sensors_ok env display \<longleftrightarrow>
     (\<forall>p w. display (publish_state env p w) p) \<and>
     (\<forall>p q w. sensor p \<noteq> sensor q \<longrightarrow> display (publish_state env q w) p = display w p) \<and>
     (\<forall>s w. status_state env w = Some s \<longrightarrow> display w (PublishStatus s)) \<and>
     (\<forall>k opt w. display (sock_setopt env k opt w) = display w) \<and>
     (\<forall>k b w. display (sock_setblocking env k b w) = display w) \<and>
     (\<forall>k w. display (sock_close env k w) = display w) \<and>
     (\<forall>w. display (snd (millis env w)) = display w) \<and>
     (\<forall>k bs w. display (snd (sock_write env k bs w)) = display w) \<and>
     (\<forall>k n w. display (snd (sock_read env k n w)) = display w) \<and>
     (\<forall>l w. display (snd (sock_accept env l w)) = display w)"

lemma sensors_okD:
  assumes "sensors_ok env display"
  shows "display (sock_setopt env k opt w) = display w" "display (sock_setblocking env k b w) = display w"
    "display (sock_close env k w) = display w" "millis env w = (t, w') \<Longrightarrow> display w' = display w"
    "sock_write env k bs w = (r, w') \<Longrightarrow> display w' = display w" "sock_read env k n w = (rd, w') \<Longrightarrow> display w' = display w"
    "sock_accept env k w = (a, w') \<Longrightarrow> display w' = display w"
proof -
  have laws: "display (sock_setopt env k opt w) = display w" "display (sock_setblocking env k b w) = display w"
    "display (sock_close env k w) = display w" "display (snd (millis env w)) = display w"
    "display (snd (sock_write env k bs w)) = display w" "display (snd (sock_read env k n w)) = display w"
    "display (snd (sock_accept env k w)) = display w"
    using assms by (simp_all add: sensors_ok_def)
  show "display (sock_setopt env k opt w) = display w" "display (sock_setblocking env k b w) = display w"
    "display (sock_close env k w) = display w" by (fact laws)+
  show "millis env w = (t, w') \<Longrightarrow> display w' = display w" using laws(4) by simp
  show "sock_write env k bs w = (r, w') \<Longrightarrow> display w' = display w" using laws(5) by simp
  show "sock_read env k n w = (rd, w') \<Longrightarrow> display w' = display w" using laws(6) by simp
  show "sock_accept env k w = (a, w') \<Longrightarrow> display w' = display w" using laws(7) by simp
qed

text \<open>Every sensor that is attached shows what the server answers now.\<close>

definition shown :: "('w \<Rightarrow> publication \<Rightarrow> bool) \<Rightarrow> ('k, 'w) state \<Rightarrow> bool" where
  "shown display st \<longleftrightarrow>
     (connected_sensor (snd st) \<longrightarrow> display (world (snd st)) (PublishConnected (connected_clients (fst st)))) \<and>
     (decisions_sensor (snd st) \<longrightarrow> display (world (snd st)) (PublishDecisions (decisions (fst st)))) \<and>
     (vote_granted_sensor (snd st) \<longrightarrow> display (world (snd st)) (PublishVoteGranted (any_ack (fst st)))) \<and>
     (status_sensor (snd st) \<longrightarrow> display (world (snd st)) (PublishStatus (status_string (fst st))))"

lemma publish_fst: "fst (publish env st) = fst st"
  unfolding publish_def Let_def by (rule fst_conv)

lemma publish_shown:
  assumes "sensors_ok env display"
  shows "shown display (publish env st)"
proof -
  have p: "display (publish_state env p w) p" "sensor p \<noteq> sensor q \<Longrightarrow> display (publish_state env q w) p = display w p"
    "status_state env w = Some s \<Longrightarrow> display w (PublishStatus s)" for p q w s
    using assms by (simp_all add: sensors_ok_def)
  have keep: "display (if b then publish_state env q w else w) p = display w p" if "sensor p \<noteq> sensor q" for b p q w
    using p(2) [OF that] by simp
  define c where "c = snd st"
  define w1 where "w1 = (if connected_sensor c then publish_state env (PublishConnected (connected_clients (fst st))) (world c) else world c)"
  define w2 where "w2 = (if decisions_sensor c then publish_state env (PublishDecisions (decisions (fst st))) w1 else w1)"
  define w3 where "w3 = (if vote_granted_sensor c then publish_state env (PublishVoteGranted (any_ack (fst st))) w2 else w2)"
  define stale where "stale \<longleftrightarrow> status_sensor c \<and> status_state env w3 \<noteq> Some (status_string (fst st))"
  define w4 where "w4 = (if stale then publish_state env (PublishStatus (status_string (fst st))) w3 else w3)"
  have pub: "publish env st = (fst st, c\<lparr>world := w4\<rparr>)"
    by (auto simp: publish_def Let_def c_def w1_def w2_def w3_def w4_def stale_def)
  have "display w4 (PublishConnected (connected_clients (fst st)))" if "connected_sensor c"
  proof -
    have "display w1 (PublishConnected (connected_clients (fst st)))" using that p(1) by (simp add: w1_def)
    then show ?thesis unfolding w4_def w3_def w2_def by (simp add: keep)
  qed
  moreover have "display w4 (PublishDecisions (decisions (fst st)))" if "decisions_sensor c"
  proof -
    have "display w2 (PublishDecisions (decisions (fst st)))" using that p(1) by (simp add: w2_def)
    then show ?thesis unfolding w4_def w3_def by (simp add: keep)
  qed
  moreover have "display w4 (PublishVoteGranted (any_ack (fst st)))" if "vote_granted_sensor c"
  proof -
    have "display w3 (PublishVoteGranted (any_ack (fst st)))" using that p(1) by (simp add: w3_def)
    then show ?thesis unfolding w4_def by (simp add: keep)
  qed
  moreover have "display w4 (PublishStatus (status_string (fst st)))" if "status_sensor c"
    using that p(1,3) by (simp add: w4_def stale_def)
  ultimately show ?thesis by (simp add: shown_def pub)
qed

subsection \<open>Changes and the dirty mark\<close>

definition attached :: "('k, 'w) component \<Rightarrow> bool \<times> bool \<times> bool \<times> bool" where
  "attached c = (connected_sensor c, decisions_sensor c, vote_granted_sensor c, status_sensor c)"

definition data :: "server \<Rightarrow> session list \<times> cluster_info list \<times> u32" where
  "data srv = (sessions srv, clusters srv, decisions srv)"

text \<open>From \<open>st\<close> to \<open>st'\<close> the sensors and their values stay, and a change of the server leaves the
  component dirty.\<close>

definition tracks :: "('w \<Rightarrow> publication \<Rightarrow> bool) \<Rightarrow> ('k, 'w) state \<Rightarrow> ('k, 'w) state \<Rightarrow> bool" where
  "tracks display st st' \<longleftrightarrow> on_state_change (fst st') = on_state_change (fst st) \<and> attached (snd st') = attached (snd st) \<and>
     display (world (snd st')) = display (world (snd st)) \<and> (dirty (snd st) \<longrightarrow> dirty (snd st')) \<and>
     (dirty (snd st') \<or> data (fst st') = data (fst st))"

lemma tracks_refl [simp]: "tracks display st st"
  by (simp add: tracks_def)

lemma tracks_trans: "tracks display st st1 \<Longrightarrow> tracks display st1 st2 \<Longrightarrow> tracks display st st2"
  by (auto simp: tracks_def)

lemma tracks_world: "display w = display (world c) \<Longrightarrow> tracks display (srv, c) (srv, c\<lparr>world := w\<rparr>)"
  by (simp add: tracks_def attached_def)

lemma tracks_conn: "tracks display (srv, c) (srv, set_conn i cn c)"
  by (simp add: tracks_def attached_def set_conn_def)

lemma data_answers:
  assumes "data srv' = data srv"
  shows "connected_clients srv' = connected_clients srv" "any_ack srv' = any_ack srv" "status_string srv' = status_string srv"
    "decisions srv' = decisions srv"
proof -
  have d: "sessions srv' = sessions srv" "clusters srv' = clusters srv" using assms by (simp_all add: data_def)
  show "connected_clients srv' = connected_clients srv" "any_ack srv' = any_ack srv" "status_string srv' = status_string srv"
    unfolding connected_clients_def any_ack_def status_string_def d by (rule refl)+
  show "decisions srv' = decisions srv" using assms by (simp add: data_def)
qed

lemma tracks_shown:
  assumes "tracks display st st'" "shown display st" "\<not> dirty (snd st')"
  shows "shown display st'"
  using assms data_answers [of "fst st'" "fst st"] by (simp add: tracks_def shown_def attached_def)

lemma request_tracks:
  assumes S: "sensors_ok env display" and run: "component_request env e c = Some c'"
  shows "attached c' = attached c \<and> display (world c') = display (world c) \<and> (dirty c' \<longleftrightarrow> dirty c \<or> e = StateChange)"
proof (cases e)
  case (SendFrame i f)
  with run obtain cn where at: "at_ub (conns c) i = Some cn" by (auto simp: component_send_frame_def bind_eq_Some_conv)
  show ?thesis
  proof (cases "live cn")
    case None
    with SendFrame run at show ?thesis by (simp add: component_send_frame_def)
  next
    case (Some k)
    obtain r w where wr: "sock_write env k f (world c) = (r, w)" by fastforce
    with SendFrame run at Some sensors_okD(5) [OF S wr] show ?thesis
      by (cases r) (auto simp: component_send_frame_def attached_def set_conn_def split: if_splits)
  qed
next
  case (CloseConnection i)
  with run S show ?thesis
    by (auto simp: component_close_connection_def attached_def set_conn_def bind_eq_Some_conv sensors_okD(3) split: option.splits)
qed (use run in \<open>auto simp: attached_def\<close>)

lemma requests_track:
  assumes S: "sensors_ok env display" and "fold_ub (component_request env) es c = Some c'"
  shows "attached c' = attached c \<and> display (world c') = display (world c) \<and> (dirty c' \<longleftrightarrow> dirty c \<or> StateChange \<in> set es)"
  using assms(2)
proof (induction es arbitrary: c)
  case (Cons e es)
  then obtain c1 where "component_request env e c = Some c1" "fold_ub (component_request env) es c1 = Some c'"
    by (auto simp: bind_eq_Some_conv)
  with Cons.IH [of c1] request_tracks [OF S, of e c c1] show ?case by auto
qed simp

lemma told_tracks:
  assumes S: "sensors_ok env display" and cb: "on_state_change srv"
    and srv: "told (srv\<lparr>outs := []\<rparr>) srv'" "emits cs (srv\<lparr>outs := []\<rparr>) srv'"
    and run: "fold_ub (component_request env) (outs srv') c = Some c'"
  shows "tracks display (srv, c) (srv', c')"
  using requests_track [OF S run] srv cb by (auto simp: tracks_def told_def tells_def emits_def data_def)

lemma call_tracks:
  assumes S: "sensors_ok env display" and cb: "on_state_change (fst st)" and run: "call (component_request env) f st = Some st'"
    and f: "\<exists>srv'. f ((fst st)\<lparr>outs := []\<rparr>) = Some srv' \<and> told ((fst st)\<lparr>outs := []\<rparr>) srv' \<and> (\<exists>cs. emits cs ((fst st)\<lparr>outs := []\<rparr>) srv')"
  shows "tracks display st st'"
proof -
  from run f obtain srv' c' cs where "st' = (srv', c')" "told ((fst st)\<lparr>outs := []\<rparr>) srv'" "emits cs ((fst st)\<lparr>outs := []\<rparr>) srv'"
    "fold_ub (component_request env) (outs srv') (snd st) = Some c'"
    by (auto simp: call_def bind_eq_Some_conv)
  with told_tracks [OF S cb] show ?thesis by (metis prod.collapse)
qed

subsection \<open>The parts of the loop\<close>

lemma connect_tracks:
  assumes S: "sensors_ok env display" and cb: "on_state_change (fst st)" and st: "in_step env input st"
    and run: "call_connect (component_request env) now name st = Some (slot, st')"
  shows "tracks display st st'"
proof -
  let ?srv = "(fst st)\<lparr>outs := []\<rparr>"
  have q: "total.quiet ?srv" using st by (simp add: esp.in_step_def)
  obtain srv' where srv': "on_connect ?srv now name = (srv', slot)" and c': "fst st' = srv'"
    "fold_ub (component_request env) (outs srv') (snd st) = Some (snd st')"
    using run by (auto simp: call_connect_def bind_eq_Some_conv split: prod.splits)
  have "told ?srv srv'" using total.connect_inv(3) [OF q, of now name] srv' by simp
  moreover have "emits {} ?srv srv'"
    using srv' emits_plumbing(1) [of "set_session ?srv _ _"]
    by (auto simp: on_connect_def emits_def notify_def split: option.splits)
  ultimately have "tracks display (fst st, snd st) (srv', snd st')" using told_tracks [OF S cb _ _ c'(2)] by blast
  then show ?thesis using c'(1) by (metis prod.collapse)
qed

lemma accept_step_tracks:
  assumes S: "sensors_ok env display" and cb: "on_state_change (fst st)" and st: "in_step env input st"
    and run: "accept_step env now st = Some r"
  shows "tracks display st (case r of Inl st' \<Rightarrow> st' | Inr st' \<Rightarrow> st')"
proof -
  obtain srv c where [simp]: "st = (srv, c)" by fastforce
  from run obtain l where l: "listen_sock c = Some l" by (auto simp: accept_step_def bind_eq_Some_conv)
  obtain a w where acc: "sock_accept env l (world c) = (a, w)" by fastforce
  have w: "display w = display (world c)" using sensors_okD(7) [OF S acc] .
  show ?thesis
  proof (cases a)
    case None
    with run l acc w show ?thesis by (auto simp: accept_step_def intro: tracks_world)
  next
    case (Some ka)
    obtain k addr where ka: "ka = (k, addr)" by fastforce
    let ?w = "sock_setopt env k ''TCP_NODELAY'' (sock_setblocking env k False w)"
    let ?st = "(srv, c\<lparr>world := ?w\<rparr>)"
    have t1: "tracks display st ?st" using w sensors_okD(1,2) [OF S] by (simp add: tracks_world)
    have st1: "in_step env input ?st" using st by (simp add: in_step_world)
    from run l acc Some ka obtain slot srv' c' where cc: "call_connect (component_request env) now (peername env addr) ?st = Some (slot, srv', c')"
      by (auto simp: accept_step_def bind_eq_Some_conv)
    have "tracks display ?st (srv', c')" by (rule connect_tracks [OF S _ st1 cc]) (use cb in simp)
    with t1 have t2: "tracks display st (srv', c')" by (rule tracks_trans)
    have "r = Inr (srv', c'\<lparr>world := sock_close env k (world c')\<rparr>) \<or> (\<exists>i cn. r = Inr (srv', set_conn i cn c'))"
      using run l acc Some ka cc by (auto simp: accept_step_def bind_eq_Some_conv split: if_splits)
    with t2 tracks_trans [OF t2 tracks_world [of display "sock_close env k (world c')" c' srv']] tracks_trans [OF t2 tracks_conn] sensors_okD(3) [OF S]
    show ?thesis by auto
  qed
qed

lemma accept_loop_tracks:
  assumes "accept_loop env now st = Some st'"
  shows "sensors_ok env display \<longrightarrow> on_state_change (fst st) \<longrightarrow> in_step env input st \<longrightarrow> tracks display st st'"
  using assms
proof (induction env now st st' rule: accept_loop.raw_induct [rotated, consumes 1, case_names pass])
  case (pass loop env now st st')
  then obtain r where r: "accept_step env now st = Some r" "(case r of Inl st' \<Rightarrow> Some st' | Inr st' \<Rightarrow> loop env now st') = Some st'"
    by (auto simp: bind_eq_Some_conv)
  show ?case
  proof (intro impI)
    assume a: "sensors_ok env display" "on_state_change (fst st)" "in_step env input st"
    note t = accept_step_tracks [OF a r(1)]
    show "tracks display st st'"
    proof (cases r)
      case (Inl st1)
      with t r(2) show ?thesis by simp
    next
      case (Inr st1)
      have "in_step env input st1" using a(3) by (cases rule: accept_step_cases [where now = now]) (use r(1) Inr in auto)
      moreover have "on_state_change (fst st1)" using t Inr a(2) by (simp add: tracks_def)
      ultimately have "tracks display st1 st'" using pass.IH r(2) Inr a(1) by simp
      with t Inr show ?thesis using tracks_trans by fastforce
    qed
  qed
qed

lemma entry_told:
  assumes "total.quiet srv"
  shows "\<exists>srv'. on_data srv slot bs now = Some srv' \<and> told srv srv' \<and> (\<exists>cs. emits cs srv srv')"
    "\<exists>srv'. on_disconnected srv slot = Some srv' \<and> told srv srv' \<and> (\<exists>cs. emits cs srv srv')"
    "\<exists>srv'. tick srv now = Some srv' \<and> told srv srv' \<and> (\<exists>cs. emits cs srv srv')"
  using total.on_data_inv [OF assms, of slot bs now] total.disconnected_inv [OF assms, of slot] total.tick_inv [OF assms, of now]
  by blast+

lemma call_entry_tracks:
  assumes S: "sensors_ok env display" and cb: "on_state_change (fst st)" and q: "total.quiet (fst st)"
  shows "call (component_request env) (\<lambda>srv. on_data srv slot bs now) st = Some st' \<Longrightarrow> tracks display st st'"
    "call (component_request env) (\<lambda>srv. on_disconnected srv slot) st = Some st' \<Longrightarrow> tracks display st st'"
    "call (component_request env) (\<lambda>srv. tick srv now) st = Some st' \<Longrightarrow> tracks display st st'"
proof -
  have q': "total.quiet ((fst st)\<lparr>outs := []\<rparr>)" using q by simp
  show "call (component_request env) (\<lambda>srv. on_data srv slot bs now) st = Some st' \<Longrightarrow> tracks display st st'"
    by (erule call_tracks [OF S cb]) (rule entry_told(1) [OF q'])
  show "call (component_request env) (\<lambda>srv. on_disconnected srv slot) st = Some st' \<Longrightarrow> tracks display st st'"
    by (erule call_tracks [OF S cb]) (rule entry_told(2) [OF q'])
  show "call (component_request env) (\<lambda>srv. tick srv now) st = Some st' \<Longrightarrow> tracks display st st'"
    by (erule call_tracks [OF S cb]) (rule entry_told(3) [OF q'])
qed

lemma drop_connection_tracks:
  assumes S: "sensors_ok env display" and cb: "on_state_change (fst st)" and st: "in_step env input st"
    and run: "drop_connection env i st = Some st'"
  shows "tracks display st st'"
proof -
  obtain c where c: "component_close_connection env i (snd st) = Some c"
    "call (component_request env) (\<lambda>srv. on_disconnected srv (int i)) (fst st, c) = Some st'"
    using run by (auto simp: drop_connection_def bind_eq_Some_conv)
  have "tracks display st (fst st, c)"
    using request_tracks [OF S, of "CloseConnection i" "snd st" c] c(1) by (simp add: tracks_def)
  moreover have "tracks display (fst st, c) st'"
    using call_entry_tracks(2) [OF S _ _ c(2)] cb st by (simp add: esp.in_step_def)
  ultimately show ?thesis by (rule tracks_trans)
qed

lemma read_step_tracks:
  assumes S: "sensors_ok env display" and cb: "on_state_change (fst st)" and st: "in_step env input st"
    and run: "read_step env now i st = Some r"
  shows "tracks display st (case r of Inl st' \<Rightarrow> st' | Inr st' \<Rightarrow> st')"
proof -
  from run obtain cn where at: "at_ub (conns (snd st)) i = Some cn" by (auto simp: read_step_def bind_eq_Some_conv)
  show ?thesis
  proof (cases "live cn")
    case None
    with run at show ?thesis by (auto simp: read_step_def)
  next
    case (Some k)
    obtain rd w where rd: "sock_read env k 512 (world (snd st)) = (rd, w)" by fastforce
    let ?st = "(fst st, (snd st)\<lparr>world := w\<rparr>)"
    have t: "tracks display st ?st" using tracks_world [of display w "snd st" "fst st"] sensors_okD(6) [OF S rd] by simp
    have st1: "in_step env input ?st" using in_step_world [of env input "fst st" "snd st"] st by simp
    have "r = Inl ?st \<or> (\<exists>st'. r = Inl st' \<and> drop_connection env i ?st = Some st') \<or>
        (\<exists>st' bs. r = Inr st' \<and> call (component_request env) (\<lambda>srv. on_data srv (int i) bs now) ?st = Some st')"
      using run at Some rd
      by (cases rd) (auto simp: read_step_def bind_eq_Some_conv Let_def split: if_splits simp del: split_paired_Ex)
    moreover have "tracks display ?st st'" if "drop_connection env i ?st = Some st'" for st'
      using drop_connection_tracks [OF S _ st1 that] cb by simp
    moreover have "tracks display ?st st'" if "call (component_request env) (\<lambda>srv. on_data srv (int i) bs now) ?st = Some st'" for st' bs
      using call_entry_tracks(1) [OF S _ _ that] cb st by (simp add: esp.in_step_def)
    ultimately show ?thesis using t tracks_trans [OF t] by auto
  qed
qed

lemma read_loop_tracks:
  assumes "read_loop env now i st = Some st'"
  shows "sensors_ok env display \<longrightarrow> on_state_change (fst st) \<longrightarrow> i < MAX_CLIENTS \<longrightarrow> in_step env input st \<longrightarrow> tracks display st st'"
  using assms
proof (induction env now i st st' rule: read_loop.raw_induct [rotated, consumes 1, case_names pass])
  case (pass loop env now i st st')
  then obtain r where r: "read_step env now i st = Some r" "(case r of Inl st' \<Rightarrow> Some st' | Inr st' \<Rightarrow> loop env now i st') = Some st'"
    by (auto simp: bind_eq_Some_conv)
  show ?case
  proof (intro impI)
    assume a: "sensors_ok env display" "on_state_change (fst st)" "i < MAX_CLIENTS" "in_step env input st"
    note t = read_step_tracks [OF a(1,2,4) r(1)]
    show "tracks display st st'"
    proof (cases r)
      case (Inl st1)
      with t r(2) show ?thesis by simp
    next
      case (Inr st1)
      have "in_step env input st1" using a(4,3) by (cases rule: read_step_cases [where now = now]) (use r(1) Inr in auto)
      moreover have "on_state_change (fst st1)" using t Inr a(2) by (simp add: tracks_def)
      ultimately have "tracks display st1 st'" using pass.IH r(2) Inr a(1,3) by simp
      with t Inr show ?thesis using tracks_trans by fastforce
    qed
  qed
qed

lemma io_slot_tracks:
  assumes S: "sensors_ok env display" and cb: "on_state_change (fst st)" and st: "in_step env input st" and i: "i < MAX_CLIENTS"
    and run: "io_slot env now i st = Some st'"
  shows "tracks display st st'"
proof -
  have at: "at_ub (conns (snd st)) i = Some (conns (snd st) ! i)" using component_ok_conn [OF in_step_ok [OF st] i] by simp
  show ?thesis
  proof (cases "live (conns (snd st) ! i)")
    case None
    with run at show ?thesis by (simp add: io_slot_def)
  next
    case (Some k)
    let ?q = "tx (conns (snd st) ! i)"
    obtain c where c: "flush_tx env i (conns (snd st) ! i) k (snd st) = Some c" "in_step env input (fst st, c)"
      using flush_tx_in_step [of env input "fst st" "snd st"] st i Some by auto
    obtain r w where wr: "sock_write env k ?q (world (snd st)) = (r, w)" by fastforce
    have "tracks display st (fst st, c)"
      using c(1) wr sensors_okD(5) [OF S wr]
      by (cases r) (auto simp: flush_tx_def tracks_def attached_def set_conn_def split: if_splits)
    moreover have "tracks display (fst st, c) st'"
      using read_loop_tracks [of env now i "(fst st, c)" st'] run at Some c S cb i by (auto simp: io_slot_def)
    ultimately show ?thesis by (rule tracks_trans)
  qed
qed

lemma component_loop_tracks:
  assumes S: "sensors_ok env display" and cb: "on_state_change (fst st)" and st: "in_step env input st" and up: "\<not> failed (snd st)"
    and run: "component_loop env st = Some st'"
  shows "\<exists>st3. tracks display st st3 \<and> st' = (if dirty (snd st3) then publish env (fst st3, (snd st3)\<lparr>dirty := False\<rparr>) else st3)"
proof -
  obtain now c where now: "now_ms env (snd st) = (now, c)" by fastforce
  obtain st1 st2 st3 where run: "accept_loop env now (fst st, c) = Some st1"
    "fold_ub (io_slot env now) [0..<MAX_CLIENTS] st1 = Some st2"
    "call (component_request env) (\<lambda>srv. tick srv now) st2 = Some st3"
    and st': "st' = (if dirty (snd st3) then publish env (fst st3, (snd st3)\<lparr>dirty := False\<rparr>) else st3)"
    using run up now by (auto simp: component_loop_def bind_eq_Some_conv)
  have t0: "tracks display st (fst st, c)"
    using now sensors_okD(4) [OF S] by (auto simp: now_ms_def Let_def tracks_def attached_def split: prod.splits)
  have i0: "in_step env input (fst st, c)" using now_ms_in_step [OF _ now] st by simp
  then have t1: "tracks display (fst st, c) st1" using accept_loop_tracks [OF run(1)] S cb by simp
  have i1: "in_step env input st1" using accept_loop_in_step [OF i0, of now] run(1) by simp
  have "tracks display st st1 \<and> in_step env input st1" using tracks_trans [OF t0 t1] i1 by simp
  then have t2: "tracks display st st2 \<and> in_step env input st2"
  proof (rule fold_ub_result [OF run(2)])
    fix i s s'
    assume i: "i \<in> set [0..<MAX_CLIENTS]" and s: "tracks display st s \<and> in_step env input s" and r: "io_slot env now i s = Some s'"
    have "on_state_change (fst s)" using s cb by (simp add: tracks_def)
    then have "tracks display s s'" by (rule io_slot_tracks [OF S _ conjunct2 [OF s] _ r]) (use i in simp)
    with s have "tracks display st s'" using tracks_trans by blast
    moreover have "in_step env input s'" using io_slot_in_step [of env input s i now] i r s by simp
    ultimately show "tracks display st s' \<and> in_step env input s'" by blast
  qed
  have "tracks display st2 st3"
    using call_entry_tracks(3) [OF S _ _ run(3)] t2 cb by (simp add: tracks_def esp.in_step_def)
  with t2 have "tracks display st st3" using tracks_trans by blast
  with st' show ?thesis by blast
qed

text \<open>After \<open>loop\<close> the sensors show the state of the server, unless they did not before and nothing
  changed.\<close>

lemma component_loop_shown:
  assumes S: "sensors_ok env display" and cb: "on_state_change (fst st)" and st: "in_step env input st" and up: "\<not> failed (snd st)"
    and run: "component_loop env st = Some st'"
  shows "on_state_change (fst st') \<and> (shown display st' \<or> \<not> shown display st \<and> data (fst st') = data (fst st))"
proof -
  obtain st3 where t: "tracks display st st3" and st': "st' = (if dirty (snd st3) then publish env (fst st3, (snd st3)\<lparr>dirty := False\<rparr>) else st3)"
    using component_loop_tracks [OF assms] by blast
  show ?thesis
  proof (cases "dirty (snd st3)")
    case True
    with st' publish_shown [OF S] t cb show ?thesis by (simp add: tracks_def publish_fst)
  next
    case False
    with st' t tracks_shown [OF t] cb show ?thesis by (auto simp: tracks_def)
  qed
qed

lemma passes_callback:
  fixes env :: "('k, 'w) esphome"
  assumes S: "sensors_ok env display" and P: "esphome_ok env input"
    and run: "passes env hs (component_setup env (configured p a b v s w)) = Some st"
  shows "failed (snd st) \<or> in_step env input st \<and> on_state_change (fst st)"
proof (rule fold_ub_result [OF run [unfolded passes_def], where P = "\<lambda>st. failed (snd st) \<or> in_step env input st \<and> on_state_change (fst st)"])
  have "on_state_change (fst (component_setup env (configured p a b v s w)))"
    by (simp add: component_setup_def Let_def Server_def split: prod.split option.split)
  with component_setup_in_step [OF P, of "configured p a b v s w"]
  show "failed (snd (component_setup env (configured p a b v s w))) \<or> in_step env input (component_setup env (configured p a b v s w)) \<and>
      on_state_change (fst (component_setup env (configured p a b v s w)))" by simp
next
  fix h :: "'w \<Rightarrow> 'w" and st st' :: "('k, 'w) state"
  let ?st = "(fst st, (snd st)\<lparr>world := h (world (snd st))\<rparr>)"
  assume st: "failed (snd st) \<or> in_step env input st \<and> on_state_change (fst st)" and run: "component_loop env ?st = Some st'"
  show "failed (snd st') \<or> in_step env input st' \<and> on_state_change (fst st')"
  proof (cases "failed (snd st)")
    case True
    with run show ?thesis by (auto simp: component_loop_def)
  next
    case False
    with st have i: "in_step env input ?st" "on_state_change (fst ?st)" using in_step_world [of env input "fst st" "snd st"] by simp_all
    have up: "\<not> failed (snd ?st)" using False by simp
    from component_loop_in_step [OF i(1) up] component_loop_shown [OF S i(2,1) up run] run show ?thesis by auto
  qed
qed

end
