(* ===== verification/Posix_Host.thy ===== *)
theory Posix_Host
  imports Embedding
begin

text \<open>
  The POSIX host program: \<^verbatim>\<open>host/qnetd_lite.cpp\<close>. The system calls are a parameter: the
  record \<open>posix\<close> has one function per call over a type \<open>'w\<close> of states of the outside world.
  A state is the server and the transport with its table of file descriptors. The sockets
  are blocking and the program neither handles SIGPIPE nor passes \<^verbatim>\<open>MSG_NOSIGNAL\<close>, so \<open>send\<close>
  may kill it, and \<open>send\<close>, \<open>recv\<close> and \<open>accept\<close> may never return. The program registers no
  callback on the server. Its output is left out.
\<close>

subsection \<open>System calls\<close>

text \<open>What becomes of a call on a blocking socket. One that blocks for a while returns later;
  \<open>Hangs\<close> is one that never does.\<close>

datatype 'a syscall = Returns 'a | Raises_SIGPIPE | Hangs

text \<open>\<open>send\<close> and \<open>select\<close> return their result and the value of \<^verbatim>\<open>errno\<close> after the call.
  \<open>select\<close> also returns the set it leaves in its argument. The third argument of \<open>send\<close> and
  \<open>recv\<close> are the flags.\<close>

record 'w posix =
  p_socket :: "'w \<Rightarrow> int \<times> 'w"
  p_setsockopt :: "int \<Rightarrow> string \<Rightarrow> 'w \<Rightarrow> 'w"
  p_bind :: "int \<Rightarrow> u16 \<Rightarrow> 'w \<Rightarrow> int \<times> 'w"
  p_listen :: "int \<Rightarrow> int \<Rightarrow> 'w \<Rightarrow> int \<times> 'w"
  p_select :: "int \<Rightarrow> int list \<Rightarrow> 'w \<Rightarrow> int \<times> errno \<times> int list \<times> 'w"
  p_accept :: "int \<Rightarrow> 'w \<Rightarrow> (int \<times> sockaddr \<times> 'w) syscall"
  p_inet_ntop :: "sockaddr \<Rightarrow> string"
  p_send :: "int \<Rightarrow> bytes \<Rightarrow> int \<Rightarrow> 'w \<Rightarrow> (int \<times> errno \<times> 'w) syscall"
  p_recv :: "int \<Rightarrow> nat \<Rightarrow> int \<Rightarrow> 'w \<Rightarrow> ((errno + bytes) \<times> 'w) syscall"
  p_close :: "int \<Rightarrow> 'w \<Rightarrow> 'w"
  p_clock_gettime :: "'w \<Rightarrow> (int \<times> int) \<times> 'w"

text \<open>\<^verbatim>\<open>FD_SET\<close> and \<^verbatim>\<open>FD_ISSET\<close> are undefined for descriptors outside the set's range.\<close>

definition FD_SETSIZE :: int where
  "FD_SETSIZE = 1024"

definition FD_SET :: "int \<Rightarrow> int list \<Rightarrow> int list ub" where
  "FD_SET fd s = (if 0 \<le> fd \<and> fd < FD_SETSIZE then Some (s @ [fd]) else None)"

definition FD_ISSET :: "int \<Rightarrow> int list \<Rightarrow> bool ub" where
  "FD_ISSET fd s = (if 0 \<le> fd \<and> fd < FD_SETSIZE then Some (fd \<in> set s) else None)"

subsection \<open>The transport\<close>

definition host_now_ms :: "'w posix \<Rightarrow> 'w \<Rightarrow> u64 \<times> 'w" where
  "host_now_ms env w = (case p_clock_gettime env w of ((tv_sec, tv_nsec), w) \<Rightarrow>
     (of_int tv_sec * 1000 + of_int (sgn tv_nsec * (\<bar>tv_nsec\<bar> div 1000000)), w))"

text \<open>How the program ends: by returning from \<open>main\<close>, by the signal, or in a call that does not
  return. Once \<open>ended\<close> is set, nothing happens any more.\<close>

datatype ending = Exit int | Killed_by_SIGPIPE | Blocked

record 'w posix_transport =
  fds :: "int list"
  outside :: 'w
  ended :: "ending option"

definition PosixTransport :: "'w \<Rightarrow> 'w posix_transport" where
  "PosixTransport w = \<lparr>fds = replicate MAX_CLIENTS (-1), outside = w, ended = None\<rparr>"

text \<open>The send loop returns the outside world and, when a call of \<open>send\<close> did not return, how the
  program ended there.\<close>

partial_function (option) send_loop :: "'w posix \<Rightarrow> int \<Rightarrow> bytes \<Rightarrow> nat \<Rightarrow> 'w \<Rightarrow> ('w \<times> ending option) option" where
  "send_loop env fd data off w =
     (if off < length data then
        (case p_send env fd (drop off data) 0 w of
           Returns (n, e, w') \<Rightarrow>
             if n \<le> 0 then (if e = EINTR then send_loop env fd data off w' else Some (w', None))
             else send_loop env fd data (off + nat n) w'
         | Raises_SIGPIPE \<Rightarrow> Some (w, Some Killed_by_SIGPIPE)
         | Hangs \<Rightarrow> Some (w, Some Blocked))
      else Some (w, None))"

declare send_loop.simps [code]

definition host_send_frame :: "'w posix \<Rightarrow> nat \<Rightarrow> frame \<Rightarrow> 'w posix_transport \<Rightarrow> 'w posix_transport ub" where
  "host_send_frame env slot data t = do {
     fd \<leftarrow> at_ub (fds t) slot;
     if fd < 0 then Some t
     else do {
       (w, e) \<leftarrow> send_loop env fd data 0 (outside t);
       Some (t\<lparr>outside := w, ended := e\<rparr>)
     }
   }"

definition host_close_connection :: "'w posix \<Rightarrow> nat \<Rightarrow> 'w posix_transport \<Rightarrow> 'w posix_transport ub" where
  "host_close_connection env slot t = do {
     fd \<leftarrow> at_ub (fds t) slot;
     let w = (if fd \<ge> 0 then p_close env fd (outside t) else outside t);
     Some (t\<lparr>fds := (fds t)[slot := -1], outside := w\<rparr>)
   }"

definition host_request :: "'w posix \<Rightarrow> out_event \<Rightarrow> 'w posix_transport \<Rightarrow> 'w posix_transport ub" where
  "host_request env r t =
    (if ended t \<noteq> None then Some t
     else (case r of
         SendFrame slot f \<Rightarrow> host_send_frame env slot f t
       | CloseConnection slot \<Rightarrow> host_close_connection env slot t
       | StateChange \<Rightarrow> Some t))"

subsection \<open>The main program\<close>

text \<open>The decimal prefix of a string; a value outside \<^verbatim>\<open>int\<close> is undefined.\<close>

fun atoi_digits :: "int \<Rightarrow> string \<Rightarrow> int" where
  "atoi_digits acc [] = acc"
| "atoi_digits acc (c # s) =
     (if 48 \<le> (of_char c :: nat) \<and> (of_char c :: nat) \<le> 57 then atoi_digits (10 * acc + int (of_char c - 48)) s else acc)"

definition isspace :: "char \<Rightarrow> bool" where
  "isspace c \<longleftrightarrow> (of_char c :: nat) = 32 \<or> (9 \<le> (of_char c :: nat) \<and> (of_char c :: nat) \<le> 13)"

definition atoi :: "string \<Rightarrow> int ub" where
  "atoi s =
     (let s = dropWhile isspace s;
          n = (case s of [] \<Rightarrow> 0
               | c # s' \<Rightarrow> if c = CHR ''-'' then - atoi_digits 0 s'
                           else if c = CHR ''+'' then atoi_digits 0 s' else atoi_digits 0 s)
      in if - (2 ^ 31) \<le> n \<and> n < 2 ^ 31 then Some n else None)"

definition main_port :: "string list \<Rightarrow> u16 ub" where
  "main_port argv = (if length argv > 1 then do { n \<leftarrow> atoi (argv ! 1); Some (of_int n) } else Some 5403)"

text \<open>\<open>Inl\<close> is how the program ended; \<open>Inr\<close> the listening socket and the state when the loop starts.\<close>

definition main_setup :: "'w posix \<Rightarrow> string list \<Rightarrow> 'w \<Rightarrow> (ending + (int \<times> server \<times> 'w posix_transport)) ub" where
  "main_setup env argv w = do {
     port \<leftarrow> main_port argv;
     Some (case p_socket env w of (ls, w) \<Rightarrow>
       let w = p_setsockopt env ls ''SO_REUSEADDR'' (p_setsockopt env ls ''IPV6_V6ONLY'' w)
       in case p_bind env ls port w of (b, w) \<Rightarrow>
            if b \<noteq> 0 then Inl (Exit 1)
            else case p_listen env ls 8 w of (l, w) \<Rightarrow>
              if l \<noteq> 0 then Inl (Exit 1) else Inr (ls, Server 32768 False, PosixTransport w))
   }"

definition watch :: "int list \<Rightarrow> nat \<Rightarrow> int list \<times> int \<Rightarrow> (int list \<times> int) ub" where
  "watch table i acc =
     (if table ! i \<ge> 0 then do {
        rfds \<leftarrow> FD_SET (table ! i) (fst acc);
        Some (rfds, if table ! i > snd acc then table ! i else snd acc)
      }
      else Some acc)"

definition host_accept ::
    "'w posix \<Rightarrow> int \<Rightarrow> u64 \<Rightarrow> server \<times> 'w posix_transport \<Rightarrow> (server \<times> 'w posix_transport) ub" where
  "host_accept env ls now st =
     (case p_accept env ls (outside (snd st)) of
        Returns (fd, sa, w) \<Rightarrow>
          let st = (fst st, (snd st)\<lparr>outside := w\<rparr>)
          in if fd \<ge> 0 then do {
               let host = (case sa of AF_INET6 a \<Rightarrow> p_inet_ntop env sa | _ \<Rightarrow> ''?'');
               let st = (fst st, (snd st)\<lparr>outside := p_setsockopt env fd ''TCP_NODELAY'' w\<rparr>);
               (slot, srv, t) \<leftarrow> call_connect (host_request env) now host st;
               if slot < 0 then Some (srv, t\<lparr>outside := p_close env fd (outside t)\<rparr>)
               else if nat slot < length (fds t) then Some (srv, t\<lparr>fds := (fds t)[nat slot := fd]\<rparr>)
               else None
             }
             else Some st
      | Raises_SIGPIPE \<Rightarrow> Some (fst st, (snd st)\<lparr>ended := Some Killed_by_SIGPIPE\<rparr>)
      | Hangs \<Rightarrow> Some (fst st, (snd st)\<lparr>ended := Some Blocked\<rparr>))"

definition host_recv ::
    "'w posix \<Rightarrow> int list \<Rightarrow> u64 \<Rightarrow> nat \<Rightarrow> server \<times> 'w posix_transport \<Rightarrow> (server \<times> 'w posix_transport) ub" where
  "host_recv env rfds now i st = do {
     fd \<leftarrow> at_ub (fds (snd st)) i;
     if fd < 0 then Some st
     else do {
       ready \<leftarrow> FD_ISSET fd rfds;
       if \<not> ready then Some st
       else (case p_recv env fd 2048 0 (outside (snd st)) of
           Returns (r, w) \<Rightarrow>
             let st = (fst st, (snd st)\<lparr>outside := w\<rparr>);
                 lost = do {
                   t \<leftarrow> host_close_connection env i (snd st);
                   call (host_request env) (\<lambda>srv. on_disconnected srv (int i)) (fst st, t)
                 }
             in (case r of
                  Inr data \<Rightarrow> if data \<noteq> [] then call (host_request env) (\<lambda>srv. on_data srv (int i) data now) st else lost
                | Inl e \<Rightarrow> if e \<noteq> EWOULDBLOCK \<and> e \<noteq> EAGAIN then lost else Some st)
         | Raises_SIGPIPE \<Rightarrow> Some (fst st, (snd st)\<lparr>ended := Some Killed_by_SIGPIPE\<rparr>)
         | Hangs \<Rightarrow> Some (fst st, (snd st)\<lparr>ended := Some Blocked\<rparr>))
     }
   }"

text \<open>A part of the round runs if the program has not ended before.\<close>

definition unless_ended ::
    "(server \<times> 'w posix_transport \<Rightarrow> (server \<times> 'w posix_transport) ub)
     \<Rightarrow> server \<times> 'w posix_transport \<Rightarrow> (server \<times> 'w posix_transport) ub" where
  "unless_ended f st = (if ended (snd st) = None then f st else Some st)"

text \<open>One round of the main loop: \<open>Inl\<close> is how the program ended, \<open>Inr\<close> the state for the next
  round.\<close>

definition main_round ::
    "'w posix \<Rightarrow> int \<Rightarrow> server \<times> 'w posix_transport \<Rightarrow> (ending + server \<times> 'w posix_transport) ub" where
  "main_round env ls st = do {
     rfds \<leftarrow> FD_SET ls [];
     (rfds, maxfd) \<leftarrow> fold_ub (watch (fds (snd st))) [0..<MAX_CLIENTS] (rfds, ls);
     case p_select env (maxfd + 1) rfds (outside (snd st)) of (r, e, rfds, w) \<Rightarrow>
       if r < 0 \<and> e \<noteq> EINTR then Some (Inl (Exit 1))
       else (case host_now_ms env w of (now, w) \<Rightarrow> do {
         let st = (fst st, (snd st)\<lparr>outside := w\<rparr>);
         incoming \<leftarrow> (if r > 0 then FD_ISSET ls rfds else Some False);
         st \<leftarrow> (if incoming then host_accept env ls now st else Some st);
         st \<leftarrow> fold_ub (\<lambda>i. unless_ended (host_recv env rfds now i)) [0..<MAX_CLIENTS] st;
         st \<leftarrow> unless_ended (call (host_request env) (\<lambda>srv. tick srv now)) st;
         Some (case ended (snd st) of None \<Rightarrow> Inr st | Some how \<Rightarrow> Inl how)
       })
   }"

primrec main_rounds ::
    "'w posix \<Rightarrow> int \<Rightarrow> nat \<Rightarrow> server \<times> 'w posix_transport \<Rightarrow> (ending + server \<times> 'w posix_transport) ub" where
  "main_rounds env ls 0 st = Some (Inr st)"
| "main_rounds env ls (Suc n) st = do {
     r \<leftarrow> main_round env ls st;
     case r of Inl how \<Rightarrow> Some (Inl how) | Inr st' \<Rightarrow> main_rounds env ls n st'
   }"

end
