(* ===== verification/Posix_Facts.thy ===== *)
theory Posix_Facts
  imports Posix_Host
begin

text \<open>
  The host program as a transport of the server. \<open>posix_ok\<close> collects what is assumed of the
  system calls; under it every round of the main loop returns and keeps the table of
  descriptors in step with the sessions. Then the port argument, the clock, and what the
  send loop hands to a socket.
\<close>

subsection \<open>Assumptions on the system calls\<close>

text \<open>\<open>signals w\<close> bounds how often a signal still interrupts \<open>send\<close>; an interruption uses one
  up. A socket that could be bound and one that was accepted fit into an \<^verbatim>\<open>fd_set\<close>. Only \<open>send\<close>
  raises SIGPIPE.\<close>

definition posix_ok :: "'w posix \<Rightarrow> ('w \<Rightarrow> nat) \<Rightarrow> bool" where
  "posix_ok env signals \<longleftrightarrow>
     (\<forall>fd bs w n e w'. p_send env fd bs 0 w = Returns (n, e, w') \<longrightarrow> signals w' + (if n \<le> 0 \<and> e = EINTR then 1 else 0) \<le> signals w) \<and>
     (\<forall>fd w. signals (p_close env fd w) \<le> signals w) \<and>
     (\<forall>ls w fd sa w'. p_accept env ls w = Returns (fd, sa, w') \<longrightarrow> fd < FD_SETSIZE) \<and>
     (\<forall>ls port w. fst (p_bind env ls port w) = 0 \<longrightarrow> 0 \<le> ls \<and> ls < FD_SETSIZE) \<and>
     (\<forall>ls w. p_accept env ls w \<noteq> Raises_SIGPIPE) \<and> (\<forall>fd n w. p_recv env fd n 0 w \<noteq> Raises_SIGPIPE)"

lemma posix_okD:
  assumes "posix_ok env signals"
  shows "p_send env fd bs 0 w = Returns (n, e, w') \<Longrightarrow> signals w' + (if n \<le> 0 \<and> e = EINTR then 1 else 0) \<le> signals w"
    "signals (p_close env fd w) \<le> signals w" "p_accept env ls w = Returns (fd', sa, w') \<Longrightarrow> fd' < FD_SETSIZE"
    "p_bind env ls port w = (0, w') \<Longrightarrow> 0 \<le> ls \<and> ls < FD_SETSIZE"
    "p_accept env ls w \<noteq> Raises_SIGPIPE" "p_recv env fd m 0 w \<noteq> Raises_SIGPIPE"
proof -
  note laws = assms [unfolded posix_ok_def]
  show "p_send env fd bs 0 w = Returns (n, e, w') \<Longrightarrow> signals w' + (if n \<le> 0 \<and> e = EINTR then 1 else 0) \<le> signals w"
    "p_accept env ls w = Returns (fd', sa, w') \<Longrightarrow> fd' < FD_SETSIZE" using laws by meson+
  show "signals (p_close env fd w) \<le> signals w" using laws by blast
  show "p_bind env ls port w = (0, w') \<Longrightarrow> 0 \<le> ls \<and> ls < FD_SETSIZE" using laws by (metis fst_conv)
  show "p_accept env ls w \<noteq> Raises_SIGPIPE" "p_recv env fd m 0 w \<noteq> Raises_SIGPIPE" using laws by blast+
qed

text \<open>How a system call can end the program, if the platform has calls that do so.\<close>

definition can_raise_SIGPIPE :: "'w posix \<Rightarrow> bool" where
  "can_raise_SIGPIPE env \<longleftrightarrow> (\<exists>fd bs w. p_send env fd bs 0 w = Raises_SIGPIPE)"

definition can_hang :: "'w posix \<Rightarrow> bool" where
  "can_hang env \<longleftrightarrow> (\<exists>fd bs w. p_send env fd bs 0 w = Hangs) \<or> (\<exists>fd n w. p_recv env fd n 0 w = Hangs) \<or>
     (\<exists>ls w. p_accept env ls w = Hangs)"

definition cut_short :: "'w posix \<Rightarrow> ending \<Rightarrow> bool" where
  "cut_short env how \<longleftrightarrow> how = Killed_by_SIGPIPE \<and> can_raise_SIGPIPE env \<or> how = Blocked \<and> can_hang env"

lemma cut_shortI:
  "p_send env fd bs 0 w = Raises_SIGPIPE \<Longrightarrow> cut_short env Killed_by_SIGPIPE" "p_send env fd bs 0 w = Hangs \<Longrightarrow> cut_short env Blocked"
  "p_recv env fd n 0 w = Hangs \<Longrightarrow> cut_short env Blocked" "p_accept env ls w = Hangs \<Longrightarrow> cut_short env Blocked"
  by (auto simp: cut_short_def can_raise_SIGPIPE_def can_hang_def)

definition fds_ok :: "int list \<Rightarrow> bool" where
  "fds_ok table \<longleftrightarrow> length table = MAX_CLIENTS \<and> (\<forall>fd\<in>set table. fd < FD_SETSIZE)"

definition host_ok :: "'w posix \<Rightarrow> ('w \<Rightarrow> nat) \<Rightarrow> 'w posix_transport \<Rightarrow> bool" where
  "host_ok env signals t \<longleftrightarrow> posix_ok env signals \<and> fds_ok (fds t) \<and> (\<forall>how. ended t = Some how \<longrightarrow> cut_short env how)"

definition fd_open :: "'w posix_transport \<Rightarrow> nat \<Rightarrow> bool" where
  "fd_open t i \<longleftrightarrow> 0 \<le> fds t ! i"

lemma host_ok_frame [simp]: "host_ok env signals (t\<lparr>outside := w\<rparr>) = host_ok env signals t"
  by (simp add: host_ok_def)

lemma fd_open_frame [simp]: "fd_open (t\<lparr>outside := w\<rparr>) = fd_open t"
  by (simp add: fd_open_def fun_eq_iff)

lemma host_ok_fd: "host_ok env signals t \<Longrightarrow> i < MAX_CLIENTS \<Longrightarrow> at_ub (fds t) i = Some (fds t ! i) \<and> fds t ! i < FD_SETSIZE"
  by (simp add: host_ok_def fds_ok_def)

lemma fds_ok_update: "fds_ok table \<Longrightarrow> fd < FD_SETSIZE \<Longrightarrow> fds_ok (table[i := fd])"
  using set_update_subset_insert [of table i fd] by (auto simp: fds_ok_def)

subsection \<open>The send loop\<close>

text \<open>The loop ends: a pass sends bytes, fails, was interrupted by a signal, or does not return.\<close>

lemma send_loop_returns:
  assumes "posix_ok env signals"
  shows "\<exists>w' e. send_loop env fd data off w = Some (w', e) \<and> signals w' \<le> signals w \<and> (\<forall>how. e = Some how \<longrightarrow> cut_short env how)"
proof (induction "signals w + (length data - off)" arbitrary: off w rule: less_induct)
  case less
  show ?case
  proof (cases "p_send env fd (drop off data) 0 w")
    case (Returns r)
    then obtain n e w1 where s: "p_send env fd (drop off data) 0 w = Returns (n, e, w1)" by (cases r) simp
    have le: "signals w1 + (if n \<le> 0 \<and> e = EINTR then 1 else 0) \<le> signals w" using posix_okD(1) [OF assms s] .
    show ?thesis
    proof (cases "off < length data \<and> (n \<le> 0 \<longrightarrow> e = EINTR)")
      case True
      define off' where "off' = (if n \<le> 0 then off else off + nat n)"
      have "signals w1 + (length data - off') < signals w + (length data - off)" using True le by (auto simp: off'_def)
      then obtain w2 e2 where "send_loop env fd data off' w1 = Some (w2, e2)" "signals w2 \<le> signals w1" "\<forall>how. e2 = Some how \<longrightarrow> cut_short env how"
        using less.hyps by blast
      then show ?thesis using True s le by (subst send_loop.simps) (auto simp: off'_def split: if_splits)
    next
      case False
      then show ?thesis using s le by (subst send_loop.simps) auto
    qed
  qed (subst send_loop.simps, simp add: cut_shortI)+
qed

lemma host_send_frame_ok:
  assumes "host_ok env signals t" "i < MAX_CLIENTS"
  shows "\<exists>t'. host_send_frame env i f t = Some t' \<and> host_ok env signals t' \<and> signals (outside t') \<le> signals (outside t) \<and> fd_open t' = fd_open t"
proof -
  obtain w e where "send_loop env (fds t ! i) f 0 (outside t) = Some (w, e)" "signals w \<le> signals (outside t)" "\<forall>how. e = Some how \<longrightarrow> cut_short env how"
    using send_loop_returns assms(1) by (metis host_ok_def)
  with assms host_ok_fd [OF assms] show ?thesis
    by (cases "fds t ! i < 0") (simp_all add: host_send_frame_def host_ok_def fd_open_def fun_eq_iff)
qed

lemma host_close_connection_ok:
  assumes "host_ok env signals t" "i < MAX_CLIENTS"
  shows "\<exists>t'. host_close_connection env i t = Some t' \<and> host_ok env signals t' \<and> signals (outside t') \<le> signals (outside t) \<and>
    ended t' = ended t \<and> (\<forall>j<MAX_CLIENTS. fd_open t' j \<longleftrightarrow> fd_open t j \<and> j \<noteq> i)"
proof -
  have "fds_ok ((fds t)[i := -1])" using assms(1) by (intro fds_ok_update) (simp_all add: host_ok_def FD_SETSIZE_def)
  moreover have "length (fds t) = MAX_CLIENTS" using assms(1) by (simp add: host_ok_def fds_ok_def)
  ultimately show ?thesis
    using assms host_ok_fd [OF assms] posix_okD(2) [of env signals]
    by (auto simp: host_close_connection_def host_ok_def fd_open_def nth_update)
qed

interpretation host: transport "host_request env" fd_open "host_ok env signals" "\<lambda>t. ended t = None" "\<lambda>t. signals (outside t)" for env signals
proof
  fix t e i
  assume ok: "host_ok env signals t"
  show "\<exists>t'. host_request env e t = Some t' \<and> host_ok env signals t' \<and> signals (outside t') \<le> signals (outside t) \<and>
      (ended t' = None \<longrightarrow> ended t = None \<and> (\<forall>i<MAX_CLIENTS. fd_open t' i = fd_open t i))" if "is_send e"
    using that ok host_send_frame_ok by (cases e; cases "ended t") (fastforce simp: host_request_def)+
  show "\<exists>t'. host_request env (CloseConnection i) t = Some t' \<and> host_ok env signals t' \<and> signals (outside t') \<le> signals (outside t) \<and>
      (ended t' = None \<longrightarrow> ended t = None \<and> (\<forall>j<MAX_CLIENTS. fd_open t' j \<longleftrightarrow> fd_open t j \<and> j \<noteq> i))" if "i < MAX_CLIENTS"
    using host_close_connection_ok [OF ok that] ok by (cases "ended t") (auto simp: host_request_def)
qed

subsection \<open>The main loop\<close>

abbreviation host_in_step :: "'w posix \<Rightarrow> ('w \<Rightarrow> nat) \<Rightarrow> server \<times> 'w posix_transport \<Rightarrow> bool" where
  "host_in_step env signals st \<equiv> transport.in_step fd_open (host_ok env signals) (\<lambda>t. ended t = None) {} st"

lemma host_in_step_outside: "host_in_step env signals (srv, t) \<Longrightarrow> host_in_step env signals (srv, t\<lparr>outside := w\<rparr>)"
  by (simp add: host.in_step_def)

lemma watch_defined:
  assumes "fds_ok table"
  shows "\<exists>rfds maxfd. fold_ub (watch table) [0..<MAX_CLIENTS] acc = Some (rfds, maxfd)"
proof -
  have "\<exists>acc'. watch table i acc = Some acc' \<and> True" if "i \<in> set [0..<MAX_CLIENTS]" for i acc
    using that assms by (auto simp: watch_def FD_SET_def fds_ok_def)
  then show ?thesis using fold_ub_invariant [where P = "\<lambda>acc. True" and f = "watch table" and xs = "[0..<MAX_CLIENTS]" and s = acc] by simp
qed

lemma host_in_step_blocked: "host_in_step env signals (srv, t) \<Longrightarrow> cut_short env how \<Longrightarrow> host_in_step env signals (srv, t\<lparr>ended := Some how\<rparr>)"
  by (simp add: host.in_step_def host_ok_def)

lemma host_accept_in_step:
  assumes "host_in_step env signals st"
  shows "\<exists>st'. host_accept env ls now st = Some st' \<and> host_in_step env signals st'"
proof -
  have p: "posix_ok env signals" using assms by (simp add: host.in_step_def host_ok_def)
  have st1: "host_in_step env signals (fst st, (snd st)\<lparr>outside := w'\<rparr>)" for w'
    using host_in_step_outside [of env signals "fst st" "snd st"] assms by simp
  show ?thesis
  proof (cases "p_accept env ls (outside (snd st))")
    case Hangs
    with host_in_step_blocked [of env signals "fst st" "snd st"] cut_shortI(4) [OF Hangs] assms show ?thesis by (simp add: host_accept_def)
  next
    case (Returns r)
    then obtain fd sa w where acc: "p_accept env ls (outside (snd st)) = Returns (fd, sa, w)" by (cases r) simp
    note step = host_accept_def [of env ls now st] acc
    show ?thesis
    proof (cases "fd \<ge> 0")
      case False
      with st1 [of w] show ?thesis by (simp add: step)
    next
      case True
      show ?thesis
        using st1 [of "p_setsockopt env fd ''TCP_NODELAY'' w"]
      proof (cases rule: host.call_connect_in_step [where now = now and name = "case sa of AF_INET6 a \<Rightarrow> p_inet_ntop env sa | _ \<Rightarrow> ''?''"])
        case (full t)
        with True host_in_step_outside show ?thesis by (auto simp: step)
      next
        case (slot i srv t)
        let ?t = "t\<lparr>fds := (fds t)[i := fd]\<rparr>"
        have ok: "host_ok env signals t" using slot(3) by (simp add: host.in_step_def)
        have len: "length (fds t) = MAX_CLIENTS" using ok by (simp add: host_ok_def fds_ok_def)
        have "host_ok env signals ?t" using ok posix_okD(3) [OF p acc] by (simp add: host_ok_def fds_ok_update)
        moreover have "ended ?t = None \<longrightarrow> ended t = None \<and> (\<forall>j<MAX_CLIENTS. fd_open ?t j \<longleftrightarrow> fd_open t j \<or> j = i)"
          using True len by (auto simp: fd_open_def nth_update)
        ultimately have "host_in_step env signals (srv, ?t)" by (rule host.adopt_in_step [OF slot(3) _ slot(5)])
        with slot(1,2) True len show ?thesis by (simp add: step)
      qed
    qed
  qed (use posix_okD(5) [OF p] in simp)
qed

lemma host_lost_in_step:
  assumes st: "host_in_step env signals st" and i: "i < MAX_CLIENTS"
  obtains t st' where "host_close_connection env i (snd st) = Some t"
    "call (host_request env) (\<lambda>srv. on_disconnected srv (int i)) (fst st, t) = Some st'" "host_in_step env signals st'"
proof -
  have ok: "host_ok env signals (snd st)" using st by (simp add: host.in_step_def)
  obtain t where t: "host_close_connection env i (snd st) = Some t" "host_ok env signals t" "ended t = ended (snd st)"
    "\<forall>j<MAX_CLIENTS. fd_open t j \<longleftrightarrow> fd_open (snd st) j \<and> j \<noteq> i"
    using host_close_connection_ok [OF ok i] by blast
  have "transport.in_step fd_open (host_ok env signals) (\<lambda>t. ended t = None) {i} (fst st, t)"
    using host.close_in_step [of env signals "fst st" "snd st", OF _ t(2)] t(3,4) st by simp
  from host.call_disconnected [OF this i] that [OF t(1)] show thesis by blast
qed

lemma host_recv_in_step:
  assumes st: "host_in_step env signals st" and i: "i < MAX_CLIENTS"
  shows "\<exists>st'. host_recv env rfds now i st = Some st' \<and> host_in_step env signals st'"
proof (cases "fds (snd st) ! i < 0 \<or> fds (snd st) ! i \<notin> set rfds")
  case True
  have "host_ok env signals (snd st)" using st by (simp add: host.in_step_def)
  with True host_ok_fd [OF this i] have "host_recv env rfds now i st = Some st" by (auto simp: host_recv_def FD_ISSET_def)
  with st show ?thesis by blast
next
  case False
  have ok: "host_ok env signals (snd st)" using st by (simp add: host.in_step_def)
  note step = host_recv_def FD_ISSET_def host_ok_fd [OF ok i]
  show ?thesis
  proof (cases "p_recv env (fds (snd st) ! i) 2048 0 (outside (snd st))")
    case Raises_SIGPIPE
    have "posix_ok env signals" using ok by (simp add: host_ok_def)
    from posix_okD(6) [OF this] Raises_SIGPIPE show ?thesis by simp
  next
    case Hangs
    with False host_in_step_blocked [of env signals "fst st" "snd st"] cut_shortI(3) [OF Hangs] st show ?thesis by (simp add: step)
  next
    case (Returns x)
    then obtain r w where rv: "p_recv env (fds (snd st) ! i) 2048 0 (outside (snd st)) = Returns (r, w)" by (cases x) simp
    let ?st = "(fst st, (snd st)\<lparr>outside := w\<rparr>)"
    have st1: "host_in_step env signals ?st" using host_in_step_outside [of env signals "fst st" "snd st"] st by simp
    obtain t st2 where lost: "host_close_connection env i (snd ?st) = Some t"
      "call (host_request env) (\<lambda>srv. on_disconnected srv (int i)) (fst ?st, t) = Some st2" "host_in_step env signals st2"
      using host_lost_in_step [OF st1 i] .
    obtain st3 where got: "call (host_request env) (\<lambda>srv. on_data srv (int i) data now) ?st = Some (st3 data) \<and> host_in_step env signals (st3 data)" for data
      using host.call_data [OF st1, of "int i" _ now] by metis
    from False lost got st1 show ?thesis by (cases r) (auto simp add: step rv lost(1) [simplified] simp del: split_paired_Ex)
  qed
qed

lemma unless_ended_in_step:
  assumes "host_in_step env signals st" "\<exists>st'. f st = Some st' \<and> host_in_step env signals st'"
  shows "\<exists>st'. unless_ended f st = Some st' \<and> host_in_step env signals st'"
  using assms by (auto simp: unless_ended_def simp del: split_paired_Ex)

text \<open>A round ends the program with the exit status 1 if \<open>select\<close> fails for another reason than a
  signal, or because a system call does not return; otherwise the program goes on.\<close>

lemma main_round_in_step:
  assumes st: "host_in_step env signals st" and ls: "0 \<le> ls" "ls < FD_SETSIZE"
  shows "(\<exists>how. main_round env ls st = Some (Inl how) \<and> (how = Exit 1 \<or> cut_short env how)) \<or>
    (\<exists>st'. main_round env ls st = Some (Inr st') \<and> host_in_step env signals st' \<and> ended (snd st') = None)"
proof -
  have "fds_ok (fds (snd st))" using st by (simp add: host.in_step_def host_ok_def)
  from watch_defined [OF this] obtain rfds maxfd where
    w: "fold_ub (watch (fds (snd st))) [0..<MAX_CLIENTS] ([ls], ls) = Some (rfds, maxfd)" by blast
  obtain r e rfds' w1 where s: "p_select env (maxfd + 1) rfds (outside (snd st)) = (r, e, rfds', w1)"
    by (cases "p_select env (maxfd + 1) rfds (outside (snd st))") blast
  obtain now w2 where now: "host_now_ms env w1 = (now, w2)" by fastforce
  let ?st = "(fst st, (snd st)\<lparr>outside := w2\<rparr>)"
  have st1: "host_in_step env signals ?st" using host_in_step_outside [of env signals "fst st" "snd st"] st by simp
  obtain st2 where st2: "(if r > 0 \<and> ls \<in> set rfds' then host_accept env ls now ?st else Some ?st) = Some st2" "host_in_step env signals st2"
    using host_accept_in_step [OF st1] st1 by metis
  have recv: "\<exists>st'. unless_ended (host_recv env rfds' now i) st = Some st' \<and> host_in_step env signals st'"
    if "i \<in> set [0..<MAX_CLIENTS]" "host_in_step env signals st" for i st
    using that by (intro unless_ended_in_step host_recv_in_step) simp_all
  obtain st3 where st3: "fold_ub (\<lambda>i. unless_ended (host_recv env rfds' now i)) [0..<MAX_CLIENTS] st2 = Some st3" "host_in_step env signals st3"
    using fold_ub_invariant [where P = "host_in_step env signals", OF st2(2), of "[0..<MAX_CLIENTS]" "\<lambda>i. unless_ended (host_recv env rfds' now i)"]
      recv by blast
  obtain st4 where st4: "unless_ended (call (host_request env) (\<lambda>srv. tick srv now)) st3 = Some st4" "host_in_step env signals st4"
    using unless_ended_in_step [OF st3(2), of "call (host_request env) (\<lambda>srv. tick srv now)"] host.call_tick [OF st3(2)] by blast
  have "main_round env ls st = Some (if r < 0 \<and> e \<noteq> EINTR then Inl (Exit 1) else case ended (snd st4) of None \<Rightarrow> Inr st4 | Some how \<Rightarrow> Inl how)"
    using ls w s now st2(1) st3(1) st4(1)
    by (cases "r > 0 \<and> ls \<in> set rfds'") (auto simp add: main_round_def FD_SET_def FD_ISSET_def)
  moreover have "cut_short env how" if "ended (snd st4) = Some how" for how
    using st4(2) that by (simp add: host.in_step_def host_ok_def)
  ultimately show ?thesis using st4(2) by (cases "ended (snd st4)") (auto simp del: split_paired_Ex)
qed

lemma main_rounds_in_step:
  assumes "host_in_step env signals st" "ended (snd st) = None" "0 \<le> ls" "ls < FD_SETSIZE"
  shows "(\<exists>how. main_rounds env ls n st = Some (Inl how) \<and> (how = Exit 1 \<or> cut_short env how)) \<or>
    (\<exists>st'. main_rounds env ls n st = Some (Inr st') \<and> host_in_step env signals st' \<and> ended (snd st') = None)"
  using assms(1,2)
proof (induction n arbitrary: st)
  case (Suc n)
  from main_round_in_step [OF Suc.prems(1) assms(3,4)] show ?case
  proof
    assume "\<exists>st'. main_round env ls st = Some (Inr st') \<and> host_in_step env signals st' \<and> ended (snd st') = None"
    then obtain st' where "main_round env ls st = Some (Inr st')" "host_in_step env signals st'" "ended (snd st') = None" by blast
    with Suc.IH [of st'] show ?thesis by (simp del: split_paired_Ex)
  qed auto
qed simp

lemma main_setup_in_step:
  assumes p: "posix_ok env signals" and run: "main_setup env argv w = Some (Inr (ls, st))"
  shows "host_in_step env signals st \<and> ended (snd st) = None \<and> 0 \<le> ls \<and> ls < FD_SETSIZE"
proof -
  from run obtain port where port: "main_port argv = Some port" by (auto simp: main_setup_def bind_eq_Some_conv)
  obtain ls' w0 where sk: "p_socket env w = (ls', w0)" by fastforce
  let ?w = "p_setsockopt env ls' ''SO_REUSEADDR'' (p_setsockopt env ls' ''IPV6_V6ONLY'' w0)"
  obtain b w2 where bd: "p_bind env ls' port ?w = (b, w2)" by fastforce
  obtain l w3 where ln: "p_listen env ls' 8 w2 = (l, w3)" by fastforce
  have "b = 0 \<and> ls' = ls \<and> st = (Server 32768 False, PosixTransport w3)"
    using run port sk bd ln by (simp add: main_setup_def Let_def split: if_splits)
  then have "p_bind env ls port ?w = (0, w2)" and st: "st = (Server 32768 False, PosixTransport w3)" using bd by auto
  then have "0 \<le> ls \<and> ls < FD_SETSIZE" using posix_okD(4) [OF p] by blast
  moreover have "phase (sessions (Server 32768 False) ! i) = FREE" if "i < MAX_CLIENTS" for i
    using that by (simp add: Server_def Session_def)
  then have "host_in_step env signals st"
    using p Server_ok Server_idle
    by (simp add: st host.in_step_def total.quiet_def host_ok_def fds_ok_def fd_open_def PosixTransport_def FD_SETSIZE_def)
  ultimately show ?thesis by (simp add: st PosixTransport_def)
qed

lemma host_in_stepD:
  assumes "host_in_step env signals (srv, t)" "ended t = None"
  shows "server_ok srv" "idle srv" "length (fds t) = MAX_CLIENTS"
    "i < MAX_CLIENTS \<Longrightarrow> 0 \<le> fds t ! i \<longleftrightarrow> phase (sessions srv ! i) \<noteq> FREE"
  using assms by (simp_all add: host.in_step_def total.quiet_def host_ok_def fds_ok_def fd_open_def)

subsection \<open>The port argument\<close>

lemma atoi_digit:
  assumes "m < 10"
  shows "atoi_digits acc (char_of (48 + m) # s) = atoi_digits (10 * acc + int m) s"
proof -
  have "of_char (char_of (48 + m)) = 48 + m" using assms by simp
  with assms show ?thesis by (simp del: of_char_of)
qed

lemma atoi_digits_decimal: "atoi_digits acc (decimal n @ s) = atoi_digits (10 ^ length (decimal n) * acc + int n) s"
proof (induction n arbitrary: acc s rule: decimal.induct)
  case (1 n)
  show ?case
  proof (cases "n < 10")
    case True
    then show ?thesis using atoi_digit [OF True] by (simp add: decimal.simps [of n] del: atoi_digits.simps)
  next
    case False
    have "int n = 10 * int (n div 10) + int (n mod 10)" by presburger
    moreover have "decimal n = decimal (n div 10) @ [char_of (48 + n mod 10)]" using False by (simp add: decimal.simps [of n])
    ultimately show ?thesis
      using 1 [OF False] atoi_digit [of "n mod 10"] by (simp add: algebra_simps del: atoi_digits.simps)
  qed
qed

lemma decimal_head: "\<exists>c s. decimal n = c # s \<and> 48 \<le> (of_char c :: nat) \<and> (of_char c :: nat) \<le> 57"
proof (induction n rule: decimal.induct)
  case (1 n)
  show ?case
  proof (cases "n < 10")
    case True
    then show ?thesis by (simp add: decimal.simps [of n])
  next
    case False
    from 1 [OF False] obtain c s where "decimal (n div 10) = c # s" "48 \<le> (of_char c :: nat)" "(of_char c :: nat) \<le> 57" by blast
    with False show ?thesis by (simp add: decimal.simps [of n])
  qed
qed

lemma atoi_decimal:
  assumes "n < 2 ^ 31"
  shows "atoi (decimal n) = Some (int n)"
proof -
  obtain c s where c: "decimal n = c # s" "48 \<le> (of_char c :: nat)" "(of_char c :: nat) \<le> 57" using decimal_head by blast
  then have "\<not> isspace c" "c \<noteq> CHR ''-''" "c \<noteq> CHR ''+''" by (auto simp: isspace_def)
  moreover have "atoi_digits 0 (decimal n) = int n" using atoi_digits_decimal [of 0 n "[]"] by simp
  ultimately show ?thesis using c(1) assms by (simp add: atoi_def)
qed

subsection \<open>Clock and sockets\<close>

lemma host_now_ms_exact:
  assumes "p_clock_gettime env w = ((sec, nsec), w')" "0 \<le> sec" "0 \<le> nsec" "nsec < 10 ^ 9" "sec * 1000 + 999 < 2 ^ 64"
  shows "unat (fst (host_now_ms env w)) = nat ((sec * 10 ^ 9 + nsec) div 10 ^ 6)"
proof -
  have sum: "(sec * 10 ^ 9 + nsec) div 10 ^ 6 = sec * 1000 + nsec div 1000000" by simp
  have trunc: "sgn nsec * (\<bar>nsec\<bar> div 1000000) = nsec div 1000000" using assms(3) by (cases "nsec = 0") simp_all
  have "fst (host_now_ms env w) = of_int ((sec * 10 ^ 9 + nsec) div 10 ^ 6)"
    unfolding host_now_ms_def assms(1) sum by (simp only: prod.case fst_conv trunc) simp
  moreover have "0 \<le> (sec * 10 ^ 9 + nsec) div 10 ^ 6" "(sec * 10 ^ 9 + nsec) div 10 ^ 6 < 2 ^ 64"
    using assms(2-) by simp_all
  moreover have "unat (of_int x :: u64) = nat x" if "0 \<le> x" "x < 2 ^ 64" for x
    using that by (simp add: unsigned_of_int take_bit_int_eq_self)
  ultimately show ?thesis by (simp only:)
qed

text \<open>\<open>sent fd w\<close> are the bytes \<open>send\<close> has accepted on \<open>fd\<close>: a positive result counts them.\<close>

definition sends :: "'w posix \<Rightarrow> (int \<Rightarrow> 'w \<Rightarrow> bytes) \<Rightarrow> bool" where
  "sends env sent \<longleftrightarrow> (\<forall>fd bs w n e w'. p_send env fd bs 0 w = Returns (n, e, w') \<longrightarrow>
     n \<le> int (length bs) \<and> sent fd w' = sent fd w @ take (nat n) bs)"

text \<open>Sending on \<open>fd\<close> makes progress or is interrupted; it neither fails nor fails to return.\<close>

definition willing :: "'w posix \<Rightarrow> int \<Rightarrow> bool" where
  "willing env fd \<longleftrightarrow> (\<forall>bs w. bs \<noteq> [] \<longrightarrow> (\<exists>n e w'. p_send env fd bs 0 w = Returns (n, e, w') \<and> (n > 0 \<or> e = EINTR)))"

lemma send_loop_sends:
  assumes "send_loop env fd data off w = Some r"
  shows "sends env sent \<longrightarrow> off \<le> length data \<longrightarrow> (\<exists>m. off \<le> m \<and> m \<le> length data \<and>
    sent fd (fst r) = sent fd w @ take (m - off) (drop off data) \<and> (willing env fd \<longrightarrow> m = length data \<and> snd r = None))"
  using assms
proof (induction env fd data off w r rule: send_loop.raw_induct [rotated, consumes 1, case_names pass])
  case (pass loop env fd data off w r)
  let ?s = "p_send env fd (drop off data) 0 w"
  show ?case
  proof (intro impI)
    assume S: "sends env sent" and off: "off \<le> length data"
    let ?goal = "\<exists>m. off \<le> m \<and> m \<le> length data \<and> sent fd (fst r) = sent fd w @ take (m - off) (drop off data) \<and>
      (willing env fd \<longrightarrow> m = length data \<and> snd r = None)"
    consider (over) "\<not> off < length data" | (cut) "off < length data" "\<nexists>x. ?s = Returns x"
      | (fails) n e w1 where "off < length data" "?s = Returns (n, e, w1)" "n \<le> 0" "e \<noteq> EINTR"
      | (again) n e w1 where "off < length data" "?s = Returns (n, e, w1)" "n \<le> 0 \<longrightarrow> e = EINTR" by (metis prod_cases3)
    then show ?goal
    proof cases
      case over
      with pass.hyps off show ?thesis by (intro exI [of _ off]) auto
    next
      case cut
      then have "\<not> willing env fd" unfolding willing_def by (metis drop_eq_Nil2 not_less)
      moreover have "fst r = w" using pass.hyps cut by (cases ?s) auto
      ultimately show ?thesis using off by (intro exI [of _ off]) simp
    next
      case (fails n e w1)
      then have "\<not> willing env fd" unfolding willing_def by (metis drop_eq_Nil2 not_less prod.inject syscall.inject)
      moreover have "sent fd w1 = sent fd w" using S fails(2,3) unfolding sends_def by fastforce
      moreover have "fst r = w1" using pass.hyps fails by auto
      ultimately show ?thesis using off by (intro exI [of _ off]) simp
    next
      case (again n e w1)
      have n: "n \<le> int (length data - off)" and w1: "sent fd w1 = sent fd w @ take (nat n) (drop off data)"
        using S again(2) unfolding sends_def by (metis length_drop)+
      define off' where "off' = off + nat n"
      have l: "loop env fd data off' w1 = Some r" using pass.hyps again by (auto simp: off'_def split: if_splits)
      have le: "off \<le> off'" "off' \<le> length data" using n again(1) by (auto simp: off'_def)
      with pass.IH [OF l] S obtain m where m: "off' \<le> m" "m \<le> length data" "sent fd (fst r) = sent fd w1 @ take (m - off') (drop off' data)"
        "willing env fd \<longrightarrow> m = length data \<and> snd r = None" by blast
      have "m - off = nat n + (m - off')" using m(1) by (simp add: off'_def)
      then have "take (m - off) (drop off data) = take (nat n) (drop off data) @ take (m - off') (drop off' data)"
        by (simp only: take_add drop_drop off'_def add.commute)
      with m w1 le(1) show ?thesis by (intro exI [of _ m]) simp
    qed
  qed
qed

text \<open>\<open>bound fd w\<close> is the port the socket \<open>fd\<close> is bound to: \<open>bind\<close> sets it when it succeeds, \<open>listen\<close>
  leaves it alone.\<close>

definition binds :: "'w posix \<Rightarrow> (int \<Rightarrow> 'w \<Rightarrow> u16 option) \<Rightarrow> bool" where
  "binds env bound \<longleftrightarrow>
     (\<forall>fd port w w'. p_bind env fd port w = (0, w') \<longrightarrow> bound fd w' = Some port) \<and>
     (\<forall>fd n w. bound fd (snd (p_listen env fd n w)) = bound fd w)"

lemma main_setup_bound:
  assumes "binds env bound" "main_port argv = Some port" "main_setup env argv w = Some (Inr (ls, srv, t))"
  shows "bound ls (outside t) = Some port"
proof -
  obtain ls' w0 where sk: "p_socket env w = (ls', w0)" by fastforce
  let ?w = "p_setsockopt env ls' ''SO_REUSEADDR'' (p_setsockopt env ls' ''IPV6_V6ONLY'' w0)"
  obtain b w2 where bd: "p_bind env ls' port ?w = (b, w2)" by fastforce
  obtain l w3 where ln: "p_listen env ls' 8 w2 = (l, w3)" by fastforce
  have "b = 0 \<and> ls' = ls \<and> outside t = w3"
    using assms(2,3) sk bd ln by (auto simp: main_setup_def Let_def PosixTransport_def split: if_splits)
  moreover have "bound ls' w3 = bound ls' w2" using assms(1) ln unfolding binds_def by (metis snd_conv)
  moreover have "b = 0 \<Longrightarrow> bound ls' w2 = Some port" using assms(1) bd unfolding binds_def by blast
  ultimately show ?thesis by metis
qed

end
