(* ===== verification/Test_Client.thy ===== *)
theory Test_Client
  imports Server_Runs Wire_Votes
begin

text \<open>
  The protocol client of the repository's scenario tests: \<^verbatim>\<open>host/test_main.cpp\<close>, lines
  60--159. A client numbers its messages with a counter; here the number is an argument.
  The scenarios below are sequences of calls the tests make.
\<close>

subsection \<open>Frames of a client\<close>

definition client_frame :: "u16 \<Rightarrow> frame" where
  "client_frame type = be_put32 (be_put16 [] type) 0"

definition patch :: "frame \<Rightarrow> frame" where
  "patch f = (let len = of_nat (length f - 6) :: u32 in
     f[2 := ucast (drop_bit 24 len), 3 := ucast (drop_bit 16 len), 4 := ucast (drop_bit 8 len), 5 := ucast len])"

definition bytes_of :: "string \<Rightarrow> bytes" where
  "bytes_of = map of_char"

definition client_preinit :: "u32 \<Rightarrow> string \<Rightarrow> frame" where
  "client_preinit seq name =
     (let f = add_u32 (client_frame 0) TlvOpt_MSG_SEQ_NUMBER seq;
          f = add_string f TlvOpt_CLUSTER_NAME (bytes_of name)
      in patch f)"

definition client_init :: "u32 \<Rightarrow> u32 \<Rightarrow> ring_id \<Rightarrow> u32 \<Rightarrow> tie_breaker \<Rightarrow> algorithm \<Rightarrow> frame" where
  "client_init seq nid ring hb tb alg =
     (let f = add_u32 (client_frame 3) TlvOpt_MSG_SEQ_NUMBER seq;
          f = add_u16_array f TlvOpt_SUPPORTED_MESSAGES [0, 1, 3, 4, 5, 6, 7, 8, 9, 10, 11, 12, 13, 14, 15, 16, 17] 17;
          f = add_u16_array f TlvOpt_SUPPORTED_OPTIONS [0, 1, 2, 3, 4, 5] 6;
          f = add_u32 f TlvOpt_NODE_ID nid;
          f = add_u16 f TlvOpt_DECISION_ALGORITHM (Algorithm_u16 alg);
          f = add_u32 f TlvOpt_HEARTBEAT_INTERVAL hb;
          f = add_tie_breaker f tb;
          f = add_ring_id f ring
      in patch f)"

definition client_config_list :: "u32 \<Rightarrow> node_list_type \<Rightarrow> u32 list \<Rightarrow> bool \<Rightarrow> u64 \<Rightarrow> frame" where
  "client_config_list seq type ids version_set version =
     (let f = add_u32 (client_frame 10) TlvOpt_MSG_SEQ_NUMBER seq;
          f = add_u8 f TlvOpt_NODE_LIST_TYPE (NodeListType_u8 type);
          f = (if version_set then add_u64 f TlvOpt_CONFIG_VERSION version else f);
          f = foldl (\<lambda>f i. add_node_info f \<lparr>ni_node_id = i, ni_data_center_id = 0, ni_state = NodeState_NOT_SET\<rparr>) f ids
      in patch f)"

definition client_membership :: "u32 \<Rightarrow> ring_id \<Rightarrow> u32 list \<Rightarrow> heuristics \<Rightarrow> frame" where
  "client_membership seq ring ids h =
     (let f = add_u32 (client_frame 10) TlvOpt_MSG_SEQ_NUMBER seq;
          f = add_u8 f TlvOpt_NODE_LIST_TYPE (NodeListType_u8 MEMBERSHIP);
          f = add_ring_id f ring;
          f = (if h \<noteq> Heuristics_UNDEFINED then add_u8 f TlvOpt_HEURISTICS (Heuristics_u8 h) else f);
          f = foldl (\<lambda>f i. add_node_info f \<lparr>ni_node_id = i, ni_data_center_id = 0, ni_state = NodeState_MEMBER\<rparr>) f ids
      in patch f)"

definition client_quorum_list :: "u32 \<Rightarrow> bool \<Rightarrow> u32 list \<Rightarrow> frame" where
  "client_quorum_list seq quorate ids =
     (let f = add_u32 (client_frame 10) TlvOpt_MSG_SEQ_NUMBER seq;
          f = add_u8 f TlvOpt_NODE_LIST_TYPE (NodeListType_u8 QUORUM);
          f = add_u8 f TlvOpt_QUORATE (if quorate then 1 else 0);
          f = foldl (\<lambda>f i. add_node_info f \<lparr>ni_node_id = i, ni_data_center_id = 0, ni_state = NodeState_MEMBER\<rparr>) f ids
      in patch f)"

definition client_vote_info_reply :: "u32 \<Rightarrow> frame" where
  "client_vote_info_reply vi_seq = patch (add_u32 (client_frame 15) TlvOpt_MSG_SEQ_NUMBER vi_seq)"

definition client_echo_request :: "u32 \<Rightarrow> frame" where
  "client_echo_request seq = patch (add_u32 (client_frame 8) TlvOpt_MSG_SEQ_NUMBER seq)"

definition node :: "u32 \<Rightarrow> node_info" where
  "node i = \<lparr>ni_node_id = i, ni_data_center_id = 0, ni_state = NodeState_MEMBER\<rparr>"

lemma patch_client: "patch (client_frame t @ pl) = be_put32 (be_put16 [] t) (of_nat (length pl)) @ pl"
  by (simp add: patch_def client_frame_def be_put16_def be_put32_def Let_def)

lemma foldl_add_node_info:
  "foldl (\<lambda>f i. add_node_info f (g i)) f is = f @ tlv_encode (map (\<lambda>i. (17, tlv_encode (node_info_tlvs (g i)))) is)"
  by (induction "is" arbitrary: f) (simp_all add: add_node_info_encode)

lemma decode_client_frame:
  assumes "t \<in> set msg_types" "\<forall>(x, d)\<in>set ts. length d < 2 ^ 16"
  shows "decode_frame (patch (client_frame (MsgType_u16 t) @ tlv_encode ts)) =
    Some (fold_ub md.decode_option ts (MsgDecoded\<lparr>m_type := t\<rparr>))"
  using decode_frame_of [OF assms(2,1)] by (simp add: patch_client frame_of_def)

lemma membership_roundtrip:
  "decode_frame (client_membership seq ring ids h) =
     Some (if length ids \<le> MAX_NODES_PER_LIST
           then Some (MsgDecoded\<lparr>m_type := MsgType_NODE_LIST, m_seq_number := seq, m_seq_number_set := True,
             m_node_list_type := MEMBERSHIP, m_node_list_type_set := True, m_ring_id := ring, m_ring_id_set := True,
             m_heuristics := h, m_nodes := map node ids\<rparr>)
           else None)"
proof -
  let ?ns = "map (\<lambda>i. (17, tlv_encode (node_info_tlvs (node i)))) ids"
  let ?ts = "[(0, be_put32 [] seq), (18, [NodeListType_u8 MEMBERSHIP]),
      (13, be_put32 [] (ring_node_id ring) @ be_put64 [] (ring_seq ring))] @
      (if h \<noteq> Heuristics_UNDEFINED then [(22, [Heuristics_u8 h])] else [])"
  have enc: "client_membership seq ring ids h = patch (client_frame (MsgType_u16 MsgType_NODE_LIST) @ tlv_encode (?ts @ ?ns))"
    by (simp add: client_membership_def foldl_add_node_info writer_encode node_def tlv_encode_def)
  have wire: "\<forall>n\<in>set (map node ids). wire_node n" by (simp add: node_def wire_node_def NodeState_of_def)
  have small: "\<forall>(x, d)\<in>set (?ts @ ?ns). length d < 2 ^ 16"
    using length_node_info_tlvs by auto
  have "fold_ub md.decode_option ([(0, be_put32 [] seq), (18, [NodeListType_u8 ty]),
      (13, be_put32 [] (ring_node_id ring) @ be_put64 [] (ring_seq ring))] @
      (if h \<noteq> Heuristics_UNDEFINED then [(22, [Heuristics_u8 h])] else [])) (MsgDecoded\<lparr>m_type := MsgType_NODE_LIST\<rparr>) =
    Some (MsgDecoded\<lparr>m_type := MsgType_NODE_LIST, m_seq_number := seq, m_seq_number_set := True,
             m_node_list_type := ty, m_node_list_type_set := True, m_ring_id := ring, m_ring_id_set := True,
             m_heuristics := h\<rparr>)" for ty
    by (auto simp: codec_simps MsgDecoded_def)
  note head = this [of MEMBERSHIP]
  have nodes: "fold_ub md.decode_option ?ns out = (if ids = [] \<or> length (m_nodes out) + length ids \<le> MAX_NODES_PER_LIST
      then Some (out\<lparr>m_nodes := m_nodes out @ map node ids\<rparr>) else None)" for out
    using decode_node_infos [OF wire, of out] by (simp add: comp_def)
  have "decode_frame (client_membership seq ring ids h) = Some (fold_ub md.decode_option (?ts @ ?ns) (MsgDecoded\<lparr>m_type := MsgType_NODE_LIST\<rparr>))"
    unfolding enc by (rule decode_client_frame [OF _ small]) (simp add: msg_types_def)
  also have "\<dots> = Some (fold_ub md.decode_option ?ns (MsgDecoded\<lparr>m_type := MsgType_NODE_LIST, m_seq_number := seq,
      m_seq_number_set := True, m_node_list_type := MEMBERSHIP, m_node_list_type_set := True, m_ring_id := ring,
      m_ring_id_set := True, m_heuristics := h\<rparr>))"
    by (subst fold_ub_append, subst head) simp
  finally show ?thesis unfolding nodes by (auto simp: MsgDecoded_def)
qed

subsection \<open>Scenarios\<close>

definition feed :: "int \<Rightarrow> frame \<Rightarrow> event" where
  "feed slot f = Data slot f 1000"

definition join :: "int \<Rightarrow> string \<Rightarrow> u32 \<Rightarrow> ring_id \<Rightarrow> event list" where
  "join slot name nid ring =
     [Connect 1000 ''test-peer'', feed slot (client_preinit 1 name),
      feed slot (client_init 2 nid ring 8000 TieBreaker Algorithm_FFSPLIT)]"

definition ring_2_100 :: ring_id where
  "ring_2_100 = \<lparr>ring_node_id = 2, ring_seq = 100\<rparr>"

text \<open>Two nodes of one cluster, both acknowledged (\<open>ack_two_nodes\<close> of the tests).\<close>

definition ack_two_nodes :: "event list" where
  "ack_two_nodes =
     join 0 ''testcluster'' 4 ring_2_100 @ join 1 ''testcluster'' 2 ring_2_100 @
     [feed 0 (client_config_list 3 INITIAL_CONFIG [2, 4] False 0),
      feed 0 (client_membership 4 ring_2_100 [2, 4] Heuristics_UNDEFINED),
      feed 1 (client_config_list 3 INITIAL_CONFIG [2, 4] False 0),
      feed 1 (client_membership 4 ring_2_100 [2, 4] Heuristics_UNDEFINED),
      feed 0 (client_vote_info_reply 1), feed 1 (client_vote_info_reply 1)]"

text \<open>The network splits: each node reports a membership without the other.\<close>

definition split_two_nodes :: "event list" where
  "split_two_nodes = ack_two_nodes @
     [feed 0 (client_membership 5 \<lparr>ring_node_id = 4, ring_seq = 200\<rparr> [4] Heuristics_UNDEFINED),
      feed 1 (client_membership 5 \<lparr>ring_node_id = 2, ring_seq = 201\<rparr> [2] Heuristics_UNDEFINED)]"

text \<open>One node of a cluster of two reports itself and the absent peer and is acknowledged.\<close>

definition first_node_acked :: "event list" where
  "first_node_acked =
     join 0 ''testcluster'' 4 ring_2_100 @
     [feed 0 (client_config_list 3 INITIAL_CONFIG [2, 4] False 0),
      feed 0 (client_membership 4 ring_2_100 [2, 4] Heuristics_UNDEFINED)]"

text \<open>One node of a cluster of three reports that it is alone.\<close>

definition lone_node_nacked :: "event list" where
  "lone_node_nacked =
     join 0 ''testcluster'' 4 ring_2_100 @
     [feed 0 (client_config_list 3 INITIAL_CONFIG [2, 4, 6] False 0),
      feed 0 (client_membership 4 ring_2_100 [4] Heuristics_UNDEFINED)]"

lemma first_node_acked_once: "init_once_run first_node_acked (Server 32768 True)"
  by code_simp

lemma first_node_acked_run:
  "case run first_node_acked (Server 32768 True) of None \<Rightarrow> False
   | Some srv \<Rightarrow> phase (sessions srv ! 0) = ACTIVE \<and> cluster (sessions srv ! 0) = 0 \<and> node_id (sessions srv ! 0) = 4 \<and>
       last_ack_nack (sessions srv ! 0) = Vote_ACK \<and> cl_state (clusters srv ! 0) = SENDING_ACKS"
  by code_simp

lemma lone_node_nacked_run:
  "case run lone_node_nacked (Server 32768 True) of None \<Rightarrow> False
   | Some srv \<Rightarrow> phase (sessions srv ! 0) = ACTIVE \<and> cluster (sessions srv ! 0) = 0 \<and> node_id (sessions srv ! 0) = 4 \<and>
       last_ack_nack (sessions srv ! 0) = Vote_NACK \<and> cl_state (clusters srv ! 0) = SENDING_NACKS"
  by code_simp

text \<open>Two nodes that have joined and reported nothing.\<close>

definition two_joined :: "event list" where
  "two_joined = join 0 ''testcluster'' 4 ring_2_100 @ join 1 ''testcluster'' 2 ring_2_100"

lemma two_joined_run:
  "case run two_joined (Server 32768 True) of None \<Rightarrow> False
   | Some srv \<Rightarrow> phase (sessions srv ! 0) = ACTIVE \<and> phase (sessions srv ! 1) = ACTIVE \<and> cluster (sessions srv ! 0) = cluster (sessions srv ! 1)"
  by code_simp

lemma two_joined_once: "init_once_run two_joined (Server 32768 True)"
  by code_simp

text \<open>The first of two joined nodes repeats INIT with the node id of the second.\<close>

definition repeated_init :: frame where
  "repeated_init = client_init 3 2 ring_2_100 8000 TieBreaker Algorithm_FFSPLIT"

lemma two_joined_ids:
  "case run two_joined (Server 32768 True) of None \<Rightarrow> False
   | Some srv \<Rightarrow> active_in (sessions srv ! 0) 0 \<and> active_in (sessions srv ! 1) 0 \<and> rx (sessions srv ! 0) = [] \<and>
       node_id (sessions srv ! 1) = 2 \<and> max_rx_frame srv = 32768"
  by code_simp

lemma repeated_init_frame:
  "framed repeated_init (drop MSG_HEADER_LEN repeated_init)" "be_get16 repeated_init 0 = Some (MsgType_u16 MsgType_INIT)"
  "length (drop MSG_HEADER_LEN repeated_init) \<le> 32768"
  by code_simp+

lemma repeated_init_decodes:
  "case msg_decode MsgType_INIT (drop MSG_HEADER_LEN repeated_init) of Some (Some m) \<Rightarrow> m_node_id m = 2 | _ \<Rightarrow> False"
  by code_simp

text \<open>Two nodes that report each other missing: the second report decides the split.\<close>

definition split_decision :: "event list" where
  "split_decision = join 0 ''testcluster'' 4 ring_2_100 @ join 1 ''testcluster'' 2 ring_2_100 @
     [feed 0 (client_config_list 3 INITIAL_CONFIG [2, 4] False 0),
      feed 0 (client_membership 4 \<lparr>ring_node_id = 4, ring_seq = 200\<rparr> [4] Heuristics_UNDEFINED),
      feed 1 (client_config_list 3 INITIAL_CONFIG [2, 4] False 0),
      feed 1 (client_membership 4 \<lparr>ring_node_id = 2, ring_seq = 201\<rparr> [2] Heuristics_UNDEFINED)]"

lemma split_decision_run:
  "case run split_decision (Server 32768 True) of None \<Rightarrow> False
   | Some srv \<Rightarrow> map phase (take 2 (sessions srv)) = [ACTIVE, ACTIVE] \<and> map cluster (take 2 (sessions srv)) = [0, 0] \<and>
       map vote_info_seq (take 2 (sessions srv)) = [1, 0] \<and> cl_state (clusters srv ! 0) = SENDING_NACKS \<and>
       map ff_state (sessions srv) = SENDING_NACK # SENDING_ACK # replicate 6 Client_WAITING_FOR_CHANGE"
  by code_simp

lemma first_node_acked_sends:
  "case run first_node_acked (Server 32768 True) of None \<Rightarrow> False
   | Some srv \<Rightarrow> SendFrame 0 (build_preinit_reply True 1 TlsSupported_UNSUPPORTED 0) \<in> set (outs srv)"
  by code_simp

text \<open>A peer that has connected, and one that joins its cluster.\<close>

lemma connected_run:
  "case run [Connect 1000 ''test-peer''] (Server 32768 True) of None \<Rightarrow> False
   | Some srv \<Rightarrow> phase (sessions srv ! 0) \<noteq> FREE \<and> rx (sessions srv ! 0) = [] \<and> max_rx_frame srv = 32768"
  by code_simp

lemma joining_run:
  "case run [Connect 1000 ''test-peer'', feed 0 (client_preinit 1 ''testcluster'')] (Server 32768 True) of None \<Rightarrow> False
   | Some srv \<Rightarrow> on_state_change srv \<and>
       (case server_step (feed 0 (client_init 2 4 ring_2_100 8000 TieBreaker Algorithm_FFSPLIT)) srv of None \<Rightarrow> False
        | Some srv' \<Rightarrow> connected_clients srv' \<noteq> connected_clients srv)"
  by code_simp

text \<open>A call without bytes after \<open>first_node_acked\<close>.\<close>

lemma first_node_acked_called:
  "case run first_node_acked (Server 32768 True) of None \<Rightarrow> False
   | Some srv \<Rightarrow> (case on_data srv 0 [] 5000 of None \<Rightarrow> False
       | Some srv' \<Rightarrow> phase (sessions srv' ! 0) = ACTIVE \<and> heartbeat_ms (sessions srv' ! 0) = 8000)"
  by code_simp

text \<open>The last message of \<open>first_node_acked\<close> on its own.\<close>

definition membership_2_4 :: frame where
  "membership_2_4 = client_membership 4 ring_2_100 [2, 4] Heuristics_UNDEFINED"

lemma membership_2_4_decodes:
  "case msg_decode MsgType_NODE_LIST (drop 6 membership_2_4) of Some (Some m) \<Rightarrow> True | _ \<Rightarrow> False"
  by code_simp

lemma about_to_ack_run:
  "case run (take 4 first_node_acked) (Server 32768 True) of None \<Rightarrow> False
   | Some srv \<Rightarrow> phase (sessions srv ! 0) = ACTIVE \<and> \<not> schedule_disconnect (sessions srv ! 0) \<and>
      (case handle_frame (srv\<lparr>processing := True\<rparr>) 0 MsgType_NODE_LIST membership_2_4 (drop 6 membership_2_4) 1000 of
         None \<Rightarrow> False
       | Some srv' \<Rightarrow> SendFrame 0 (build_vote_info 1 ring_2_100 Vote_ACK) \<in> set (drop (length (outs srv)) (outs srv')))"
  by code_simp

lemma about_to_ack_once: "init_once_run (take 4 first_node_acked) (Server 32768 True)"
  using first_node_acked_once unfolding init_once_run_def
  by (subst (asm) append_take_drop_id [of 4 first_node_acked, symmetric]) (rule guarded_appendD)

lemma about_to_ack:
  obtains srv srv' where "server_ok srv" "votes_ok srv" "processing srv" "phase (sessions srv ! 0) = ACTIVE"
    "\<not> schedule_disconnect (sessions srv ! 0)"
    "handle_frame srv 0 MsgType_NODE_LIST membership_2_4 (drop 6 membership_2_4) 1000 = Some srv'"
    "SendFrame 0 (build_vote_info 1 ring_2_100 Vote_ACK) \<in> set (drop (length (outs srv)) (outs srv'))"
proof -
  obtain srv where srv: "run (take 4 first_node_acked) (Server 32768 True) = Some srv" "server_ok srv" "votes_ok srv"
    using run_once [OF about_to_ack_once] by blast
  moreover from this(1) about_to_ack_run obtain srv' where "phase (sessions srv ! 0) = ACTIVE" "\<not> schedule_disconnect (sessions srv ! 0)"
    "handle_frame (srv\<lparr>processing := True\<rparr>) 0 MsgType_NODE_LIST membership_2_4 (drop 6 membership_2_4) 1000 = Some srv'"
    "SendFrame 0 (build_vote_info 1 ring_2_100 Vote_ACK) \<in> set (drop (length (outs srv)) (outs srv'))"
    by (auto split: option.splits)
  ultimately show thesis
    using votes_ok_cong [of "srv\<lparr>processing := True\<rparr>" srv] by (intro that [of "srv\<lparr>processing := True\<rparr>" srv']) simp_all
qed

subsection \<open>Small states\<close>

text \<open>A cluster with the configured nodes \<open>cfg\<close> and one active client per entry of
  \<open>reports\<close>: its node id and the membership it reported.\<close>

definition member :: "u32 list \<Rightarrow> u32 \<times> u32 list \<Rightarrow> session" where
  "member cfg r = Session\<lparr>phase := ACTIVE, cluster_name := ''testcluster'', cluster := 0, node_id := fst r,
     heartbeat_ms := 8000, config_list := map node cfg, membership_list := map node (snd r)\<rparr>"

definition cluster_of :: "u32 list \<Rightarrow> (u32 \<times> u32 list) list \<Rightarrow> server" where
  "cluster_of cfg reports = (Server 32768 True)
     \<lparr>sessions := map (member cfg) reports @ replicate (MAX_CLIENTS - length reports) Session,
      clusters := [Cluster\<lparr>cl_used := True, cl_name := ''testcluster'', cl_members := int (length reports)\<rparr>, Cluster]\<rparr>"

text \<open>The client in slot \<open>i\<close> triggers a decision with the lists the server already has.\<close>

definition trigger :: "server \<Rightarrow> nat \<Rightarrow> trigger_view" where
  "trigger srv i = (let s = sessions srv ! i in
     \<lparr>tv_slot = i, tv_leaving = False, tv_ring_id = last_ring_id s, tv_config = config_list s,
      tv_membership = membership_list s, tv_heuristics = last_heuristics s\<rparr>)"

text \<open>The first of two configured nodes reports that it sees the second, which has reported nothing.\<close>

definition configured_pair :: "event list" where
  "configured_pair = two_joined @
     [feed 0 (client_config_list 3 INITIAL_CONFIG [2, 4] False 0), feed 1 (client_config_list 3 INITIAL_CONFIG [2, 4] False 0)]"

lemma configured_pair_once: "init_once_run configured_pair (Server 32768 True)"
  by code_simp

lemma configured_pair_run:
  "case run configured_pair (Server 32768 True) of None \<Rightarrow> False
   | Some srv \<Rightarrow> let tv = (trigger srv 0)\<lparr>tv_membership := [node 4, node 2]\<rparr> in
       cluster (sessions srv ! 0) = 0 \<and> node_id (sessions srv ! 0) \<in> node_ids (tv_membership tv) \<and>
       in_walk srv 0 tv 0 \<and> in_walk srv 0 tv 1 \<and> node_id (sessions srv ! 1) \<in> node_ids (eff_membership srv 0 tv) \<and>
       node_ids (eff_membership srv 0 tv) \<noteq> node_ids (eff_membership srv 1 tv)"
  by code_simp

end
