(* ===== verification/Platforms.thy ===== *)
theory Platforms
  imports Component_Stream Component_Sensors Posix_Facts Test_Client
begin

text \<open>
  Two concrete platforms, on which the assumptions about ESPHome and about the system calls
  hold: a network of peers that connect, send bytes and read slowly. They are the
  instances at which the properties of the component and of the host program are applied.
\<close>

subsection \<open>A network for the component\<close>

text \<open>Peers that wait to connect, each with the bytes it will send; per socket the bytes not
  yet read and the bytes written; the values published so far. The listening socket is the
  handle 99. A write takes at most 32 bytes.\<close>

record network =
  n_clock :: u32
  n_waiting :: "bytes list"
  n_unread :: "bytes list"
  n_written :: "bytes list"
  n_published :: "publication list"

definition n_write :: "nat \<Rightarrow> bytes \<Rightarrow> network \<Rightarrow> (errno + nat) \<times> network" where
  "n_write k bs w =
     (if k < length (n_written w)
      then (Inr (min 32 (length bs)), w\<lparr>n_written := (n_written w)[k := n_written w ! k @ take 32 bs]\<rparr>)
      else (Inl EAGAIN, w))"

definition n_read :: "nat \<Rightarrow> nat \<Rightarrow> network \<Rightarrow> (errno + bytes) \<times> network" where
  "n_read k n w =
     (if k < length (n_unread w)
      then if n_unread w ! k = [] then (Inl EWOULDBLOCK, w)
           else (Inr (take n (n_unread w ! k)), w\<lparr>n_unread := (n_unread w)[k := drop n (n_unread w ! k)]\<rparr>)
      else (Inl EOTHER, w))"

definition n_accept :: "nat \<Rightarrow> network \<Rightarrow> (nat \<times> sockaddr) option \<times> network" where
  "n_accept l w =
     (case n_waiting w of
        [] \<Rightarrow> (None, w)
      | bs # rest \<Rightarrow>
          (Some (length (n_unread w), AF_INET [127, 0, 0, 1]),
           w\<lparr>n_waiting := rest, n_unread := n_unread w @ [bs], n_written := n_written w @ [[]]\<rparr>))"

definition last_published :: "network \<Rightarrow> nat \<Rightarrow> publication option" where
  "last_published w i = List.find (\<lambda>q. sensor q = i) (n_published w)"

definition n_status :: "network \<Rightarrow> string option" where
  "n_status w = (case last_published w 3 of Some (PublishStatus s) \<Rightarrow> Some s | _ \<Rightarrow> None)"

definition network_env :: "(nat, network) esphome" where
  "network_env =
     \<lparr>socket_ip = (\<lambda>w. (Some 99, w)), set_sockaddr_any = (\<lambda>p. be_put16 [] p), sock_setopt = (\<lambda>k opt w. w),
      sock_setblocking = (\<lambda>k b w. w), sock_bind = (\<lambda>k a w. (0, w)), sock_listen = (\<lambda>k n w. (0, w)),
      sock_accept = n_accept, inet_ntop = (\<lambda>a. ''127.0.0.1''), sock_write = n_write, sock_read = n_read,
      sock_close = (\<lambda>k w. w), millis = (\<lambda>w. (n_clock w, w\<lparr>n_clock := n_clock w + 1\<rparr>)),
      publish_state = (\<lambda>p w. w\<lparr>n_published := p # n_published w\<rparr>), status_state = n_status, use_ipv6 = False\<rparr>"

definition n_input :: "network \<Rightarrow> nat" where
  "n_input w = sum_list (map (\<lambda>bs. Suc (length bs)) (n_waiting w)) + sum_list (map length (n_unread w))"

definition n_sent :: "nat \<Rightarrow> network \<Rightarrow> bytes" where
  "n_sent k w = (if k < length (n_written w) then n_written w ! k else [])"

definition n_display :: "network \<Rightarrow> publication \<Rightarrow> bool" where
  "n_display w p \<longleftrightarrow> last_published w (sensor p) = Some p"

lemma network_esphome_ok: "esphome_ok network_env n_input"
proof -
  have rd: "n_input (snd (n_read k n w)) + (case fst (n_read k n w) of Inr bs \<Rightarrow> length bs | Inl e \<Rightarrow> 0) \<le> n_input w" for k n w
  proof (cases "k < length (n_unread w) \<and> n_unread w ! k \<noteq> []")
    case True
    have "sum_list (map length ((n_unread w)[k := x])) + length (n_unread w ! k) = sum_list (map length (n_unread w)) + length x" for x
      using True sum_list_update [of k "map length (n_unread w)" "length x"] member_le_sum_list [of "length (n_unread w ! k)" "map length (n_unread w)"]
      by (simp add: map_update)
    from this [of "drop n (n_unread w ! k)"] show ?thesis using True by (simp add: n_read_def n_input_def)
  qed (auto simp: n_read_def)
  have "n_input (snd (n_accept l w)) + (if fst (n_accept l w) = None then 0 else 1) \<le> n_input w" for l w
    by (auto simp: n_accept_def n_input_def split: list.split)
  with rd show ?thesis
    by (simp add: esphome_ok_def network_env_def n_write_def n_input_def case_prod_unfold)
qed

lemma network_stream_ok: "stream_ok network_env n_sent"
  by (auto simp: stream_ok_def network_env_def n_write_def n_sent_def nth_list_update min_def split: if_splits)

lemma network_sensors_ok: "sensors_ok network_env n_display"
proof -
  have "n_display w (PublishStatus s)" if "n_status w = Some s" for w s
    using that by (auto simp: n_status_def n_display_def split: option.splits publication.splits)
  then show ?thesis
    by (auto simp: sensors_ok_def network_env_def n_display_def last_published_def n_write_def n_read_def n_accept_def fun_eq_iff split: list.split)
qed

text \<open>One peer that connects and sends PREINIT.\<close>

definition one_peer :: network where
  "one_peer = \<lparr>n_clock = 5, n_waiting = [client_preinit 1 ''testcluster''], n_unread = [], n_written = [], n_published = []\<rparr>"

definition one_peer_component :: "(nat, network) component" where
  "one_peer_component = set_status_sensor True (set_port 5403 (QnetdComponent one_peer))"

lemma one_peer_pass:
  "case passes network_env [\<lambda>w. w] (component_setup network_env one_peer_component) of None \<Rightarrow> False
   | Some st \<Rightarrow> \<not> failed (snd st) \<and> \<not> dirty (snd st) \<and> phase (sessions (fst st) ! 0) = WAIT_INIT \<and>
       used (conns (snd st) ! 0) \<and> map sock (conns (snd st)) = Some 0 # replicate 7 None \<and> status_sensor (snd st) \<and>
       n_written (world (snd st)) = [build_preinit_reply True 1 TlsSupported_UNSUPPORTED 0] \<and>
       n_published (world (snd st)) = [PublishStatus ''idle'']"
  by code_simp

text \<open>The peer sends PREINIT again and is told that it is unexpected.\<close>

lemma one_peer_again:
  "case passes network_env [\<lambda>w. w] (component_setup network_env one_peer_component) of None \<Rightarrow> False
   | Some st \<Rightarrow> (case on_data ((fst st)\<lparr>outs := []\<rparr>) 0 (client_preinit 2 ''testcluster'') 7 of None \<Rightarrow> False
       | Some srv \<Rightarrow> CloseConnection 0 \<notin> set (outs srv) \<and> frames_to 0 (outs srv) = [build_server_error True 2 UNEXPECTED_MESSAGE])"
  by code_simp

lemma one_peer_component_configured: "one_peer_component = configured 5403 False False False True one_peer"
  by (simp add: one_peer_component_def configured_def set_status_sensor_def set_vote_granted_sensor_def set_decisions_sensor_def
      set_connected_sensor_def set_port_def QnetdComponent_def)

lemma one_peer_owns:
  obtains srv c where "passes network_env [\<lambda>w. w] (component_setup network_env one_peer_component) = Some (srv, c)" "\<not> failed c" "owns c 0 0"
proof -
  obtain srv c where c: "passes network_env [\<lambda>w. w] (component_setup network_env one_peer_component) = Some (srv, c)" "\<not> failed c"
    "used (conns c ! 0)" "map sock (conns c) = Some 0 # replicate 7 None"
    using one_peer_pass by (auto split: option.splits)
  have len: "length (conns c) = 8" using arg_cong [OF c(4), of length] by simp
  have "sock (conns c ! j) = (if j = 0 then Some 0 else None)" if "j < 8" for j
    using arg_cong [OF c(4), of "\<lambda>xs. xs ! j"] that len by (simp add: nth_Cons')
  with c show thesis using that [of srv c] by (simp add: owns_def live_def MAX_CLIENTS_def)
qed

lemma network_healthy: "healthy network_env k"
  by (auto simp: healthy_def network_env_def n_write_def split: if_splits)

subsection \<open>A network for the host program\<close>

text \<open>Signals that still interrupt \<open>send\<close>, the bytes each accepted descriptor will deliver, the
  bytes written per descriptor, the descriptors whose peer has reset the connection, and the
  port of the listening socket. The listening socket is the descriptor 3; peers get the
  descriptors from 4 on. A call of \<open>send\<close> takes at most 16 bytes.\<close>

record hostnet =
  h_signals :: nat
  h_waiting :: "bytes list"
  h_unread :: "bytes list"
  h_written :: "int \<Rightarrow> bytes"
  h_reset :: "int list"
  h_port :: "u16 option"

definition h_send :: "int \<Rightarrow> bytes \<Rightarrow> int \<Rightarrow> hostnet \<Rightarrow> (int \<times> errno \<times> hostnet) syscall" where
  "h_send fd bs flags w =
     (if fd \<in> set (h_reset w) then Raises_SIGPIPE
      else if h_signals w > 0 then Returns (-1, EINTR, w\<lparr>h_signals := h_signals w - 1\<rparr>)
      else Returns (int (min 16 (length bs)), EOTHER, w\<lparr>h_written := (h_written w)(fd := h_written w fd @ take 16 bs)\<rparr>))"

definition h_recv :: "int \<Rightarrow> nat \<Rightarrow> int \<Rightarrow> hostnet \<Rightarrow> ((errno + bytes) \<times> hostnet) syscall" where
  "h_recv fd n flags w =
     (if 4 \<le> fd \<and> nat (fd - 4) < length (h_unread w)
      then if h_unread w ! nat (fd - 4) = [] then Hangs
           else Returns (Inr (take n (h_unread w ! nat (fd - 4))),
             w\<lparr>h_unread := (h_unread w)[nat (fd - 4) := drop n (h_unread w ! nat (fd - 4))]\<rparr>)
      else Returns (Inl EOTHER, w))"

definition h_accept :: "int \<Rightarrow> hostnet \<Rightarrow> (int \<times> sockaddr \<times> hostnet) syscall" where
  "h_accept ls w =
     (case h_waiting w of
        [] \<Rightarrow> Hangs
      | bs # rest \<Rightarrow> Returns (
          if length (h_unread w) < 1000
          then (int (length (h_unread w)) + 4, AF_INET6 [],
                w\<lparr>h_waiting := rest, h_unread := h_unread w @ [bs]\<rparr>)
          else (-1, AF_UNSPEC, w)))"

text \<open>The listening socket is ready while peers wait, a peer while it has something to read.\<close>

definition h_ready :: "hostnet \<Rightarrow> int \<Rightarrow> bool" where
  "h_ready w fd \<longleftrightarrow> (if fd = 3 then h_waiting w \<noteq> []
     else 4 \<le> fd \<and> nat (fd - 4) < length (h_unread w) \<and> h_unread w ! nat (fd - 4) \<noteq> [])"

definition h_bind :: "int \<Rightarrow> u16 \<Rightarrow> hostnet \<Rightarrow> int \<times> hostnet" where
  "h_bind fd pt w = (if fd = 3 then (0, w\<lparr>h_port := Some pt\<rparr>) else (-1, w))"

definition hostnet_env :: "hostnet posix" where
  "hostnet_env =
     \<lparr>p_socket = (\<lambda>w. (3, w)), p_setsockopt = (\<lambda>fd opt w. w),
      p_bind = h_bind, p_listen = (\<lambda>fd n w. (0, w)),
      p_select = (\<lambda>n rfds w. (int (length (filter (h_ready w) rfds)), EOTHER, filter (h_ready w) rfds, w)),
      p_accept = h_accept, p_inet_ntop = (\<lambda>a. ''::1''), p_send = h_send, p_recv = h_recv, p_close = (\<lambda>fd w. w),
      p_clock_gettime = (\<lambda>w. ((7, 500000000), w))\<rparr>"

lemma hostnet_posix_ok: "posix_ok hostnet_env h_signals"
  by (auto simp: posix_ok_def hostnet_env_def h_send_def h_recv_def h_accept_def h_bind_def FD_SETSIZE_def split: list.split if_splits)

lemma hostnet_sends: "sends hostnet_env (\<lambda>fd w. h_written w fd)"
  by (auto simp: sends_def hostnet_env_def h_send_def min_def split: if_splits)

lemma hostnet_binds: "binds hostnet_env (\<lambda>fd w. if fd = 3 then h_port w else None)"
  by (auto simp: binds_def hostnet_env_def h_bind_def split: if_splits)

text \<open>The same network when no peer resets its connection.\<close>

definition faithful_env :: "hostnet posix" where
  "faithful_env = hostnet_env\<lparr>p_send := (\<lambda>fd bs flags w. h_send fd bs flags (w\<lparr>h_reset := []\<rparr>))\<rparr>"

lemma faithful_posix_ok: "posix_ok faithful_env h_signals"
  using hostnet_posix_ok by (auto simp: posix_ok_def faithful_env_def hostnet_env_def h_send_def split: if_splits)

lemma faithful_sends: "sends faithful_env (\<lambda>fd w. h_written w fd)"
  by (auto simp: sends_def faithful_env_def h_send_def min_def split: if_splits)

lemma faithful_willing: "willing faithful_env fd"
  unfolding willing_def
proof (intro allI impI)
  fix bs :: bytes and w assume "bs \<noteq> []"
  then show "\<exists>n e w'. p_send faithful_env fd bs 0 w = Returns (n, e, w') \<and> (n > 0 \<or> e = EINTR)"
    by (cases bs) (auto simp: faithful_env_def h_send_def)
qed

definition one_caller :: hostnet where
  "one_caller = \<lparr>h_signals = 2, h_waiting = [client_preinit 1 ''testcluster''], h_unread = [], h_written = (\<lambda>fd. []),
     h_reset = [], h_port = None\<rparr>"

lemma one_caller_rounds:
  "case main_setup hostnet_env [''qnetd_lite'', ''5404''] one_caller of
     Some (Inr (ls, st)) \<Rightarrow> ls = 3 \<and>
       (case main_rounds hostnet_env ls 2 st of
          Some (Inr st') \<Rightarrow> phase (sessions (fst st') ! 0) = WAIT_INIT \<and> fds (snd st') ! 0 = 4 \<and>
            h_written (outside (snd st')) 4 = build_preinit_reply True 1 TlsSupported_UNSUPPORTED 0
        | _ \<Rightarrow> False)
   | _ \<Rightarrow> False"
  by code_simp

lemma one_caller_runs:
  obtains st srv t where "main_setup hostnet_env [''qnetd_lite'', ''5404''] one_caller = Some (Inr (3, st))"
    "main_rounds hostnet_env 3 2 st = Some (Inr (srv, t))"
proof -
  obtain ls st where st: "main_setup hostnet_env [''qnetd_lite'', ''5404''] one_caller = Some (Inr (ls, st))"
    using one_caller_rounds by (cases "main_setup hostnet_env [''qnetd_lite'', ''5404''] one_caller") (auto split: sum.splits)
  moreover have "ls = 3" using one_caller_rounds unfolding st by simp
  moreover obtain r where "main_rounds hostnet_env ls 2 st = Some r"
    using one_caller_rounds unfolding st by (cases "main_rounds hostnet_env ls 2 st") simp_all
  moreover obtain srv t where "r = Inr (srv, t)"
    using one_caller_rounds calculation(3) unfolding st by (cases r) auto
  ultimately show thesis using that by simp
qed

text \<open>A peer that sends a request and resets its connection at once ends the program: the answer
  raises SIGPIPE. The comment in the send loop expects that the read path detects it.\<close>

lemma reset_peer_ends_host:
  "case main_setup hostnet_env [''qnetd_lite''] (one_caller\<lparr>h_reset := [4]\<rparr>) of
     Some (Inr (ls, st)) \<Rightarrow> (case main_rounds hostnet_env ls 2 st of Some (Inl how) \<Rightarrow> how = Killed_by_SIGPIPE | _ \<Rightarrow> False)
   | _ \<Rightarrow> False"
  by code_simp

end
