(* ===== verification/Rejections.thy ===== *)
theory Rejections
  imports Server_Runs
begin

text \<open>
  What becomes of a peer whose bytes are not a message: a header that announces more than
  the server accepts, or a payload the decoder rejects. The peer is sent one error message
  and its connection is closed.
\<close>

text \<open>The connection in slot \<open>i\<close> was sent the error \<open>code\<close>, then closed, and its slot is free.\<close>

definition rejected :: "nat \<Rightarrow> reply_error_code \<Rightarrow> server \<Rightarrow> server \<Rightarrow> bool" where
  "rejected i code srv srv' \<longleftrightarrow> sessions srv' ! i = Session \<and>
     (\<exists>new. outs srv' = outs srv @ SendFrame i (build_server_error False 0 code) # new \<and> CloseConnection i \<in> set new)"

text \<open>The server with the received bytes in the buffer, when the loop starts.\<close>

definition received :: "server \<Rightarrow> nat \<Rightarrow> bytes \<Rightarrow> u64 \<Rightarrow> server" where
  "received srv i data now =
     (set_session srv i (reschedule_dpd ((sessions srv ! i)\<lparr>rx := rx (sessions srv ! i) @ data\<rparr>) now))\<lparr>processing := True\<rparr>"

definition condemned :: "server \<Rightarrow> nat \<Rightarrow> reply_error_code \<Rightarrow> server" where
  "condemned srv i code =
     (set_session (send_err srv i MsgDecoded code) i ((sessions srv ! i)\<lparr>schedule_disconnect := True\<rparr>))
       \<lparr>pending_close := pending_close srv @ [i]\<rparr>"

lemma received_quiet:
  assumes "total.quiet srv" "i < MAX_CLIENTS" "phase (sessions srv ! i) \<noteq> FREE"
  shows "server_ok (received srv i data now)" "pending_ok (received srv i data now)" "processing (received srv i data now)"
    "phase (sessions (received srv i data now) ! i) \<noteq> FREE" "\<not> schedule_disconnect (sessions (received srv i data now) ! i)"
    "rx (sessions (received srv i data now) ! i) = rx (sessions srv ! i) @ data" "outs (received srv i data now) = outs srv"
    "pending_close (received srv i data now) = []" "max_rx_frame (received srv i data now) = max_rx_frame srv"
proof -
  have ok: "server_ok srv" "pending_ok srv" "pending_close srv = []" using assms(1) by (simp_all add: total.quiet_def idle_def)
  show "server_ok (received srv i data now)"
    using server_ok_reset_rx [OF ok(1) assms(2,3) reset_rxI(2)] by (simp add: received_def)
  show "pending_ok (received srv i data now)" using ok by (auto simp: pending_ok_def received_def nth_update)
  show "\<not> schedule_disconnect (sessions (received srv i data now) ! i)"
    using ok assms(2) by (simp add: received_def pending_ok_def)
qed (use assms in \<open>simp_all add: received_def total.quiet_def idle_def\<close>)

lemma condemned_ok:
  assumes "server_ok srv" "pending_ok srv" "i < MAX_CLIENTS" "phase (sessions srv ! i) \<noteq> FREE" "\<not> schedule_disconnect (sessions srv ! i)"
  shows "server_ok (condemned srv i code)" "pending_ok (condemned srv i code)"
    "outs (condemned srv i code) = outs srv @ [SendFrame i (build_server_error False 0 code)]"
    "processing srv \<Longrightarrow> disconnect_client (send_err srv i MsgDecoded code) i = Some (condemned srv i code)"
proof -
  show "server_ok (condemned srv i code)"
    using server_ok_schedule [OF assms(1,3,4)] server_ok_cong [of "condemned srv i code" "set_session srv i _"]
    by (simp add: condemned_def send_err_def)
  show "pending_ok (condemned srv i code)"
    using total.schedule_pending [OF assms(1-3,5)] by (simp add: pending_ok_def condemned_def send_err_def)
  show "outs (condemned srv i code) = outs srv @ [SendFrame i (build_server_error False 0 code)]"
    by (simp add: condemned_def send_err_def MsgDecoded_def)
  show "disconnect_client (send_err srv i MsgDecoded code) i = Some (condemned srv i code)" if "processing srv"
    using assms that by (simp add: disconnect_client_def Let_def session_at_def send_err_def condemned_def)
qed

lemma drain_rejects:
  assumes "server_ok srv1" "pending_ok srv1" "pending_close srv1 = [i]"
    "outs srv1 = outs srv @ [SendFrame i (build_server_error False 0 code)]"
  shows "\<exists>srv'. drain_closes (srv1\<lparr>processing := False\<rparr>) = Some srv' \<and> rejected i code srv srv'"
proof -
  have i: "i < MAX_CLIENTS" using assms(2,3) by (simp add: pending_ok_def)
  have "server_ok (srv1\<lparr>processing := False\<rparr>)" "pending_ok (srv1\<lparr>processing := False\<rparr>)"
    using assms(1,2) by (simp_all add: pending_ok_def)
  from total.drain_closes_inv [OF this] assms(3) obtain srv' where d: "drain_closes (srv1\<lparr>processing := False\<rparr>) = Some srv'" "total.quiet srv'"
    and c: "closes {i} (srv1\<lparr>processing := False\<rparr>) srv'" and e: "emits {i} (srv1\<lparr>processing := False\<rparr>) srv'" by auto
  have "phase (sessions srv' ! i) = FREE" using closes_phase [OF c i] by simp
  then have "sessions srv' ! i = Session"
    using d(2) server_ok_session [of srv' i] i by (auto simp: total.quiet_def session_ok_def)
  with d(1) e assms(4) show ?thesis by (auto simp: rejected_def emits_def)
qed

lemma on_data_rejects:
  assumes q: "total.quiet srv" and i: "i < MAX_CLIENTS" "phase (sessions srv ! i) \<noteq> FREE"
    and l: "on_data_loop i now (received srv i data now) = Some srv1" "server_ok srv1" "pending_ok srv1" "pending_close srv1 = [i]"
      "outs srv1 = outs srv @ [SendFrame i (build_server_error False 0 code)]"
  shows "\<exists>srv'. on_data srv (int i) data now = Some srv' \<and> rejected i code srv srv'"
proof -
  obtain srv' where "drain_closes (srv1\<lparr>processing := False\<rparr>) = Some srv'" "rejected i code srv srv'"
    using drain_rejects [OF l(2-5)] by blast
  moreover have "server_ok srv" "\<not> schedule_disconnect (sessions srv ! i)"
    using q i(1) by (auto simp: total.quiet_def idle_def pending_ok_def)
  ultimately show ?thesis using l(1) i by (simp add: on_data_def Let_def received_def)
qed

text \<open>A header that announces a payload above the limit.\<close>

lemma oversized_rejected:
  assumes q: "total.quiet srv" and i: "i < MAX_CLIENTS" "phase (sessions srv ! i) \<noteq> FREE"
    and h: "be_get16 (rx (sessions srv ! i) @ data) 0 = Some t" "be_get32 (rx (sessions srv ! i) @ data) 2 = Some p" "p > max_rx_frame srv"
    and len: "MSG_HEADER_LEN \<le> length (rx (sessions srv ! i) @ data)"
  shows "\<exists>srv'. on_data srv (int i) data now = Some srv' \<and> rejected i MESSAGE_TOO_LONG srv srv'"
proof -
  let ?r = "received srv i data now"
  note r = received_quiet [OF q i, where data = data and now = now]
  note c = condemned_ok [OF r(1,2) i(1) r(4,5), where code = MESSAGE_TOO_LONG]
  have "on_data_step ?r i now = Some (Inl (condemned ?r i MESSAGE_TOO_LONG))"
    using h len c(4) [OF r(3)] r i by (simp add: on_data_step_def not_less)
  then have "on_data_loop i now ?r = Some (condemned ?r i MESSAGE_TOO_LONG)" by (subst on_data_loop.simps) simp
  from on_data_rejects [OF q i this c(1,2)] c(3) r(7,8) show ?thesis by (simp add: condemned_def)
qed

text \<open>A complete frame whose payload the decoder rejects.\<close>

lemma undecodable_rejected:
  assumes q: "total.quiet srv" and i: "i < MAX_CLIENTS" "phase (sessions srv ! i) \<noteq> FREE"
    and h: "be_get16 (rx (sessions srv ! i) @ data) 0 = Some t" "be_get32 (rx (sessions srv ! i) @ data) 2 = Some p" "\<not> p > max_rx_frame srv"
    and len: "MSG_HEADER_LEN + unat p \<le> length (rx (sessions srv ! i) @ data)"
    and bad: "msg_decode (MsgType_of t) (take (unat p) (drop MSG_HEADER_LEN (rx (sessions srv ! i) @ data))) = Some None"
  shows "\<exists>srv'. on_data srv (int i) data now = Some srv' \<and> rejected i ERROR_DECODING_MSG srv srv'"
proof -
  let ?r = "received srv i data now"
  let ?buf = "rx (sessions srv ! i) @ data"
  let ?c = "condemned ?r i ERROR_DECODING_MSG"
  note r = received_quiet [OF q i, where data = data and now = now]
  note c = condemned_ok [OF r(1,2) i(1) r(4,5), where code = ERROR_DECODING_MSG]
  let ?s = "(sessions ?c ! i)\<lparr>rx := drop (MSG_HEADER_LEN + unat p) ?buf\<rparr>"
  have s: "sessions ?c ! i = (sessions ?r ! i)\<lparr>schedule_disconnect := True\<rparr>" using r(1) i(1) by (simp add: condemned_def send_err_def)
  have hf: "handle_frame ?r i (MsgType_of t) (take (MSG_HEADER_LEN + unat p) ?buf) (take (unat p) (drop MSG_HEADER_LEN ?buf)) now = Some ?c"
    using bad c(4) [OF r(3)] r i by (simp add: handle_frame_def)
  have step: "on_data_step ?r i now = Some (Inr (set_session ?c i ?s))"
    using h len hf c(1) r i s by (simp add: on_data_step_def)
  have "session_at (set_session ?c i ?s) i = Some ?s" using c(1) i(1) by simp
  then have stop: "on_data_step (set_session ?c i ?s) i now = Some (Inl (set_session ?c i ?s))"
    using s by (simp add: on_data_step_def)
  have "on_data_loop i now (set_session ?c i ?s) = Some (set_session ?c i ?s)"
    unfolding on_data_loop.simps [of i now "set_session ?c i ?s"] stop by simp
  then have loop: "on_data_loop i now ?r = Some (set_session ?c i ?s)"
    unfolding on_data_loop.simps [of i now ?r] step by simp
  have "server_ok (set_session ?c i ?s)"
    using server_ok_reset_rx [OF c(1) i(1) _ reset_rxI(1)] s r(4) by simp
  moreover have "pending_ok (set_session ?c i ?s)" using c(1,2) i(1) by (auto simp: pending_ok_def nth_update)
  ultimately show ?thesis using on_data_rejects [OF q i loop] c(3) r(7,8) by (simp add: condemned_def)
qed

end
