(* ===== verification/Fragmentation.thy ===== *)
theory Fragmentation
  imports Rejections
begin

text \<open>
  How the bytes of a peer are cut into calls of \<open>on_data\<close> does not matter. A server with more
  bytes at the end of one receive buffer handles a frame as the server without them does;
  so the loop of \<open>on_data\<close> on the first part of the bytes, followed by the loop on the rest,
  is the loop on all of them. What differs is only how often the callback is called.
\<close>

subsection \<open>Servers with more received bytes\<close>

definition with_rx :: "nat \<Rightarrow> bytes \<Rightarrow> nat \<Rightarrow> session \<Rightarrow> session" where
  "with_rx k b i s = (if i = k then s\<lparr>rx := rx s @ b\<rparr> else s)"

text \<open>The server without a callback.\<close>

definition mute :: "server \<Rightarrow> server" where
  "mute srv = srv\<lparr>on_state_change := False, outs := filter (\<lambda>e. e \<noteq> StateChange) (outs srv)\<rparr>"

text \<open>The muted server with the bytes \<open>b\<close> at the end of the receive buffer of slot \<open>k\<close>.\<close>

definition grow :: "nat \<Rightarrow> bytes \<Rightarrow> server \<Rightarrow> server" where
  "grow k b srv = mute (set_session srv k (with_rx k b k (sessions srv ! k)))"

lemma with_rx_sel [simp]:
  "phase (with_rx k b i s) = phase s" "peer (with_rx k b i s) = peer s" "cluster_name (with_rx k b i s) = cluster_name s"
  "cluster (with_rx k b i s) = cluster s" "node_id (with_rx k b i s) = node_id s" "last_ring_id (with_rx k b i s) = last_ring_id s"
  "heartbeat_ms (with_rx k b i s) = heartbeat_ms s" "tie_breaker (with_rx k b i s) = tie_breaker s"
  "algorithm (with_rx k b i s) = algorithm s" "keep_active_partition_tb (with_rx k b i s) = keep_active_partition_tb s"
  "config_list (with_rx k b i s) = config_list s" "membership_list (with_rx k b i s) = membership_list s"
  "quorum_list (with_rx k b i s) = quorum_list s" "last_heuristics (with_rx k b i s) = last_heuristics s"
  "last_sent_vote (with_rx k b i s) = last_sent_vote s" "last_ack_nack (with_rx k b i s) = last_ack_nack s"
  "ff_state (with_rx k b i s) = ff_state s" "vote_info_seq (with_rx k b i s) = vote_info_seq s"
  "deadline_ms (with_rx k b i s) = deadline_ms s" "schedule_disconnect (with_rx k b i s) = schedule_disconnect s"
  by (simp_all add: with_rx_def)

lemma with_rx_upd [simp]:
  "(with_rx k b i s)\<lparr>phase := a\<rparr> = with_rx k b i (s\<lparr>phase := a\<rparr>)"
  "(with_rx k b i s)\<lparr>cluster_name := n\<rparr> = with_rx k b i (s\<lparr>cluster_name := n\<rparr>)"
  "(with_rx k b i s)\<lparr>cluster := c\<rparr> = with_rx k b i (s\<lparr>cluster := c\<rparr>)"
  "(with_rx k b i s)\<lparr>node_id := d\<rparr> = with_rx k b i (s\<lparr>node_id := d\<rparr>)"
  "(with_rx k b i s)\<lparr>last_ring_id := r\<rparr> = with_rx k b i (s\<lparr>last_ring_id := r\<rparr>)"
  "(with_rx k b i s)\<lparr>heartbeat_ms := h\<rparr> = with_rx k b i (s\<lparr>heartbeat_ms := h\<rparr>)"
  "(with_rx k b i s)\<lparr>tie_breaker := t\<rparr> = with_rx k b i (s\<lparr>tie_breaker := t\<rparr>)"
  "(with_rx k b i s)\<lparr>algorithm := g\<rparr> = with_rx k b i (s\<lparr>algorithm := g\<rparr>)"
  "(with_rx k b i s)\<lparr>keep_active_partition_tb := x\<rparr> = with_rx k b i (s\<lparr>keep_active_partition_tb := x\<rparr>)"
  "(with_rx k b i s)\<lparr>config_list := l\<rparr> = with_rx k b i (s\<lparr>config_list := l\<rparr>)"
  "(with_rx k b i s)\<lparr>config_version_set := x\<rparr> = with_rx k b i (s\<lparr>config_version_set := x\<rparr>)"
  "(with_rx k b i s)\<lparr>config_version := v\<rparr> = with_rx k b i (s\<lparr>config_version := v\<rparr>)"
  "(with_rx k b i s)\<lparr>membership_list := l\<rparr> = with_rx k b i (s\<lparr>membership_list := l\<rparr>)"
  "(with_rx k b i s)\<lparr>quorum_list := l\<rparr> = with_rx k b i (s\<lparr>quorum_list := l\<rparr>)"
  "(with_rx k b i s)\<lparr>last_heuristics := y\<rparr> = with_rx k b i (s\<lparr>last_heuristics := y\<rparr>)"
  "(with_rx k b i s)\<lparr>last_sent_vote := u\<rparr> = with_rx k b i (s\<lparr>last_sent_vote := u\<rparr>)"
  "(with_rx k b i s)\<lparr>last_ack_nack := u\<rparr> = with_rx k b i (s\<lparr>last_ack_nack := u\<rparr>)"
  "(with_rx k b i s)\<lparr>ff_state := f\<rparr> = with_rx k b i (s\<lparr>ff_state := f\<rparr>)"
  "(with_rx k b i s)\<lparr>vote_info_seq := q\<rparr> = with_rx k b i (s\<lparr>vote_info_seq := q\<rparr>)"
  "(with_rx k b i s)\<lparr>deadline_ms := z\<rparr> = with_rx k b i (s\<lparr>deadline_ms := z\<rparr>)"
  "(with_rx k b i s)\<lparr>schedule_disconnect := x\<rparr> = with_rx k b i (s\<lparr>schedule_disconnect := x\<rparr>)"
  by (simp_all add: with_rx_def)

lemma reschedule_with_rx [simp]: "reschedule_dpd (with_rx k b i s) now = with_rx k b i (reschedule_dpd s now)"
  by (simp add: reschedule_dpd_def)

lemma mute_sel [simp]:
  "sessions (mute srv) = sessions srv" "clusters (mute srv) = clusters srv" "pending_close (mute srv) = pending_close srv"
  "processing (mute srv) = processing srv" "decisions (mute srv) = decisions srv" "max_rx_frame (mute srv) = max_rx_frame srv"
  "\<not> on_state_change (mute srv)" "outs (mute srv) = filter (\<lambda>e. e \<noteq> StateChange) (outs srv)"
  by (simp_all add: mute_def)

lemma grow_sel [simp]:
  "clusters (grow k b srv) = clusters srv" "pending_close (grow k b srv) = pending_close srv"
  "processing (grow k b srv) = processing srv" "decisions (grow k b srv) = decisions srv" "max_rx_frame (grow k b srv) = max_rx_frame srv"
  "length (sessions (grow k b srv)) = length (sessions srv)" "\<not> on_state_change (grow k b srv)"
  by (simp_all add: grow_def)

text \<open>A slot in range is a session of every server in question.\<close>

abbreviation has :: "nat \<Rightarrow> server \<Rightarrow> bool" where
  "has k srv \<equiv> k < length (sessions srv)"

lemma grow_nth [simp]: "has k srv \<Longrightarrow> sessions (grow k b srv) ! i = with_rx k b i (sessions srv ! i)"
  by (cases "i = k") (simp_all add: grow_def with_rx_def)

lemma grow_at [simp]: "has k srv \<Longrightarrow> session_at (grow k b srv) i = map_option (with_rx k b i) (session_at srv i)"
  by (simp add: session_at_def at_ub_def)

lemma grow_cluster_at [simp]: "cluster_at (grow k b srv) c = cluster_at srv c"
  by (simp add: cluster_at_def)

lemma grow_set_session [simp]: "has k srv \<Longrightarrow> set_session (grow k b srv) i (with_rx k b i s) = grow k b (set_session srv i s)"
  by (cases "i = k") (simp_all add: grow_def mute_def set_session_def list_update_swap with_rx_def)

lemma grow_plumbing [simp]:
  "set_cluster (grow k b srv) c cl = grow k b (set_cluster srv c cl)"
  "send_frame (grow k b srv) i f = grow k b (send_frame srv i f)"
  "send_err (grow k b srv) i m e = grow k b (send_err srv i m e)"
  "close_connection (grow k b srv) i = grow k b (close_connection srv i)"
  "notify (grow k b srv) = grow k b srv" "grow k b (notify srv) = grow k b srv"
  "(grow k b srv)\<lparr>decisions := d\<rparr> = grow k b (srv\<lparr>decisions := d\<rparr>)"
  "(grow k b srv)\<lparr>processing := p\<rparr> = grow k b (srv\<lparr>processing := p\<rparr>)"
  "(grow k b srv)\<lparr>pending_close := ps\<rparr> = grow k b (srv\<lparr>pending_close := ps\<rparr>)"
  by (simp_all add: grow_def mute_def set_session_def set_cluster_def send_frame_def send_err_def close_connection_def notify_def)

lemma with_rx_Nil [simp]: "with_rx k [] i s = s"
  by (simp add: with_rx_def)

lemma grow_Nil: "grow k [] = mute"
  by (intro ext) (simp add: grow_def set_session_def)

subsection \<open>The decision\<close>

lemma grow_view [simp]:
  assumes "has k srv"
  shows "skip_in_cluster_walk (grow k b srv) s tv = skip_in_cluster_walk srv s tv" "skip_in_cluster_walk srv (with_rx k b i s) tv = skip_in_cluster_walk srv s tv"
    "eff_config (grow k b srv) = eff_config srv" "eff_membership (grow k b srv) = eff_membership srv"
    "eff_ring (grow k b srv) = eff_ring srv" "eff_heuristics (grow k b srv) = eff_heuristics srv"
    "in_walk (grow k b srv) = in_walk srv"
  by (use assms in \<open>simp_all add: skip_in_cluster_walk_def eff_config_def eff_membership_def eff_ring_def eff_heuristics_def
        in_walk_def active_in_def fun_eq_iff\<close>)

lemma grow_select [simp]:
  assumes "has k srv"
  shows "ffsplit_is_stable (grow k b srv) = ffsplit_is_stable srv" "ffsplit_select_partition (grow k b srv) = ffsplit_select_partition srv"
proof -
  show "ffsplit_is_stable (grow k b srv) = ffsplit_is_stable srv"
    by (intro ext) (simp only: ffsplit_is_stable_def grow_view [OF assms] grow_nth [OF assms] with_rx_sel)
  have "ffsplit_partition_stats (grow k b srv) = ffsplit_partition_stats srv"
    and "ffsplit_is_preferred_partition (grow k b srv) = ffsplit_is_preferred_partition srv"
    by (intro ext; simp only: ffsplit_partition_stats_def ffsplit_is_preferred_partition_def grow_nth [OF assms] with_rx_sel active_in_def)+
  then have "ffsplit_partition_better (grow k b srv) = ffsplit_partition_better srv"
    by (intro ext) (simp only: ffsplit_partition_better_def grow_nth [OF assms] with_rx_sel)
  then have "ffsplit_select_step (grow k b srv) = ffsplit_select_step srv"
    by (intro ext) (simp only: ffsplit_select_step_def grow_view [OF assms])
  moreover have "ffsplit_keep_active_tb (grow k b srv) = ffsplit_keep_active_tb srv"
    by (intro ext) (simp only: ffsplit_keep_active_tb_def grow_nth [OF assms] with_rx_sel active_in_def)
  ultimately show "ffsplit_select_partition (grow k b srv) = ffsplit_select_partition srv"
    by (intro ext) (simp only: ffsplit_select_partition_def grow_nth [OF assms] with_rx_sel grow_cluster_at)
qed

lemma grow_map:
  assumes "has k srv" and "\<And>s. f (with_rx k b k s) = with_rx k b k (f s)"
  shows "(grow k b srv)\<lparr>sessions := map f (sessions (grow k b srv))\<rparr> = grow k b (srv\<lparr>sessions := map f (sessions srv)\<rparr>)"
  using assms by (simp add: grow_def mute_def set_session_def map_update)

lemma grow_update_states:
  assumes "has k srv"
  shows "ffsplit_update_states (grow k b srv) tv w = grow k b (ffsplit_update_states srv tv w)"
  unfolding ffsplit_update_states_def Let_def grow_view [OF assms] grow_nth [OF assms] with_rx_sel
  by (rule grow_map [OF assms]) (use assms in \<open>cases w; simp add: active_in_def\<close>)

lemma grow_send_vote:
  assumes "has k srv"
  shows "ffsplit_send_vote tv va c i (grow k b srv, n) = apfst (grow k b) (ffsplit_send_vote tv va c i (srv, n))"
    "has k (fst (ffsplit_send_vote tv va c i (srv, n)))"
  using assms by (simp_all add: ffsplit_send_vote_def Let_def)

lemma grow_send_votes_fold:
  "has k srv \<Longrightarrow> fold (ffsplit_send_vote tv va c) is (grow k b srv, n) = apfst (grow k b) (fold (ffsplit_send_vote tv va c) is (srv, n)) \<and>
     has k (fst (fold (ffsplit_send_vote tv va c) is (srv, n)))"
proof (induction "is" arbitrary: srv n)
  case (Cons i "is")
  obtain srv1 n1 where "ffsplit_send_vote tv va c i (srv, n) = (srv1, n1)" by fastforce
  with Cons.IH [of srv1 n1] grow_send_vote [OF Cons.prems, where tv = tv and va = va and c = c and i = i and n = n] show ?case by simp
qed simp

lemma grow_send_votes:
  assumes "has k srv"
  shows "ffsplit_send_votes (grow k b srv) tv va = apfst (grow k b) (ffsplit_send_votes srv tv va)" "has k (fst (ffsplit_send_votes srv tv va))"
  using grow_send_votes_fold [OF assms] assms by (simp_all add: ffsplit_send_votes_def)

lemma has_update_states [simp]: "has k (ffsplit_update_states srv tv w) = has k srv"
  by (simp add: ffsplit_update_states_def Let_def)

lemma grow_do:
  assumes "has k srv"
  shows "ffsplit_do (grow k b srv) tv = map_option (apfst (grow k b)) (ffsplit_do srv tv) \<and>
    (\<forall>srv1 r. ffsplit_do srv tv = Some (srv1, r) \<longrightarrow> has k srv1)"
proof (cases "session_at srv (tv_slot tv)")
  case None
  then show ?thesis using assms by (simp add: ffsplit_do_def)
next
  case s: (Some s)
  show ?thesis
  proof (cases "cluster_at srv (cluster s)")
    case None
    with s show ?thesis using assms by (simp add: ffsplit_do_def)
  next
    case (Some cl)
    let ?srv = "set_cluster srv (cluster s) (cl\<lparr>cl_state := WAITING_FOR_STABLE_MEMBERSHIP\<rparr>)"
    show ?thesis
    proof (cases "ffsplit_select_partition ?srv tv")
      case None
      with s Some show ?thesis using assms by (auto simp: ffsplit_do_def Let_def)
    next
      case (Some w)
      with s \<open>cluster_at srv (cluster s) = Some cl\<close> show ?thesis using assms
        by (simp add: ffsplit_do_def Let_def grow_update_states grow_send_votes case_prod_unfold)
    qed
  qed
qed

lemmas grow_do_eq = grow_do [THEN conjunct1]

lemma grow_do_has: "ffsplit_do srv tv = Some (srv1, r) \<Longrightarrow> has k srv \<Longrightarrow> has k srv1"
  using grow_do [of k srv] by blast

lemma session_at_set_cluster [simp]: "session_at (set_cluster srv c cl) i = session_at srv i"
  by (simp add: session_at_def)

lemma grow_leave:
  assumes "has k srv"
  shows "leave_cluster (grow k b srv) i = map_option (grow k b) (leave_cluster srv i)"
proof (cases "session_at srv i")
  case s: (Some s)
  let ?tv = "\<lparr>tv_slot = i, tv_leaving = True, tv_ring_id = last_ring_id s, tv_config = config_list s,
     tv_membership = membership_list s, tv_heuristics = last_heuristics s\<rparr>"
  show ?thesis
  proof (cases "ffsplit_do srv ?tv")
    case None
    with s show ?thesis using assms by (simp add: leave_cluster_def grow_do_eq)
  next
    case (Some r)
    with grow_do_has [of srv ?tv "fst r" "snd r", OF _ assms] have h: "has k (fst r)" by simp
    then show ?thesis using s Some assms
      by (cases "cluster_at (fst r) (cluster s)"; cases "session_at (fst r) i")
        (simp_all add: leave_cluster_def grow_do_eq Let_def case_prod_unfold)
  qed
qed (use assms in \<open>simp add: leave_cluster_def\<close>)

subsection \<open>The handlers\<close>

lemma grow_preinit: "has k srv \<Longrightarrow> handle_preinit (grow k b srv) i m = map_option (grow k b) (handle_preinit srv i m)"
  by (cases "session_at srv i") (simp_all add: handle_preinit_def)

lemma grow_init_checks:
  assumes "has k srv"
  shows "init_checks (grow k b srv) i m (with_rx k b i s) = apsnd (with_rx k b i) (init_checks srv i m s)"
proof -
  have fields: "init_node_id m (x, with_rx k b i s) = apsnd (with_rx k b i) (init_node_id m (x, s))"
    "init_ring_id m (x, with_rx k b i s) = apsnd (with_rx k b i) (init_ring_id m (x, s))"
    "init_heartbeat m (x, with_rx k b i s) = apsnd (with_rx k b i) (init_heartbeat m (x, s))"
    "init_tie_breaker m (x, with_rx k b i s) = apsnd (with_rx k b i) (init_tie_breaker m (x, s))"
    "init_algorithm m (x, with_rx k b i s) = apsnd (with_rx k b i) (init_algorithm m (x, s))" for x s
    by (simp_all add: init_node_id_def init_ring_id_def init_heartbeat_def init_tie_breaker_def init_algorithm_def)
  then have compose: "init_node_id m (apsnd (with_rx k b i) y) = apsnd (with_rx k b i) (init_node_id m y)"
    "init_ring_id m (apsnd (with_rx k b i) y) = apsnd (with_rx k b i) (init_ring_id m y)"
    "init_heartbeat m (apsnd (with_rx k b i) y) = apsnd (with_rx k b i) (init_heartbeat m y)"
    "init_tie_breaker m (apsnd (with_rx k b i) y) = apsnd (with_rx k b i) (init_tie_breaker m y)"
    "init_algorithm m (apsnd (with_rx k b i) y) = apsnd (with_rx k b i) (init_algorithm m y)" for y
    by (cases y; simp)+
  have peer: "init_check_peer (with_rx k b i s) (with_rx k b j t) = init_check_peer s t" for j s t by (simp add: init_check_peer_def)
  have check: "init_check_new_client (grow k b srv) i (apsnd (with_rx k b i) y) = apsnd (with_rx k b i) (init_check_new_client srv i y)" for y
    using assms by (cases y) (simp add: init_check_new_client_def peer split: option.split)
  show ?thesis using fields(1) by (simp add: init_checks_def Let_def compose check)
qed

lemma grow_find_or_create: "find_or_create_cluster (grow k b srv) n = apfst (grow k b) (find_or_create_cluster srv n)"
  by (simp add: find_or_create_cluster_def split: option.split)

lemma grow_join:
  assumes "has k srv"
  shows "init_join (grow k b srv) i (with_rx k b i s) now = map_option (apsnd (grow k b)) (init_join srv i s now)"
proof -
  obtain srv1 c where f: "find_or_create_cluster srv (cluster_name s) = (srv1, c)" by fastforce
  then have "has k srv1" using find_or_create_sessions assms by metis
  with f show ?thesis by (cases "cluster_at srv1 c") (simp_all add: init_join_def grow_find_or_create Let_def)
qed

lemma grow_init:
  assumes "has k srv"
  shows "handle_init (grow k b srv) i m now = map_option (grow k b) (handle_init srv i m now)"
proof (cases "session_at srv i")
  case (Some s)
  obtain code s1 where c: "init_checks srv i m s = (code, s1)" by fastforce
  show ?thesis
  proof (cases "init_join srv i s1 now")
    case None
    with Some c assms show ?thesis by (simp add: handle_init_def grow_init_checks grow_join)
  next
    case j: (Some r)
    with Some c assms show ?thesis by (cases r) (simp add: handle_init_def grow_init_checks grow_join)
  qed
qed (use assms in \<open>simp add: handle_init_def\<close>)

lemma grow_set_option: "has k srv \<Longrightarrow> handle_set_option (grow k b srv) i m now = map_option (grow k b) (handle_set_option srv i m now)"
  by (cases "session_at srv i") (simp_all add: handle_set_option_def Let_def)

lemma grow_node_list_decide:
  assumes "has k srv"
  shows "node_list_decide (grow k b srv) i m (with_rx k b i s) = map_option (map_sum id (apfst (grow k b))) (node_list_decide srv i m s)"
  using assms by (cases "m_node_list_type m") (simp_all add: node_list_decide_def grow_do_eq option.map_comp comp_def)

lemma with_rx_store [simp]: "node_list_store m (with_rx k b i s) = with_rx k b i (node_list_store m s)"
  by (simp add: node_list_store_def split: node_list_type.split)

lemma with_rx_record_vote [simp]: "record_vote v (with_rx k b i s) = with_rx k b i (record_vote v s)"
  by (simp add: record_vote_def Let_def)

lemma node_list_decide_has: "node_list_decide srv i m s = Some (Inr (srv1, r)) \<Longrightarrow> has k srv \<Longrightarrow> has k srv1"
  by (auto simp: node_list_decide_def grow_do_has split: node_list_type.splits if_splits)

lemma grow_node_list:
  assumes "has k srv"
  shows "handle_node_list (grow k b srv) i m = map_option (grow k b) (handle_node_list srv i m)"
proof (cases "session_at srv i")
  case s: (Some s)
  show ?thesis
  proof (cases "node_list_decide srv i m s")
    case None
    with s assms show ?thesis by (simp add: handle_node_list_def grow_node_list_decide)
  next
    case (Some res)
    show ?thesis
    proof (cases res)
      case (Inl e)
      with s Some assms show ?thesis by (simp add: handle_node_list_def grow_node_list_decide)
    next
      case (Inr r)
      then have "has k (fst r)" using node_list_decide_has [of srv i m s "fst r" "snd r"] Some assms by simp
      with s Some Inr assms show ?thesis
        by (cases r; cases "session_at (fst r) i") (simp_all add: handle_node_list_def grow_node_list_decide Let_def)
    qed
  qed
qed (use assms in \<open>simp add: handle_node_list_def\<close>)

lemma grow_count_state [simp]: "has k srv \<Longrightarrow> ffsplit_count_state (grow k b srv) = ffsplit_count_state srv"
  by (intro ext) (simp add: ffsplit_count_state_def active_in_def)

lemma grow_vote_info_reply:
  assumes "has k srv"
  shows "handle_vote_info_reply (grow k b srv) i m = map_option (grow k b) (handle_vote_info_reply srv i m)"
proof (cases "session_at srv i")
  case (Some s)
  let ?s = "s\<lparr>ff_state := Client_WAITING_FOR_CHANGE\<rparr>"
  from Some assms show ?thesis
    by (cases "cluster_at (set_session srv i ?s) (cluster s)")
      (simp_all add: handle_vote_info_reply_def Let_def grow_send_votes case_prod_unfold)
qed (use assms in \<open>simp add: handle_vote_info_reply_def\<close>)

lemma grow_heuristics_change:
  assumes "has k srv"
  shows "handle_heuristics_change (grow k b srv) i m = map_option (grow k b) (handle_heuristics_change srv i m)"
proof (cases "session_at srv i")
  case s: (Some s)
  let ?tv = "\<lparr>tv_slot = i, tv_leaving = False, tv_ring_id = last_ring_id s, tv_config = config_list s,
     tv_membership = membership_list s, tv_heuristics = m_heuristics m\<rparr>"
  show ?thesis
  proof (cases "ffsplit_do srv ?tv")
    case None
    with s assms show ?thesis by (simp add: handle_heuristics_change_def grow_do_eq Let_def)
  next
    case (Some r)
    with grow_do_has [of srv ?tv "fst r" "snd r", OF _ assms] have "has k (fst r)" by simp
    with s Some assms show ?thesis
      by (cases r; cases "session_at (fst r) i") (simp_all add: handle_heuristics_change_def grow_do_eq Let_def)
  qed
qed (use assms in \<open>simp add: handle_heuristics_change_def\<close>)

lemma grow_disconnect:
  assumes "has k srv" "processing srv"
  shows "disconnect_client (grow k b srv) i = map_option (grow k b) (disconnect_client srv i)"
  using assms by (cases "session_at srv i") (simp_all add: disconnect_client_def Let_def)

lemmas grow_handlers = grow_preinit grow_init grow_set_option grow_node_list grow_vote_info_reply grow_heuristics_change

text \<open>Handling a frame does not look at the bytes behind it.\<close>

lemma grow_handle_frame:
  assumes "has k srv" "processing srv"
  shows "handle_frame (grow k b srv) i t f payload now = map_option (grow k b) (handle_frame srv i t f payload now)"
proof (cases "msg_decode t payload")
  case (Some d)
  have "handle_active (grow k b srv) i t f m now = map_option (grow k b) (handle_active srv i t f m now)" for m
    using assms(1) by (cases t) (simp_all add: handle_active_def grow_handlers)
  with Some assms show ?thesis
    by (cases d; cases "session_at srv i") (simp_all add: handle_frame_def grow_handlers grow_disconnect send_err_def)
qed (simp add: handle_frame_def)

subsection \<open>The timer\<close>

text \<open>The deadline of the session is the one \<open>reschedule_dpd\<close> sets at the time \<open>now\<close>. Handling a frame
  at that time keeps it so: a frame that changes the phase or the heartbeat sets the timer.\<close>

definition fresh :: "u64 \<Rightarrow> session \<Rightarrow> bool" where
  "fresh now s \<longleftrightarrow> reschedule_dpd s now = s"

lemma fresh_iff:
  "fresh now s \<longleftrightarrow> (phase s = ACTIVE \<and> heartbeat_ms s > 0 \<longrightarrow> deadline_ms s = now + dpd_interval (heartbeat_ms s)) \<and>
     (phase s \<noteq> FREE \<and> phase s \<noteq> ACTIVE \<longrightarrow> deadline_ms s = now + PREACTIVE_TIMEOUT_MS)"
proof -
  have "s\<lparr>deadline_ms := d\<rparr> = s \<longleftrightarrow> deadline_ms s = d" for d by (cases s) auto
  then show ?thesis by (auto simp: fresh_def reschedule_dpd_def)
qed

lemma fresh_reschedule [simp]: "fresh now (reschedule_dpd s now)"
  unfolding fresh_iff by (simp add: reschedule_dpd_def)

lemma fresh_core: "core s = core t \<Longrightarrow> fresh now s = fresh now t"
  using core_eq_fields [of s t] by (simp add: fresh_iff)

lemma fresh_updates [simp]:
  "fresh now (node_list_store m s) = fresh now s" "fresh now (record_vote v s) = fresh now s"
  "fresh now (s\<lparr>last_heuristics := h\<rparr>) = fresh now s" "fresh now (s\<lparr>schedule_disconnect := d\<rparr>) = fresh now s"
  "fresh now (s\<lparr>rx := bs\<rparr>) = fresh now s" "fresh now (s\<lparr>keep_active_partition_tb := a\<rparr>) = fresh now s"
  "fresh now (acknowledged s) = fresh now s" "fresh now (ack_waiting c s) = fresh now s"
  by (simp_all add: fresh_iff node_list_store_def record_vote_def Let_def acknowledged_def ack_waiting_def voted_def split: node_list_type.split)

lemma fresh_refused: "refused s s' \<Longrightarrow> fresh now s \<Longrightarrow> fresh now s'"
  by (auto simp: refused_def fresh_iff)

lemma fresh_decision:
  assumes "decision srv tv srv1" "i < length (sessions srv)" "fresh now (sessions srv ! i)"
  shows "fresh now (sessions srv1 ! i)"
  using fresh_core [OF same_core_nth [OF decision_frame(1) [OF assms(1)] assms(2)]] assms(3) by simp

lemma fresh_preinit:
  assumes "handle_preinit srv i m = Some srv'" "has i srv" "fresh now (sessions srv ! i)"
  shows "fresh now (sessions srv' ! i)"
  using assms by (auto simp: handle_preinit_def send_err_def fresh_iff split: if_splits)

lemma fresh_join:
  assumes "init_join srv i s now = Some (code, srv')" "has i srv" "fresh now s"
  shows "fresh now (sessions srv' ! i)"
proof -
  obtain srv1 c where f: "find_or_create_cluster srv (cluster_name s) = (srv1, c)" by fastforce
  then have "has i srv1" using find_or_create_sessions assms(2) by metis
  with f assms show ?thesis by (auto simp: init_join_def Let_def bind_eq_Some_conv split: if_splits)
qed

lemma fresh_init:
  assumes "handle_init srv i m now = Some srv'" "has i srv" "fresh now (sessions srv ! i)"
  shows "fresh now (sessions srv' ! i)"
proof -
  obtain code s where c: "init_checks srv i m (sessions srv ! i) = (code, s)" by fastforce
  have "fresh now s" using fresh_refused [OF init_checks_refused(1) [OF c] assms(3)] .
  with c assms fresh_join [of srv i s now] show ?thesis
    by (auto simp: handle_init_def bind_eq_Some_conv split: if_splits)
qed

lemma fresh_set_option:
  assumes "handle_set_option srv i m now = Some srv'" "has i srv" "fresh now (sessions srv ! i)"
  shows "fresh now (sessions srv' ! i)"
  using assms by (auto simp: handle_set_option_def Let_def send_err_def split: if_splits)

lemma fresh_node_list:
  assumes ok: "server_ok srv" and act: "i < MAX_CLIENTS" "phase (sessions srv ! i) = ACTIVE"
    and run: "handle_node_list srv i m = Some srv'" and fr: "fresh now (sessions srv ! i)"
  shows "fresh now (sessions srv' ! i)"
proof (cases rule: node_list_decide_cases [of srv i m "sessions srv ! i"])
  case (run tv)
  obtain srv1 res where do: "ffsplit_do srv tv = Some (srv1, NO_ERROR, res)" and dec: "decision srv tv srv1"
    using ffsplit_do_active [OF ok act run(2)] .
  have "fresh now (sessions srv1 ! i)" using fresh_decision [OF dec] ok act(1) fr by simp
  with do run(1) assms(4) ok act(1) fr decision_frame(2) [OF dec] show ?thesis
    by (auto simp: handle_node_list_def Let_def send_err_def split: if_splits)
qed (use assms in \<open>auto simp: handle_node_list_def Let_def send_err_def split: if_splits\<close>)

lemma fresh_heuristics_change:
  assumes ok: "server_ok srv" and act: "i < MAX_CLIENTS" "phase (sessions srv ! i) = ACTIVE"
    and run: "handle_heuristics_change srv i m = Some srv'" and fr: "fresh now (sessions srv ! i)"
  shows "fresh now (sessions srv' ! i)"
proof -
  let ?s = "sessions srv ! i"
  let ?tv = "\<lparr>tv_slot = i, tv_leaving = False, tv_ring_id = last_ring_id ?s, tv_config = config_list ?s,
    tv_membership = membership_list ?s, tv_heuristics = m_heuristics m\<rparr>"
  have tv: "tv_slot ?tv = i" by simp
  obtain srv1 res where do: "ffsplit_do srv ?tv = Some (srv1, NO_ERROR, res)" and dec: "decision srv ?tv srv1"
    using ffsplit_do_active [OF ok act tv] .
  have "fresh now (sessions srv1 ! i)" using fresh_decision [OF dec] ok act(1) fr by simp
  with do run ok act(1) fr decision_frame(2) [OF dec] show ?thesis
    by (auto simp: handle_heuristics_change_def Let_def send_err_def split: if_splits)
qed

lemma fresh_vote_info_reply:
  assumes ok: "server_ok srv" and act: "i < MAX_CLIENTS" "phase (sessions srv ! i) = ACTIVE"
    and run: "handle_vote_info_reply srv i m = Some srv'" and fr: "fresh now (sessions srv ! i)"
  shows "fresh now (sessions srv' ! i)"
proof (cases "m_seq_number_set m \<and> m_seq_number m = vote_info_seq (sessions srv ! i)")
  case False
  with assms show ?thesis by (auto simp: handle_vote_info_reply_def send_err_def split: if_splits)
next
  case True
  then have seq: "m_seq_number_set m" "m_seq_number m = vote_info_seq (sessions srv ! i)" by simp_all
  show ?thesis
    by (cases rule: vote_info_reply_cases [OF ok act seq refl refl refl]) (use run ok act(1) fr in simp_all)
qed

text \<open>The timer after a frame.\<close>

lemma fresh_handle_frame:
  assumes ok: "server_ok srv" and conn: "processing srv" "i < MAX_CLIENTS"
    and run: "handle_frame srv i t f payload now = Some srv'" and fr: "fresh now (sessions srv ! i)"
  shows "fresh now (sessions srv' ! i)"
proof -
  have has: "has i srv" using ok conn(2) by simp
  obtain d where d: "msg_decode t payload = Some d" using run by (auto simp: handle_frame_def bind_eq_Some_conv)
  show ?thesis
  proof (cases d)
    case None
    with run d has conn(1) fr show ?thesis
      by (auto simp: handle_frame_def disconnect_client_def Let_def send_err_def session_at_def split: if_splits)
  next
    case (Some m)
    have err: "fresh now (sessions (send_err srv i m e) ! i)" for e using fr by (simp add: send_err_def)
    have "fresh now (sessions srv' ! i)" if "handle_active srv i t f m now = Some srv'" "phase (sessions srv ! i) = ACTIVE"
      using that fr has err fresh_set_option fresh_node_list [OF ok conn(2)] fresh_heuristics_change [OF ok conn(2)]
        fresh_vote_info_reply [OF ok conn(2)]
      by (cases t) (auto simp: handle_active_def)
    with run d Some has fr err fresh_preinit fresh_init show ?thesis
      by (auto simp: handle_frame_def split: if_splits)
  qed
qed

subsection \<open>The loop\<close>

lemma header_append:
  assumes "MSG_HEADER_LEN \<le> length buf"
  shows "be_get16 (buf @ b) 0 = be_get16 buf 0" "be_get32 (buf @ b) 2 = be_get32 buf 2"
proof -
  have "at_ub (buf @ b) i = at_ub buf i" if "i < 6" for i using assms that by (simp add: at_ub_append MSG_HEADER_LEN_def)
  then show "be_get16 (buf @ b) 0 = be_get16 buf 0" "be_get32 (buf @ b) 2 = be_get32 buf 2"
    by (simp_all add: be_get16_def be_get32_def)
qed

lemma rx_with_rx [simp]: "rx (with_rx k b k s) = rx s @ b" "(with_rx k b k s)\<lparr>rx := d @ b\<rparr> = with_rx k b k (s\<lparr>rx := d\<rparr>)"
  by (simp_all add: with_rx_def)

lemma grow_step_frame:
  assumes ok: "server_ok srv" and conn: "processing srv" "k < MAX_CLIENTS" "phase (sessions srv ! k) \<noteq> FREE" "\<not> schedule_disconnect (sessions srv ! k)"
    and h: "be_get16 (rx (sessions srv ! k)) 0 = Some t" "be_get32 (rx (sessions srv ! k)) 2 = Some p" "\<not> p > max_rx_frame srv"
    and len: "MSG_HEADER_LEN + unat p \<le> length (rx (sessions srv ! k))"
  obtains srv1 where "on_data_step srv k now = Some (Inr srv1)" "on_data_step (grow k b srv) k now = Some (Inr (grow k b srv1))"
    "server_ok srv1" "processing srv1" "phase (sessions srv1 ! k) \<noteq> FREE" "fresh now (sessions srv ! k) \<Longrightarrow> fresh now (sessions srv1 ! k)"
    "length (rx (sessions srv1 ! k)) < length (rx (sessions srv ! k))"
proof -
  let ?s = "sessions srv ! k" and ?n = "MSG_HEADER_LEN + unat p"
  obtain srv1 where hf: "handle_frame srv k (MsgType_of t) (take ?n (rx ?s)) (take (unat p) (drop MSG_HEADER_LEN (rx ?s))) now = Some srv1"
    and st: "frame_step (MsgType_of t = MsgType_INIT) srv k srv1"
    using handle_frame_step [OF ok conn] by blast
  note ok1 = frame_step_server_ok [OF st ok conn(2,3)]
  have sess: "rx (sessions srv1 ! k) = rx ?s" "phase (sessions srv1 ! k) \<noteq> FREE"
    using frame_step_steady [OF st ok conn(2,3) conn(2)] by (simp_all add: steady_def)
  have has: "has k srv" "has k srv1" using ok ok1 conn(2) by simp_all
  let ?s1 = "(sessions srv1 ! k)\<lparr>rx := drop ?n (rx ?s)\<rparr>"
  have "on_data_step srv k now = Some (Inr (set_session srv1 k ?s1))"
    using conn h len hf has sess by (simp add: on_data_step_def)
  moreover have "on_data_step (grow k b srv) k now = Some (Inr (grow k b (set_session srv1 k ?s1)))"
    using conn h len hf has sess header_append [of "rx ?s" b] by (simp add: on_data_step_def grow_handle_frame)
  moreover have "server_ok (set_session srv1 k ?s1)" using server_ok_reset_rx [OF ok1 conn(2) sess(2) reset_rxI(1)] .
  moreover have "fresh now (sessions (set_session srv1 k ?s1) ! k)" if "fresh now ?s"
    using fresh_handle_frame [OF ok conn(1,2) hf that] has by simp
  ultimately show thesis
    using that frame_step_frame(1) [OF st] conn(1) has sess len by (simp add: MSG_HEADER_LEN_def)
qed

text \<open>One pass of the loop. It handles a frame, or stops; then the connection is going away or
  the buffer holds no whole frame.\<close>

lemma grow_step_cases:
  assumes ok: "server_ok srv" and conn: "processing srv" "k < MAX_CLIENTS" "phase (sessions srv ! k) \<noteq> FREE"
  obtains (again) srv1 where "on_data_step srv k now = Some (Inr srv1)" "on_data_step (grow k b srv) k now = Some (Inr (grow k b srv1))"
      "server_ok srv1" "processing srv1" "phase (sessions srv1 ! k) \<noteq> FREE" "fresh now (sessions srv ! k) \<Longrightarrow> fresh now (sessions srv1 ! k)"
      "length (rx (sessions srv1 ! k)) < length (rx (sessions srv ! k))"
  | (closing) srv1 where "on_data_step srv k now = Some (Inl srv1)" "on_data_step (grow k b srv) k now = Some (Inl (grow k b srv1))"
      "has k srv1" "processing srv1" "phase (sessions srv1 ! k) \<noteq> FREE" "fresh now (sessions srv ! k) \<Longrightarrow> fresh now (sessions srv1 ! k)"
      "schedule_disconnect (sessions srv1 ! k)"
  | (wait) "on_data_step srv k now = Some (Inl srv)" "b = [] \<Longrightarrow> on_data_step (grow k b srv) k now = Some (Inl (grow k b srv))"
      "\<not> schedule_disconnect (sessions srv ! k)"
proof -
  let ?s = "sessions srv ! k"
  have has: "has k srv" using ok conn(2) by simp
  consider (gone) "schedule_disconnect ?s" | (short) "\<not> schedule_disconnect ?s" "length (rx ?s) < MSG_HEADER_LEN"
    | (header) "\<not> schedule_disconnect ?s" "MSG_HEADER_LEN \<le> length (rx ?s)" by linarith
  then show thesis
  proof cases
    case gone
    with has conn show thesis by (intro closing) (simp_all add: on_data_step_def)
  next
    case short
    with has conn show thesis by (intro wait) (simp_all add: on_data_step_def)
  next
    case header
    obtain t p where h: "be_get16 (rx ?s) 0 = Some t" "be_get32 (rx ?s) 2 = Some p" using header_defined header(2) by blast
    consider (long) "p > max_rx_frame srv" | (part) "\<not> p > max_rx_frame srv" "length (rx ?s) < MSG_HEADER_LEN + unat p"
      | (whole) "\<not> p > max_rx_frame srv" "MSG_HEADER_LEN + unat p \<le> length (rx ?s)" by linarith
    then show thesis
    proof cases
      case long
      have "disconnect_client (send_err srv k MsgDecoded MESSAGE_TOO_LONG) k = Some (condemned srv k MESSAGE_TOO_LONG)"
        using conn header has by (simp add: disconnect_client_def Let_def session_at_def send_err_def condemned_def)
      with long header has conn h header_append [OF header(2), of b] show thesis
        by (intro closing [of "condemned srv k MESSAGE_TOO_LONG"])
          (simp_all add: on_data_step_def grow_disconnect send_err_def condemned_def)
    next
      case part
      with header has conn h show thesis by (intro wait) (simp_all add: on_data_step_def)
    next
      case whole
      from grow_step_frame [OF ok conn header(1) h whole] again show thesis by blast
    qed
  qed
qed

lemma loop_unfold:
  "on_data_step srv k now = Some (Inl srv1) \<Longrightarrow> on_data_loop k now srv = Some srv1"
  "on_data_step srv k now = Some (Inr srv1) \<Longrightarrow> on_data_loop k now srv = on_data_loop k now srv1"
  by (subst on_data_loop.simps; simp)+

text \<open>The loop on more bytes goes on where the loop on fewer bytes stops.\<close>

lemma grow_loop:
  assumes "server_ok srv" "processing srv" "k < MAX_CLIENTS" "phase (sessions srv ! k) \<noteq> FREE" "fresh now (sessions srv ! k)"
  obtains srv1 where "on_data_loop k now srv = Some srv1" "processing srv1" "fresh now (sessions srv1 ! k)"
    "on_data_loop k now (grow k b srv) = on_data_loop k now (grow k b srv1)"
    "schedule_disconnect (sessions srv1 ! k) \<or> b = [] \<Longrightarrow> on_data_loop k now (grow k b srv) = Some (grow k b srv1)"
proof -
  have "\<exists>srv1. on_data_loop k now srv = Some srv1 \<and> processing srv1 \<and> fresh now (sessions srv1 ! k) \<and>
    on_data_loop k now (grow k b srv) = on_data_loop k now (grow k b srv1) \<and>
    (schedule_disconnect (sessions srv1 ! k) \<or> b = [] \<longrightarrow> on_data_loop k now (grow k b srv) = Some (grow k b srv1))"
    using assms
  proof (induction "length (rx (sessions srv ! k))" arbitrary: srv rule: less_induct)
    case less
    show ?case
      using less.prems(1-4)
    proof (cases rule: grow_step_cases [where now = now and b = b])
      case (again srv1)
      with less.hyps [OF again(7) again(3,4) less.prems(3) again(5) again(6) [OF less.prems(5)]] show ?thesis
        by (simp add: loop_unfold(2))
    next
      case (closing srv1)
      have "on_data_step (grow k b srv1) k now = Some (Inl (grow k b srv1))"
        using closing(3,5,7) by (simp add: on_data_step_def)
      with closing less.prems(5) show ?thesis by (simp add: loop_unfold(1))
    next
      case wait
      with less.prems show ?thesis by (auto simp: loop_unfold(1))
    qed
  qed
  with that show thesis by blast
qed

subsection \<open>Deferred closes\<close>

lemmas mute_plumbing = grow_plumbing [where b = "[]", unfolded grow_Nil]

lemma mute_set_session: "set_session (mute srv) i s = mute (set_session srv i s)"
  by (simp add: mute_def set_session_def)

lemma mute_at [simp]: "session_at (mute srv) i = session_at srv i"
  by (simp add: session_at_def)

lemma mute_leave: "has i srv \<Longrightarrow> leave_cluster (mute srv) i = map_option mute (leave_cluster srv i)"
  using grow_leave [of i srv "[]" i] by (simp add: grow_Nil)

lemma drain_loop_unfold:
  "pending_close srv = [] \<Longrightarrow> drain_loop srv = Some srv"
  "pending_close srv = ps @ [i] \<Longrightarrow> session_at srv i = Some s \<Longrightarrow> phase s = FREE \<Longrightarrow> drain_loop srv = drain_loop (srv\<lparr>pending_close := ps\<rparr>)"
  "pending_close srv = ps @ [i] \<Longrightarrow> session_at srv i = Some s \<Longrightarrow> phase s \<noteq> FREE \<Longrightarrow> leave_cluster (srv\<lparr>pending_close := ps\<rparr>) i = Some srv1 \<Longrightarrow>
     drain_loop srv = drain_loop (close_connection (set_session srv1 i Session) i)"
  by (subst drain_loop.simps; simp)+

lemma drain_loop_mute: "drain_loop srv = Some srv' \<Longrightarrow> drain_loop (mute srv) = Some (mute srv')"
proof (induction rule: drain_loop.raw_induct [rotated, consumes 1, case_names pass])
  case (pass loop srv srv')
  show ?case
  proof (cases "pending_close srv" rule: rev_cases)
    case Nil
    with pass.hyps show ?thesis by (simp add: drain_loop_unfold(1))
  next
    case (snoc ps i)
    let ?srv = "srv\<lparr>pending_close := ps\<rparr>"
    obtain s where s: "session_at srv i = Some s" using pass.hyps snoc by (auto simp: bind_eq_Some_conv)
    then have "has i ?srv" by (simp add: session_at_eq_Some_iff)
    note leave = mute_leave [OF this]
    show ?thesis
    proof (cases "phase s = FREE")
      case True
      then have "loop ?srv = Some srv'" using pass.hyps snoc s by simp
      from pass.IH [OF this] show ?thesis
        using drain_loop_unfold(2) [of "mute srv" ps i s] snoc s True by (simp add: mute_plumbing)
    next
      case False
      then obtain srv1 where l: "leave_cluster ?srv i = Some srv1" "loop (close_connection (set_session srv1 i Session) i) = Some srv'"
        using pass.hyps snoc s by (auto simp: bind_eq_Some_conv)
      from pass.IH [OF l(2)] show ?thesis
        using drain_loop_unfold(3) [of "mute srv" ps i s "mute srv1"] snoc s False l(1) leave by (simp add: mute_plumbing mute_set_session)
    qed
  qed
qed

lemma drain_closes_mute: "drain_closes srv = Some srv' \<Longrightarrow> drain_closes (mute srv) = Some (mute srv')"
  using drain_loop_mute by (auto simp: drain_closes_def bind_eq_Some_conv mute_plumbing)

text \<open>When the connection in slot \<open>k\<close> is closed, its buffer goes with it.\<close>

lemma grow_reset: "has k srv \<Longrightarrow> set_session (grow k b srv) k Session = mute (set_session srv k Session)"
  by (simp add: grow_def mute_def set_session_def)

lemma drain_closes_grow:
  assumes ok: "server_ok srv" "pending_ok srv" and one: "pending_close srv = [k]" and run: "drain_closes srv = Some srv'"
  shows "drain_closes (grow k b srv) = Some (mute srv')"
proof -
  let ?srv = "srv\<lparr>processing := True\<rparr>"
  have k: "has k srv" using ok one by (simp add: pending_ok_def)
  have "server_ok ?srv" "pending_ok ?srv" "pending_close ?srv = [] @ [k]" using ok one by (simp_all add: pending_ok_def)
  then obtain srv1 where l: "leave_cluster (?srv\<lparr>pending_close := []\<rparr>) k = Some srv1" "phase (sessions ?srv ! k) \<noteq> FREE"
    "server_ok (set_session srv1 k Session)" "pending_close srv1 = []" by (rule total.close_step)
  let ?srv2 = "close_connection (set_session srv1 k Session) k"
  have k1: "has k srv1" using server_ok_length(1) [OF l(3)] k ok(1) by simp
  have "drain_loop ?srv = Some ?srv2"
    using drain_loop_unfold(3) [of ?srv "[]" k "sessions srv ! k" srv1] drain_loop_unfold(1) [of ?srv2] one k l by simp
  with run have "srv' = notify (?srv2\<lparr>processing := False\<rparr>)" by (simp add: drain_closes_def)
  moreover have "leave_cluster (grow k b (?srv\<lparr>pending_close := []\<rparr>)) k = Some (grow k b srv1)"
    using grow_leave [of k "?srv\<lparr>pending_close := []\<rparr>"] k l(1) by simp
  then have "drain_loop (grow k b ?srv) = Some (mute ?srv2)"
    using drain_loop_unfold(3) [of "grow k b ?srv" "[]" k "with_rx k b k (sessions srv ! k)" "grow k b srv1"]
      drain_loop_unfold(1) [of "mute ?srv2"] one k l(2,4) by (simp add: grow_reset [OF k1] mute_plumbing)
  ultimately show ?thesis by (simp add: drain_closes_def mute_plumbing)
qed

subsection \<open>Calls of on_data\<close>

lemma distinct_at_most_one: "distinct xs \<Longrightarrow> set xs \<subseteq> {i} \<Longrightarrow> xs = (if i \<in> set xs then [i] else [])"
  by (cases xs; cases "tl xs") auto

text \<open>A call for an open connection: the loop, then the deferred close of at most this connection.\<close>

lemma on_data_run:
  assumes q: "total.quiet srv" and i: "i < MAX_CLIENTS" "phase (sessions srv ! i) \<noteq> FREE"
  obtains srv1 srv2 where "on_data_loop i now (received srv i d now) = Some srv1" "server_ok srv1" "pending_ok srv1"
    "pending_close srv1 = (if schedule_disconnect (sessions srv1 ! i) then [i] else [])" "phase (sessions srv1 ! i) \<noteq> FREE"
    "drain_closes (srv1\<lparr>processing := False\<rparr>) = Some srv2" "on_data srv (int i) d now = Some srv2" "total.quiet srv2"
    "phase (sessions srv2 ! i) = FREE \<longleftrightarrow> schedule_disconnect (sessions srv1 ! i)"
proof -
  note r = received_quiet [OF q i, where data = d and now = now]
  obtain srv1 where l: "on_data_loop i now (received srv i d now) = Some srv1" "server_ok srv1" "pending_ok srv1"
    "same_rx i (received srv i d now) srv1" "same_conns (received srv i d now) srv1"
    using total.on_data_loop_inv [OF r(1-3) i(1)] by blast
  have ph: "phase (sessions srv1 ! i) \<noteq> FREE" using l(5) i(1) r(4) by (simp add: same_conns_def)
  have "\<not> schedule_disconnect (sessions srv1 ! j)" if "j < MAX_CLIENTS" "j \<noteq> i" for j
    using l(4) r(2,8) that by (simp add: same_rx_def pending_ok_def)
  then have "set (pending_close srv1) \<subseteq> {i}" "i \<in> set (pending_close srv1) \<longleftrightarrow> schedule_disconnect (sessions srv1 ! i)" "distinct (pending_close srv1)"
    using l(3) i(1) by (auto simp: pending_ok_def)
  then have p: "pending_close srv1 = (if schedule_disconnect (sessions srv1 ! i) then [i] else [])"
    using distinct_at_most_one by metis
  have "server_ok (srv1\<lparr>processing := False\<rparr>)" "pending_ok (srv1\<lparr>processing := False\<rparr>)" using l(2,3) by (simp_all add: pending_ok_def)
  from total.drain_closes_inv [OF this] p obtain srv2 where d: "drain_closes (srv1\<lparr>processing := False\<rparr>) = Some srv2" "total.quiet srv2"
    and c: "closes (set (pending_close srv1)) (srv1\<lparr>processing := False\<rparr>) srv2" by auto
  have "server_ok srv" "\<not> schedule_disconnect (sessions srv ! i)" using q i(1) by (auto simp: total.quiet_def idle_def pending_ok_def)
  then have run: "on_data srv (int i) d now = Some srv2" using l(1) d(1) i by (simp add: on_data_def Let_def received_def)
  have "phase (sessions srv2 ! i) = FREE \<longleftrightarrow> schedule_disconnect (sessions srv1 ! i)" using closes_phase [OF c i(1)] ph p by simp
  from that [OF l(1-3) p ph d(1) run d(2) this] show thesis .
qed

lemma received_fresh: "has i srv \<Longrightarrow> fresh now (sessions (received srv i d now) ! i)"
  by (simp add: received_def)

lemma received_append: "has i srv \<Longrightarrow> mute (received srv i (a @ b) now) = grow i b (received srv i a now)"
  using reschedule_with_rx [of i b i "(sessions srv ! i)\<lparr>rx := rx (sessions srv ! i) @ a\<rparr>" now]
  by (intro server.equality) (simp_all add: received_def grow_def with_rx_def)

text \<open>Between two calls at the same time the timer is not touched.\<close>

lemma received_again:
  assumes "has i srv" "processing srv" "fresh now (sessions srv ! i)"
  shows "mute (received (notify (srv\<lparr>processing := False\<rparr>)) i b now) = grow i b srv"
proof -
  have "reschedule_dpd ((sessions srv ! i)\<lparr>rx := rx (sessions srv ! i) @ b\<rparr>) now = with_rx i b i (sessions srv ! i)"
    using reschedule_with_rx [of i b i "sessions srv ! i" now] assms(3) by (simp add: fresh_def with_rx_def)
  then show ?thesis
    using assms(2) by (intro server.equality) (simp_all add: received_def grow_def notify_def)
qed

text \<open>The callback has no influence on a call.\<close>

lemma loop_mute:
  assumes "total.quiet srv" "i < MAX_CLIENTS" "phase (sessions srv ! i) \<noteq> FREE" "on_data_loop i now (received srv i d now) = Some srv1"
  shows "on_data_loop i now (mute (received srv i d now)) = Some (mute srv1)"
proof -
  note r = received_quiet [OF assms(1-3), where data = d and now = now]
  have "has i srv" using assms(1,2) by (simp add: total.quiet_def)
  from grow_loop [OF r(1,3) assms(2) r(4) received_fresh [OF this]] obtain srv2
    where "on_data_loop i now (received srv i d now) = Some srv2"
      "on_data_loop i now (grow i [] (received srv i d now)) = Some (grow i [] srv2)" by metis
  with assms(4) show ?thesis by (simp add: grow_Nil)
qed

text \<open>Two calls at the same time do what one call with all the bytes does.\<close>

lemma on_data_append:
  assumes q: "total.quiet srv" and i: "i < MAX_CLIENTS" "phase (sessions srv ! i) \<noteq> FREE"
    and run: "on_data srv (int i) a now = Some srv2" "on_data srv2 (int i) b now = Some srv3" "on_data srv (int i) (a @ b) now = Some srv4"
  shows "mute srv3 = mute srv4"
proof -
  have has: "has i srv" using q i(1) by (simp add: total.quiet_def)
  note r = received_quiet [OF q i, where data = a and now = now]
  obtain x where x: "on_data_loop i now (received srv i a now) = Some x" "processing x" "fresh now (sessions x ! i)"
    "on_data_loop i now (grow i b (received srv i a now)) = on_data_loop i now (grow i b x)"
    "schedule_disconnect (sessions x ! i) \<or> b = [] \<Longrightarrow> on_data_loop i now (grow i b (received srv i a now)) = Some (grow i b x)"
    using grow_loop [OF r(1,3) i(1) r(4) received_fresh [OF has], of b] by blast
  have x1: "server_ok x" "pending_ok x" "pending_close x = (if schedule_disconnect (sessions x ! i) then [i] else [])"
    "drain_closes (x\<lparr>processing := False\<rparr>) = Some srv2" "total.quiet srv2" "phase (sessions srv2 ! i) = FREE \<longleftrightarrow> schedule_disconnect (sessions x ! i)"
    by (rule on_data_run [OF q i, of now a]; use x(1) run(1) in simp)+
  obtain y where y: "on_data_loop i now (received srv i (a @ b) now) = Some y" "drain_closes (y\<lparr>processing := False\<rparr>) = Some srv4"
    by (rule on_data_run [OF q i, of now "a @ b"]) (use run(3) in simp)
  have ym: "on_data_loop i now (grow i b (received srv i a now)) = Some (mute y)"
    using loop_mute [OF q i y(1)] received_append [OF has] by simp
  note ydrain = drain_closes_mute [OF y(2)]
  show ?thesis
  proof (cases "schedule_disconnect (sessions x ! i)")
    case True
    then have "mute y = grow i b x" using x(5) ym by simp
    then have "mute (y\<lparr>processing := False\<rparr>) = grow i b (x\<lparr>processing := False\<rparr>)" by (metis mute_plumbing(8) grow_plumbing(8))
    moreover have "srv3 = srv2" using True x1(5,6) run(2) i(1) by (simp add: on_data_def total.quiet_def)
    moreover have "drain_closes (grow i b (x\<lparr>processing := False\<rparr>)) = Some (mute srv2)"
      using True x1(1-4) by (intro drain_closes_grow) (simp_all add: pending_ok_def)
    ultimately show ?thesis using ydrain by simp
  next
    case False
    have s2: "srv2 = notify (x\<lparr>processing := False\<rparr>)" using x1(3,4) x(2) False by (simp add: drain_closes_def drain_loop_unfold(1))
    have open2: "phase (sessions srv2 ! i) \<noteq> FREE" using x1(6) False by simp
    obtain z where z: "on_data_loop i now (received srv2 i b now) = Some z" "drain_closes (z\<lparr>processing := False\<rparr>) = Some srv3"
      by (rule on_data_run [OF x1(5) i(1) open2, of now b]) (use run(2) in simp)
    have "has i x" using x1(1) i(1) by simp
    then have "mute (received srv2 i b now) = grow i b x" unfolding s2 using received_again x(2,3) by blast
    then have "mute z = mute y" using loop_mute [OF x1(5) i(1) open2 z(1)] x(4) ym by simp
    then have "mute (z\<lparr>processing := False\<rparr>) = mute (y\<lparr>processing := False\<rparr>)" by (metis mute_plumbing(8))
    with ydrain drain_closes_mute [OF z(2)] show ?thesis by simp
  qed
qed

text \<open>After a call the timer of an open connection is set.\<close>

lemma on_data_fresh:
  assumes q: "total.quiet srv" and i: "i < MAX_CLIENTS" and run: "on_data srv (int i) d now = Some srv'" and ph: "phase (sessions srv' ! i) \<noteq> FREE"
  shows "fresh now (sessions srv' ! i)"
proof -
  have has: "has i srv" using q i by (simp add: total.quiet_def)
  have conn: "phase (sessions srv ! i) \<noteq> FREE" using run ph has i by (auto simp: on_data_def)
  note r = received_quiet [OF q i conn, where data = d and now = now]
  obtain x where x: "on_data_loop i now (received srv i d now) = Some x" "fresh now (sessions x ! i)"
    using grow_loop [OF r(1,3) i r(4) received_fresh [OF has], of "[]"] by blast
  have "pending_close x = (if schedule_disconnect (sessions x ! i) then [i] else [])" "drain_closes (x\<lparr>processing := False\<rparr>) = Some srv'"
    "phase (sessions srv' ! i) = FREE \<longleftrightarrow> schedule_disconnect (sessions x ! i)"
    by (rule on_data_run [OF q i conn, of now d]; use x(1) run in simp)+
  with ph have "srv' = notify (x\<lparr>processing := False\<rparr>)" by (simp add: drain_closes_def drain_loop_unfold(1))
  with x(2) show ?thesis by simp
qed

lemma on_data_ignored: "total.quiet srv \<Longrightarrow> slot < 0 \<or> slot \<ge> int MAX_CLIENTS \<or> phase (sessions srv ! nat slot) = FREE \<Longrightarrow>
    on_data srv slot d now = Some srv"
  by (auto simp: on_data_def total.quiet_def)

lemma on_data_twice:
  assumes q: "total.quiet srv" and run: "on_data srv slot a now = Some srv2"
  shows "map_option mute (on_data srv2 slot b now) = map_option mute (on_data srv slot (a @ b) now)"
proof (cases "slot < 0 \<or> slot \<ge> int MAX_CLIENTS \<or> phase (sessions srv ! nat slot) = FREE")
  case True
  with on_data_ignored [OF q] run show ?thesis by simp
next
  case False
  then have i: "nat slot < MAX_CLIENTS" "phase (sessions srv ! nat slot) \<noteq> FREE" "int (nat slot) = slot" by auto
  have "total.quiet srv2" using total.on_data_inv [OF q, of slot a now] run by auto
  from total.on_data_inv [OF this, of slot b now] obtain srv3 where 3: "on_data srv2 slot b now = Some srv3" by auto
  from total.on_data_inv [OF q, of slot "a @ b" now] obtain srv4 where 4: "on_data srv slot (a @ b) now = Some srv4" by auto
  from on_data_append [OF q i(1,2), unfolded i(3), OF run 3 4] 3 4 show ?thesis by simp
qed

text \<open>Any number of calls at the same time.\<close>

lemma on_data_chunks:
  "total.quiet srv \<Longrightarrow> ds \<noteq> [] \<Longrightarrow>
    map_option mute (run (map (\<lambda>d. Data slot d now) ds) srv) = map_option mute (on_data srv slot (concat ds) now)"
proof (induction ds arbitrary: srv)
  case (Cons d ds)
  from total.on_data_inv [OF Cons.prems(1), of slot d now] obtain srv2
    where 2: "on_data srv slot d now = Some srv2" "total.quiet srv2" by auto
  show ?case
  proof (cases "ds = []")
    case True
    with 2(1) show ?thesis by (simp add: run_def)
  next
    case False
    with Cons.IH [OF 2(2)] on_data_twice [OF Cons.prems(1) 2(1)] 2(1) show ?thesis by (simp add: run_def)
  qed
qed simp

lemma chunks_return:
  assumes "total.quiet srv" "ds \<noteq> []"
  shows "\<exists>srv1 srv2. run (map (\<lambda>d. Data slot d now) ds) srv = Some srv1 \<and> on_data srv slot (concat ds) now = Some srv2 \<and> mute srv1 = mute srv2"
  using on_data_chunks [OF assms, of slot now] total.on_data_inv [OF assms(1), of slot "concat ds" now] by auto

end
