(* ===== verification/Reply_Options.thy ===== *)
theory Reply_Options
  imports Complete_Frames
begin

text \<open>
  The options of a reply as a peer reads them. The decoder of the server skips the options
  that only a client needs: the error code, the size limits and the supported lists. Here
  they are looked up among the parsed options of the frame.
\<close>

definition frame_option :: "frame \<Rightarrow> tlv_opt \<Rightarrow> bytes option" where
  "frame_option f opt = Option.bind (parse_tlvs (drop MSG_HEADER_LEN f)) (\<lambda>ts. map_of ts (TlvOpt_u16 opt))"

fun read_u16s :: "bytes \<Rightarrow> u16 list" where
  "read_u16s (a # b # bs) = (push_bit 8 (ucast a) OR ucast b) # read_u16s bs"
| "read_u16s _ = []"

lemma read_u16s_put: "read_u16s (be_put16 [] v @ bs) = v # read_u16s bs"
proof -
  have "be_get16 (be_put16 [] v) 0 = Some v" using be16.get_put_at [where i = 0 and b = "[]"] by simp
  then show ?thesis by (simp add: be_put16_def be_get16_def at_ub_def)
qed

lemma read_u16s_foldl: "read_u16s (foldl be_put16 [] vs) = vs"
proof (induction vs)
  case (Cons v vs)
  have "foldl be_put16 [] (v # vs) = be_put16 [] v @ foldl be_put16 [] vs" using foldl_be_put16 [of "be_put16 [] v" vs] by simp
  with Cons show ?case by (simp only: read_u16s_put)
qed simp

lemma frame_option_built:
  assumes "f = end_frame (begin_frame t @ tlv_encode ts)" and "\<forall>(t, d)\<in>set ts. length d < 2 ^ 16"
  shows "frame_option f opt = map_of ts (TlvOpt_u16 opt)"
proof -
  have "drop MSG_HEADER_LEN f = tlv_encode ts"
    by (simp add: assms(1) end_frame_begin frame_of_def MSG_HEADER_LEN_def be_put16_def be_put32_def)
  with assms(2) show ?thesis by (simp add: frame_option_def parse_tlvs_encode)
qed

lemma get32_put: "be_get32 (be_put32 [] v) 0 = Some v"
  using be32.get_put_at [where i = 0 and b = "[]"] by simp

lemma server_error_option:
  "map_option read_u16s (frame_option (build_server_error seq_set seq code) TlvOpt_REPLY_ERROR_CODE) = Some [ReplyErrorCode_u16 code]"
  using read_u16s_put [of "ReplyErrorCode_u16 code" "[]"]
  by (subst frame_option_built [where t = MsgType_SERVER_ERROR and
        ts = "(if seq_set then [(0, be_put32 [] seq)] else []) @ [(6, be_put16 [] (ReplyErrorCode_u16 code))]"])
    (auto simp: build_server_error_def writer_encode codec_simps)

lemma init_reply_option:
  "frame_option (build_init_reply seq_set seq code msgs opts max_req max_rep) opt = map_of
     ((if seq_set then [(0, be_put32 [] seq)] else []) @ [(6, be_put16 [] (ReplyErrorCode_u16 code))]
      @ (if msgs then [(4, foldl be_put16 [] SUPPORTED_MESSAGES)] else [])
      @ (if opts then [(5, foldl be_put16 [] SUPPORTED_OPTIONS)] else [])
      @ [(7, be_put32 [] max_req), (8, be_put32 [] max_rep), (10, foldl be_put16 [] SUPPORTED_ALGORITHMS)]) (TlvOpt_u16 opt)"
proof -
  have lens: "length SUPPORTED_MESSAGES = 18" "length SUPPORTED_OPTIONS = 24" "length SUPPORTED_ALGORITHMS = 1"
    by (auto simp: SUPPORTED_MESSAGES_def SUPPORTED_OPTIONS_def SUPPORTED_ALGORITHMS_def)
  show ?thesis
    by (rule frame_option_built [where t = MsgType_INIT_REPLY])
      (auto simp: build_init_reply_def writer_encode add_u16_array_encode lens codec_simps)
qed

lemma init_reply_options:
  "map_option read_u16s (frame_option (build_init_reply seq_set seq code msgs opts max_req max_rep) TlvOpt_REPLY_ERROR_CODE) = Some [ReplyErrorCode_u16 code]"
  "map_option read_u16s (frame_option (build_init_reply seq_set seq code msgs opts max_req max_rep) TlvOpt_SUPPORTED_MESSAGES) =
     (if msgs then Some SUPPORTED_MESSAGES else None)"
  "map_option read_u16s (frame_option (build_init_reply seq_set seq code msgs opts max_req max_rep) TlvOpt_SUPPORTED_OPTIONS) =
     (if opts then Some SUPPORTED_OPTIONS else None)"
  "Option.bind (frame_option (build_init_reply seq_set seq code msgs opts max_req max_rep) TlvOpt_SERVER_MAXIMUM_REQUEST_SIZE) (\<lambda>d. be_get32 d 0) = Some max_req"
  "Option.bind (frame_option (build_init_reply seq_set seq code msgs opts max_req max_rep) TlvOpt_SERVER_MAXIMUM_REPLY_SIZE) (\<lambda>d. be_get32 d 0) = Some max_rep"
  "map_option read_u16s (frame_option (build_init_reply seq_set seq code msgs opts max_req max_rep) TlvOpt_SUPPORTED_DECISION_ALGORITHMS) =
     Some [Algorithm_u16 Algorithm_FFSPLIT]"
  using read_u16s_put [of "ReplyErrorCode_u16 code" "[]"] read_u16s_foldl [of SUPPORTED_ALGORITHMS]
  by (auto simp: init_reply_option read_u16s_foldl get32_put SUPPORTED_ALGORITHMS_def)

lemma ReplyErrorCode_inject: "ReplyErrorCode_u16 code = ReplyErrorCode_u16 code' \<longleftrightarrow> code = code'"
  by (cases code; cases code'; simp)

end
