(* ===== verification/Repeated_Init.thy ===== *)
theory Repeated_Init
  imports Rejections
begin

text \<open>
  INIT on an active connection. The first check of \<open>handle_init\<close> finds the error, but the checks
  after it still store the node id and the ring id of the refused message.
\<close>

lemma init_checks_active:
  "phase s = ACTIVE \<Longrightarrow> init_checks srv slot m s = (UNEXPECTED_MESSAGE, s\<lparr>node_id := m_node_id m, last_ring_id := m_ring_id m\<rparr>)"
  by (simp add: init_checks_def init_node_id_def init_ring_id_def init_heartbeat_def init_tie_breaker_def init_algorithm_def
      init_check_new_client_def)

definition refused_init :: "server \<Rightarrow> nat \<Rightarrow> msg_decoded \<Rightarrow> server" where
  "refused_init srv i m = notify (send_frame
     (set_session srv i ((sessions srv ! i)\<lparr>node_id := m_node_id m, last_ring_id := m_ring_id m\<rparr>)) i
     (build_init_reply (m_seq_number_set m) (m_seq_number m) UNEXPECTED_MESSAGE
       (m_supported_messages_present m) (m_supported_options_present m) (max_rx_frame srv) (max_rx_frame srv)))"

lemma handle_init_active:
  assumes "i < length (sessions srv)" "phase (sessions srv ! i) = ACTIVE"
  shows "handle_init srv i m now = Some (refused_init srv i m)"
  using assms by (simp add: handle_init_def init_checks_active refused_init_def)

text \<open>A buffer that holds exactly one INIT frame of an active client.\<close>

lemma on_data_refused_init:
  assumes q: "total.quiet srv" and i: "i < MAX_CLIENTS" "phase (sessions srv ! i) = ACTIVE" "rx (sessions srv ! i) = []"
    and f: "framed f (drop MSG_HEADER_LEN f)" "be_get16 f 0 = Some t" "MsgType_of t = MsgType_INIT" "length (drop MSG_HEADER_LEN f) \<le> unat (max_rx_frame srv)"
    and m: "msg_decode MsgType_INIT (drop MSG_HEADER_LEN f) = Some (Some m)"
  obtains srv' where "on_data srv (int i) f now = Some srv'"
    "\<exists>new. outs srv' = outs srv @ SendFrame i (build_init_reply (m_seq_number_set m) (m_seq_number m) UNEXPECTED_MESSAGE
       (m_supported_messages_present m) (m_supported_options_present m) (max_rx_frame srv) (max_rx_frame srv)) # new"
    "phase (sessions srv' ! i) = ACTIVE" "cluster (sessions srv' ! i) = cluster (sessions srv ! i)" "node_id (sessions srv' ! i) = m_node_id m"
    "\<And>j. j \<noteq> i \<Longrightarrow> sessions srv' ! j = sessions srv ! j"
proof -
  let ?r = "received srv i f now"
  have act: "phase (sessions srv ! i) \<noteq> FREE" using i(2) by simp
  note r = received_quiet [OF q i(1) act, where data = f and now = now]
  have len: "MSG_HEADER_LEN \<le> length f" using f(1) by (simp add: framed_def)
  obtain plen where plen: "be_get32 f 2 = Some plen" "unat plen = length (drop MSG_HEADER_LEN f)" using f(1) by (auto simp: framed_def)
  then have small: "\<not> plen > max_rx_frame srv" and whole: "MSG_HEADER_LEN + unat plen = length f"
    using f(4) len by (simp_all add: word_less_nat_alt)
  have has: "i < length (sessions srv)" "i < length (sessions ?r)" using q i(1) r(1) by (simp_all add: total.quiet_def)
  have rx: "rx (sessions ?r ! i) = f" using r(6) i(3) by simp
  have ph: "phase (sessions ?r ! i) = ACTIVE" using i(2) has by (simp add: received_def)
  let ?h = "refused_init ?r i m"
  let ?s = "(sessions ?h ! i)\<lparr>rx := []\<rparr>"
  let ?x = "set_session ?h i ?s"
  have hf: "handle_frame ?r i MsgType_INIT f (drop MSG_HEADER_LEN f) now = Some ?h"
    using m handle_init_active [OF has(2) ph] has ph by (simp add: handle_frame_def)
  have hs: "sessions ?h ! i = (sessions ?r ! i)\<lparr>node_id := m_node_id m, last_ring_id := m_ring_id m\<rparr>" "length (sessions ?h) = length (sessions ?r)"
    using has by (simp_all add: refused_init_def)
  have "on_data_step ?r i now = Some (Inr ?x)"
    using has r(4,5,9) rx f(2,3) plen small whole hf hs len by (simp add: on_data_step_def)
  moreover have "on_data_step ?x i now = Some (Inl ?x)"
    using has hs r(4,5) by (simp add: on_data_step_def MSG_HEADER_LEN_def)
  ultimately have loop: "on_data_loop i now ?r = Some ?x"
    by (simp add: on_data_loop.simps [of i now ?r] on_data_loop.simps [of i now ?x])
  have pend: "pending_close ?x = []" using r(8) by (simp add: refused_init_def)
  have drain: "drain_closes (?x\<lparr>processing := False\<rparr>) = Some (notify (?x\<lparr>processing := False\<rparr>))"
    using pend by (simp add: drain_closes_def drain_loop.simps)
  have "\<not> schedule_disconnect (sessions srv ! i)" using q i(1) by (auto simp: total.quiet_def idle_def pending_ok_def)
  then have run: "on_data srv (int i) f now = Some (notify (?x\<lparr>processing := False\<rparr>))"
    using loop drain i(1) act has by (simp add: on_data_def Let_def received_def)
  have outs: "\<exists>new. outs (notify (?x\<lparr>processing := False\<rparr>)) = outs srv @ SendFrame i (build_init_reply (m_seq_number_set m) (m_seq_number m) UNEXPECTED_MESSAGE
       (m_supported_messages_present m) (m_supported_options_present m) (max_rx_frame srv) (max_rx_frame srv)) # new"
    using r(7,9) by (simp add: refused_init_def notify_def)
  show thesis
    by (rule that [OF run outs]) (use has hs i(2) ph in \<open>simp_all add: refused_init_def received_def\<close>)
qed

end
