(* ===== verification/Spec2Isabelle.thy ===== *)
theory Spec2Isabelle
  imports Platforms Fragmentation Reply_Options Repeated_Init
begin

text \<open>
  This library models \<^verbatim>\<open>esphome-qnetd\<close>, a quorum device server for Corosync written in C++. It
  speaks the wire protocol of \<^verbatim>\<open>corosync-qnetd\<close> with the ffsplit algorithm: when a cluster
  splits, the server selects one partition, acknowledges (ACK) its nodes and refuses (NACK)
  the others.

  \<^bold>\<open>The program.\<close> All source paths are below \<^verbatim>\<open>src/\<close>; without a directory they are in
  \<^verbatim>\<open>components/qnetd/\<close>.

  \<^item> The protocol library (\<^verbatim>\<open>tlv.h\<close>, \<^verbatim>\<open>msg.h\<close>, \<^verbatim>\<open>msg.cpp\<close>) reads and writes frames: a header of six
    bytes and a list of type-length-value options.
  \<^item> The server (\<^verbatim>\<open>server.h\<close>, \<^verbatim>\<open>server.cpp\<close>) keeps eight sessions and two clusters. Its embedder calls
    \<open>on_connect\<close>, \<open>on_data\<close>, \<open>on_disconnected\<close> and \<open>tick\<close>; it calls its embedder through the
    interface \<open>Transport\<close> (send a frame, close a connection) and the callback
    \<open>on_state_change\<close>.
  \<^item> There are two embedders: the ESPHome component (\<^verbatim>\<open>qnetd_component.h\<close>, \<^verbatim>\<open>qnetd_component.cpp\<close>) and a
    POSIX program (\<^verbatim>\<open>host/qnetd_lite.cpp\<close>). Both own the sockets and supply the clock.
  \<^item> \<^verbatim>\<open>host/test_main.cpp\<close> drives the server with a mock client.

  \<^bold>\<open>How the code is modelled.\<close> Integers keep their width (\<open>u8\<close> to \<open>u64\<close> are words, so sums wrap
  as in the source); \<open>int\<close> variables are \<open>int\<close>. Lengths and positions of type \<open>size_t\<close> are \<open>nat\<close>: a frame is
  at most \<open>max_rx_frame\<close> plus six bytes long, and both embedders set this limit to 32768. Structs are records, enumerations are
  datatypes. A pointer or reference to a session is its slot. The result type \<open>'a ub\<close> is an
  option whose \<open>None\<close> means undefined behaviour (an access outside of a buffer or an array) or
  an endless loop; a decoder that fails returns a value of its own, so the two are never
  confused. What the server asks of its embedder is appended to \<open>outs\<close>, in order. The loops
  of the source that have no bound of their own (\<open>drain_loop\<close>, \<open>on_data_loop\<close>, \<open>accept_loop\<close>,
  \<open>read_loop\<close>, \<open>send_loop\<close>) are partial functions without fuel, and that they return is proved:
  pending closes and buffered bytes decrease, and for the loops that wait for the
  environment a measure on the environment decreases (see below). The option iterator is a
  total function that ends because its position grows.

  \<^bold>\<open>Protocol library.\<close>
  \<^item> \<open>Qnetd_Prelude\<close>: words, \<open>ub\<close>, checked reads, generic lemmas.
  \<^item> \<open>Wire_Types\<close>: constants and value types of \<^verbatim>\<open>tlv.h\<close>, with the wire numbers as conversions.
  \<^item> \<open>Tlv\<close>: big-endian accessors, \<open>TlvWriter\<close>, \<open>TlvIterator\<close> of \<^verbatim>\<open>tlv.h\<close>. The byte codecs share a
    locale, interpreted for 16, 32 and 64 bits.
  \<^item> \<open>Msg\<close>: \<open>msg_decode\<close> and every \<open>build_\<close> function of \<^verbatim>\<open>msg.cpp\<close>. The locale
    \<open>option_decoder\<close> relates an option loop to a fold over the parsed options; node
    entries and messages are its two instances.
  \<^item> \<open>Complete_Frames\<close>: well-formed frames; every frame the builders make is one.

  \<^item> \<open>Reply_Options\<close>: the options of a reply that only its receiver reads, looked up in the frame.

  Shown: the decoder never reads outside its payload and is a fold over the options
  (C32--C34), builders and decoder are inverse and every value put into a reply can be read
  from it (C35--C37; the server builds an echo reply only from a frame with a whole header).

  \<^bold>\<open>Server.\<close>
  \<^item> \<open>Server_State\<close>: the structs \<open>Session\<close>, \<open>Cluster\<close> and the class \<open>Server\<close>.
  \<^item> \<open>Ffsplit\<close>: the decision (\<^verbatim>\<open>server.cpp\<close>, 462--779). \<open>Handlers\<close>: \<open>handle_frame\<close>, its handlers and
    closing (56--87, 134--460). \<open>Server_Loop\<close>: entry points, framing, timers, introspection
    (26--54, 89--132, 783--817).
  \<^item> \<open>Ffsplit_Facts\<close>, \<open>Select_Facts\<close>: the decision in closed form; what is selected and when.
  \<^item> \<open>Invariant\<close>, \<open>Protocol\<close>: the invariant \<open>server_ok\<close>; the relation \<open>frame_step\<close> with one rule per way
    a frame changes the server; the handlers refine it.
  \<^item> \<open>Votes\<close>, \<open>Departures\<close>, \<open>Wire_Votes\<close>: votes against the selected partition, leaving, and the frames a
    call sends.
  \<^item> \<open>Entry_Points\<close>: the locale \<open>server_invariant\<close>, in which every entry point returns and keeps a
    predicate that the protocol steps keep. \<open>Server_Runs\<close>: calls as data, \<open>run\<close> over a list of
    calls, and the locale \<open>event_system\<close> that lifts steps to runs.
  \<^item> \<open>Rejections\<close>: oversized and malformed frames. \<open>Fragmentation\<close>: every handler commutes with
    adding bytes to the end of a receive buffer, so cutting the bytes differently changes nothing.
    \<open>Repeated_Init\<close>: INIT on an active connection.
  \<^item> \<open>Test_Client\<close>: the frame builders of the mock client in \<^verbatim>\<open>host/test_main.cpp\<close> and some of its scenarios,
    used as concrete inputs.

  Shown: every sequence of calls is safe (C1); votes are safe and a decision does not wait
  for nobody (C2--C4, C12, C13); the decision is a reference decision, with the selection
  characterised (C5--C10); handlers refine the protocol (C11); how the bytes are cut into
  calls does not matter (C21); all frames sent are complete and the callback is called on every
  change (C22, C23); bad frames close the connection (C24, C25); bookkeeping, timers and bounds
  (C26--C31, C38). C40 is a flaw: an INIT that is refused on an active connection still
  overwrites the node id. C2, C10, C12 and C27 therefore are about calls in which no peer repeats
  INIT on an active connection (\<open>init_once_run\<close>); without this condition they do not hold.

  \<^bold>\<open>Embedders.\<close>
  \<^item> \<open>Embedding\<close>: \<open>call\<close> performs one entry point and carries out the requests in \<open>outs\<close>. The locale
    \<open>transport\<close> is the contract of an implementation of \<open>Transport\<close>; in it the table of
    connections and the sessions stay in step.
  \<^item> \<open>Component\<close>: the component over the record \<open>esphome\<close>, one function per ESPHome call.
    \<open>Component_Facts\<close>, \<open>Component_Stream\<close>, \<open>Component_Sensors\<close>: its loop, clock, byte streams, sensors.
  \<^item> \<open>Posix_Host\<close>, \<open>Posix_Facts\<close>: the host program over the record \<open>posix\<close> of system calls. A call
    that can block or raise a signal has an outcome of type \<open>syscall\<close>: it returns, raises
    \<open>SIGPIPE\<close>, or does not return. The last two end the program; the field \<open>ended\<close> records it and
    whatever follows does nothing.
  \<^item> \<open>Platforms\<close>: a concrete network for each, on which all assumptions hold.

  Shown: \<open>setup\<close> and every \<open>loop\<close> return (C14), connections agree with sessions (C15), a peer
  receives whole frames in order (C16), sensors are current (C17), the clock is exact across
  wraps (C18); rounds and sends of the host complete unless a system call ends or blocks the
  program (C19, C20); the socket is bound to the port of the argument (C39). The host does not
  ignore \<open>SIGPIPE\<close> and sends with flags 0: in \<open>reset_peer_ends_host\<close> a peer that resets its connection ends it.

  \<^bold>\<open>Assumptions on the platforms\<close>, all hypotheses of the theorems that use them:
  \<open>esphome_ok\<close> and \<open>posix_ok\<close> bound what can keep a loop busy: the connections and bytes that arrive
  while \<open>loop\<close> runs (\<open>input\<close>), the signals that interrupt \<open>send\<close> (\<open>signals\<close>). Without such a bound the
  loops need not end: a peer that sends faster than the server reads keeps \<open>loop\<close> busy.
  \<open>posix_ok\<close> lets \<open>send\<close> raise \<open>SIGPIPE\<close> and lets \<open>send\<close>, \<open>recv\<close> and \<open>accept\<close> block for good.
  \<open>stream_ok\<close> and \<open>sends\<close> say that a socket accepts a prefix of what it is given, \<open>binds\<close> that a successful
  \<open>bind\<close> binds the socket to the port it is given, \<open>sensors_ok\<close> that a sensor shows what was last
  published to it. Sensor values are passed on as integers: how \<open>publish_state\<close> rounds them to \<open>float\<close>
  is left to the platform.

  \<^bold>\<open>Not modelled.\<close> Log output, \<open>dump_config\<close>, \<open>get_setup_priority\<close> and printed text have no effect on
  the state. The Python files (\<^verbatim>\<open>__init__.py\<close>, \<^verbatim>\<open>sensor.py\<close>, \<^verbatim>\<open>binary_sensor.py\<close>, \<^verbatim>\<open>text_sensor.py\<close>) are
  configuration schemas that the ESPHome compiler evaluates; all they do is generate calls
  of the setters. Of \<^verbatim>\<open>host/test_main.cpp\<close> the test driver, its checks and its mock
  transport are left out, since they exercise the server and are no part of it. The files under
  \<^verbatim>\<open>integration/\<close> and \<^verbatim>\<open>example/\<close> are deployment descriptions. ESPHome and the operating system
  are parameters. Memory is unbounded: a failing allocation is not modelled.
\<close>

section \<open>The server\<close>

subsection \<open>All runs\<close>

text \<open>C1: whatever the peers send and in whatever order the embedder calls the entry points,
  every call returns: no index is out of range, no loop runs forever. Between calls the
  server satisfies its invariant, no close is pending and nothing is being processed.\<close>

theorem server_safe: "\<exists>srv. run es (Server max_rx cb) = Some srv \<and> server_ok srv \<and> idle srv"
  by (rule run_total)

text \<open>C2: no split brain. When no peer repeats INIT on an active connection, a client whose last
  vote is an acknowledgement is a node of the one partition its cluster selected as quorate.\<close>

theorem acked_in_quorate_partition:
  assumes "init_once_run es (Server max_rx cb)" and "run es (Server max_rx cb) = Some srv"
    and "i < MAX_CLIENTS" "phase (sessions srv ! i) = ACTIVE" "last_ack_nack (sessions srv ! i) = Vote_ACK"
  shows "node_id (sessions srv ! i) \<in> node_ids (quorate_partition (clusters srv ! nat (cluster (sessions srv ! i))))"
  using run_once [OF assms(1)] assms(2-) by (auto simp: votes_ok_def granted_def)

theorem acked_in_quorate_partition_witness:
  "\<exists>srv. run first_node_acked (Server 32768 True) = Some srv \<and>
     node_id (sessions srv ! 0) \<in> node_ids (quorate_partition (clusters srv ! 0))"
proof -
  obtain srv where srv: "run first_node_acked (Server 32768 True) = Some srv"
    "phase (sessions srv ! 0) = ACTIVE" "cluster (sessions srv ! 0) = 0" "last_ack_nack (sessions srv ! 0) = Vote_ACK"
    using first_node_acked_run by (auto split: option.splits)
  then show ?thesis
    using acked_in_quorate_partition [OF first_node_acked_once srv(1), of 0] by (simp add: MAX_CLIENTS_def)
qed

text \<open>C3: NACK before ACK. While a cluster is sending acknowledgements, no member of it has a
  negative vote outstanding.\<close>

theorem nacks_before_acks:
  assumes "run es (Server max_rx cb) = Some srv" and "c < MAX_CLUSTERS" "cl_state (clusters srv ! c) = SENDING_ACKS"
    and "i < MAX_CLIENTS" "active_in (sessions srv ! i) (int c)"
  shows "ff_state (sessions srv ! i) \<noteq> SENDING_NACK"
proof -
  have ok: "server_ok srv" using run_total [of es max_rx cb] assms(1) by simp
  then have "SENDING_NACK \<notin> set (member_states srv (int c))"
    using assms(2,3) server_ok_clusters by (simp add: clusters_ok_def cluster_ok_def)
  moreover have "ff_state (sessions srv ! i) \<in> set (member_states srv (int c))"
    using assms(4,5) ok by (auto simp: member_states_def)
  ultimately show ?thesis by metis
qed

theorem nacks_before_acks_witness:
  "\<exists>srv. run first_node_acked (Server 32768 True) = Some srv \<and> ff_state (sessions srv ! 0) \<noteq> SENDING_NACK"
proof -
  obtain srv where srv: "run first_node_acked (Server 32768 True) = Some srv"
    "phase (sessions srv ! 0) = ACTIVE" "cluster (sessions srv ! 0) = 0" "cl_state (clusters srv ! 0) = SENDING_ACKS"
    using first_node_acked_run by (auto split: option.splits)
  then show ?thesis
    using nacks_before_acks [OF srv(1), of 0 0] by (simp add: MAX_CLIENTS_def MAX_CLUSTERS_def active_in_def)
qed

text \<open>C4: a decision never waits for nobody. While a cluster is sending negative votes, some
  active member has been sent one and has not answered it; while it is sending
  acknowledgements, some active member has not answered.\<close>

theorem decision_waits_for_member:
  assumes "run es (Server max_rx cb) = Some srv" and "c < MAX_CLUSTERS"
    and "cl_state (clusters srv ! c) = (if nack then SENDING_NACKS else SENDING_ACKS)"
  shows "\<exists>i<MAX_CLIENTS. active_in (sessions srv ! i) (int c) \<and>
    ff_state (sessions srv ! i) = (if nack then SENDING_NACK else SENDING_ACK) \<and>
    (nack \<longrightarrow> last_ack_nack (sessions srv ! i) = Vote_NACK)"
proof -
  have ok: "server_ok srv" using run_total [of es max_rx cb] assms(1) by simp
  then have "(if nack then SENDING_NACK else SENDING_ACK) \<in> set (member_states srv (int c))"
    using assms(2,3) server_ok_clusters by (simp add: clusters_ok_def cluster_ok_def)
  then obtain i where i: "i < MAX_CLIENTS" "active_in (sessions srv ! i) (int c)"
    "ff_state (sessions srv ! i) = (if nack then SENDING_NACK else SENDING_ACK)"
    using ok by (auto simp: member_states_def in_set_conv_nth)
  with server_ok_session [OF ok i(1)] show ?thesis by (auto simp: session_ok_def)
qed

theorem decision_waits_for_member_witness:
  "\<exists>srv. run lone_node_nacked (Server 32768 True) = Some srv \<and>
     (\<exists>i<MAX_CLIENTS. active_in (sessions srv ! i) 0 \<and> ff_state (sessions srv ! i) = SENDING_NACK \<and>
        last_ack_nack (sessions srv ! i) = Vote_NACK)"
proof -
  obtain srv where srv: "run lone_node_nacked (Server 32768 True) = Some srv"
    "cl_state (clusters srv ! 0) = SENDING_NACKS"
    using lone_node_nacked_run by (auto split: option.splits)
  then show ?thesis
    using decision_waits_for_member [OF srv(1), of 0 True] by (simp add: MAX_CLUSTERS_def)
qed

subsection \<open>The decision\<close>

text \<open>C5: \<open>ffsplit_do\<close>, with its passes over the sessions, computes the reference decision: an
  unstable membership waits; otherwise the partition is selected, every client outside it is
  sent a negative vote at once, and the clients inside it are acknowledged now if nobody lost
  and kept waiting otherwise.\<close>

theorem ffsplit_do_reference:
  assumes "length (sessions srv) = MAX_CLIENTS" and "tv_slot tv < MAX_CLIENTS"
    and "c = cluster (sessions srv ! tv_slot tv)" and "cluster_at srv c = Some cl"
  shows "ffsplit_do srv tv =
    (if \<not> ffsplit_is_stable srv tv
     then Some (set_cluster srv c (cl\<lparr>cl_state := WAITING_FOR_STABLE_MEMBERSHIP\<rparr>), NO_ERROR, Vote_WAIT_FOR_REPLY)
     else map_option (\<lambda>winner. (apply_decision srv tv c cl winner, NO_ERROR, Vote_NO_CHANGE))
       (ffsplit_select_partition srv tv))"
  using assms by (rule ffsplit_do_spec)

theorem ffsplit_do_reference_witness:
  "ffsplit_do (cluster_of [1, 2, 3] [(1, [1, 2]), (2, [1, 2]), (3, [3])]) (trigger (cluster_of [1, 2, 3] [(1, [1, 2]), (2, [1, 2]), (3, [3])]) 2) =
   Some (apply_decision (cluster_of [1, 2, 3] [(1, [1, 2]), (2, [1, 2]), (3, [3])])
      (trigger (cluster_of [1, 2, 3] [(1, [1, 2]), (2, [1, 2]), (3, [3])]) 2) 0
      (clusters (cluster_of [1, 2, 3] [(1, [1, 2]), (2, [1, 2]), (3, [3])]) ! 0) (Some [node 1, node 2]), NO_ERROR, Vote_NO_CHANGE)"
  (is "ffsplit_do ?srv ?tv = _")
proof -
  have hyps: "length (sessions ?srv) = MAX_CLIENTS" "tv_slot ?tv < MAX_CLIENTS" "0 = cluster (sessions ?srv ! tv_slot ?tv)"
    "cluster_at ?srv 0 = Some (clusters ?srv ! 0)" by code_simp+
  have "ffsplit_is_stable ?srv ?tv" "ffsplit_select_partition ?srv ?tv = Some (Some [node 1, node 2])" by code_simp+
  then show ?thesis unfolding ffsplit_do_reference [OF hyps] by simp
qed

text \<open>C6: a selected partition is the membership some active client of the cluster reported, and
  it has the size a quorum needs: more than half of the configured nodes, or exactly half
  when their number is even.\<close>

theorem selected_partition_sound:
  assumes "cluster_at srv c = Some cl" and "c = cluster (sessions srv ! tv_slot tv)"
    and "ffsplit_select_partition srv tv = Some (Some w)"
  shows "\<exists>i<MAX_CLIENTS. candidate srv tv c i \<and> w = eff_membership srv i tv \<and> quorate_size srv tv i"
  using assms by (rule select_partition_sound)

theorem selected_partition_sound_witness:
  "\<exists>i<MAX_CLIENTS. candidate (cluster_of [1, 2] [(1, [1]), (2, [2])]) (trigger (cluster_of [1, 2] [(1, [1]), (2, [2])]) 0) 0 i \<and>
     [node 1] = eff_membership (cluster_of [1, 2] [(1, [1]), (2, [2])]) i (trigger (cluster_of [1, 2] [(1, [1]), (2, [2])]) 0) \<and>
     quorate_size (cluster_of [1, 2] [(1, [1]), (2, [2])]) (trigger (cluster_of [1, 2] [(1, [1]), (2, [2])]) 0) i"
  by (rule selected_partition_sound) code_simp+

text \<open>C7: no partition is selected exactly when no client with a configuration and a membership reported
  one that can be elected: more than half of its configured nodes, or exactly half of them
  including an active client of the cluster or the tie breaker's preferred node. For a client
  whose report contains its own node this is a report of quorate size: more than half, or
  exactly half.\<close>

theorem no_partition_iff:
  assumes "cluster_at srv c = Some cl" and "c = cluster (sessions srv ! tv_slot tv)"
  shows "(ffsplit_select_partition srv tv = Some None \<longleftrightarrow> (\<forall>i<MAX_CLIENTS. candidate srv tv c i \<longrightarrow> \<not> electable srv tv c i)) \<and>
    (\<forall>i<MAX_CLIENTS. candidate srv tv c i \<longrightarrow> node_id (sessions srv ! i) \<in> node_ids (eff_membership srv i tv) \<longrightarrow>
       (electable srv tv c i \<longleftrightarrow> quorate_size srv tv i))"
  using select_partition_None [OF assms] electable_size by blast

theorem no_partition_iff_witness:
  "ffsplit_select_partition (cluster_of [1, 2, 3] [(1, [1]), (2, [2])]) (trigger (cluster_of [1, 2, 3] [(1, [1]), (2, [2])]) 1) = Some None"
  (is "ffsplit_select_partition ?srv ?tv = _")
proof -
  have hyps: "cluster_at ?srv 0 = Some (clusters ?srv ! 0)" "0 = cluster (sessions ?srv ! tv_slot ?tv)" by code_simp+
  have "\<forall>i<MAX_CLIENTS. candidate ?srv ?tv 0 i \<longrightarrow> \<not> electable ?srv ?tv 0 i" by code_simp
  with no_partition_iff [OF hyps] show ?thesis by blast
qed

text \<open>C8: when the clients agree on the configuration and their memberships split the cluster, a
  partition with more than half of the nodes is the one selected, whatever the heuristics,
  the tie breaker and the previous partition say.\<close>

theorem majority_selected:
  assumes "cluster_at srv c = Some cl" and "c = cluster (sessions srv ! tv_slot tv)"
    and "lists_itself srv tv c" and "proper_split srv tv c"
    and "i < MAX_CLIENTS" "candidate srv tv c i" "majority srv tv i"
  shows "\<exists>w. ffsplit_select_partition srv tv = Some (Some w) \<and> node_ids w = node_ids (eff_membership srv i tv)"
  using assms by (rule select_partition_majority)

theorem majority_selected_witness:
  "\<exists>w. ffsplit_select_partition (cluster_of [1, 2, 3, 4] [(1, [1]), (2, [2, 3, 4]), (3, [2, 3, 4])])
       (trigger (cluster_of [1, 2, 3, 4] [(1, [1]), (2, [2, 3, 4]), (3, [2, 3, 4])]) 0) = Some (Some w) \<and> node_ids w = {2, 3, 4}"
  (is "\<exists>w. ffsplit_select_partition ?srv ?tv = _ \<and> _")
proof -
  have hyps: "cluster_at ?srv 0 = Some (clusters ?srv ! 0)" "0 = cluster (sessions ?srv ! tv_slot ?tv)" "lists_itself ?srv ?tv 0"
    "proper_split ?srv ?tv 0" "1 < MAX_CLIENTS" "candidate ?srv ?tv 0 1" "majority ?srv ?tv 1" by code_simp+
  have "node_ids (eff_membership ?srv 1 ?tv) = {2, 3, 4}" by code_simp
  then show ?thesis using majority_selected [OF hyps] by simp
qed



text \<open>C10: what \<open>ffsplit_is_stable\<close> tests. After any calls in which no peer repeats INIT on an active
  connection, and for a membership that is leaving, empty or contains the client that reports
  it, the test holds exactly when all clients of the cluster have the same configured nodes and
  any client named in another's membership has the same ring and the same membership.\<close>

theorem stable_iff:
  assumes "init_once_run es (Server max_rx cb)" and "run es (Server max_rx cb) = Some srv"
    and "c = cluster (sessions srv ! tv_slot tv)"
    and "\<not> tv_leaving tv \<Longrightarrow> tv_membership tv \<noteq> [] \<Longrightarrow> node_id (sessions srv ! tv_slot tv) \<in> node_ids (tv_membership tv)"
  shows "ffsplit_is_stable srv tv \<longleftrightarrow>
    (\<forall>i<MAX_CLIENTS. \<forall>j<MAX_CLIENTS. in_walk srv c tv i \<longrightarrow> in_walk srv c tv j \<longrightarrow>
       node_ids (eff_config srv i tv) = node_ids (eff_config srv j tv) \<and>
       (node_id (sessions srv ! j) \<in> node_ids (eff_membership srv i tv) \<longrightarrow>
          eff_ring srv i tv = eff_ring srv j tv \<and>
          node_ids (eff_membership srv i tv) = node_ids (eff_membership srv j tv)))"
proof -
  have "votes_ok srv" using run_once [OF assms(1)] assms(2) by auto
  then have votes: "peers_differ srv" "\<forall>i<MAX_CLIENTS. granted srv (sessions srv ! i)" by (simp_all add: votes_ok_def)
  have "unique_ids srv tv c"
    using votes(1) unfolding peers_differ_def unique_ids_def in_walk_def active_in_def by metis
  moreover have "lists_itself srv tv c"
    using votes(2) assms(4) by (auto simp: granted_def lists_itself_def in_walk_def active_in_def eff_membership_def)
  ultimately show ?thesis by (rule ffsplit_is_stable_iff [OF assms(3)])
qed

theorem stable_iff_witness:
  "\<exists>srv. run configured_pair (Server 32768 True) = Some srv \<and>
     \<not> ffsplit_is_stable srv ((trigger srv 0)\<lparr>tv_membership := [node 4, node 2]\<rparr>)"
proof -
  obtain srv where srv: "run configured_pair (Server 32768 True) = Some srv"
    using run_once [OF configured_pair_once] by auto
  let ?tv = "(trigger srv 0)\<lparr>tv_membership := [node 4, node 2]\<rparr>"
  have facts: "cluster (sessions srv ! 0) = 0" "node_id (sessions srv ! 0) \<in> node_ids (tv_membership ?tv)"
    "in_walk srv 0 ?tv 0" "in_walk srv 0 ?tv 1" "node_id (sessions srv ! 1) \<in> node_ids (eff_membership srv 0 ?tv)"
    "node_ids (eff_membership srv 0 ?tv) \<noteq> node_ids (eff_membership srv 1 ?tv)"
    using configured_pair_run unfolding srv option.case Let_def by blast+
  have slot: "tv_slot ?tv = 0" by (simp add: trigger_def Let_def)
  then have hyps: "0 = cluster (sessions srv ! tv_slot ?tv)" "node_id (sessions srv ! tv_slot ?tv) \<in> node_ids (tv_membership ?tv)"
    using facts(1,2) by (simp_all only:)
  have "0 < MAX_CLIENTS" "1 < MAX_CLIENTS" by (simp_all add: MAX_CLIENTS_def)
  then have "\<not> ffsplit_is_stable srv ?tv"
    unfolding stable_iff [OF configured_pair_once srv hyps] using facts(3-6) by blast
  with srv show ?thesis by blast
qed

subsection \<open>Messages\<close>

text \<open>C11: the handlers refine the protocol. Handling one frame of a connected client, whatever
  it contains, returns and is one step of the relation \<open>frame_step\<close>; a session becomes
  active only by an INIT frame.\<close>

theorem handle_frame_refines:
  assumes "server_ok srv" "processing srv" "slot < MAX_CLIENTS"
    and "phase (sessions srv ! slot) \<noteq> FREE" "\<not> schedule_disconnect (sessions srv ! slot)"
  shows "\<exists>srv'. handle_frame srv slot type frame payload now = Some srv' \<and>
    frame_step (type = MsgType_INIT) srv slot srv' \<and> server_ok srv' \<and>
    (type \<noteq> MsgType_INIT \<longrightarrow> (phase (sessions srv' ! slot) = ACTIVE \<longleftrightarrow> phase (sessions srv ! slot) = ACTIVE))"
proof -
  obtain srv' where srv': "handle_frame srv slot type frame payload now = Some srv'"
    and st: "frame_step (type = MsgType_INIT) srv slot srv'" using handle_frame_step [OF assms] by blast
  have "server_ok srv'" using frame_step_server_ok [OF st assms(1,3,4)] .
  moreover have "phase (sessions srv' ! slot) = ACTIVE \<longleftrightarrow> phase (sessions srv ! slot) = ACTIVE" if "type \<noteq> MsgType_INIT"
    using frame_step_phase [OF _ assms(1,3,4), of srv'] st that by simp
  ultimately show ?thesis using srv' st by blast
qed

definition handshaking :: server where
  "handshaking = (set_session (Server 32768 True) 0 (Session\<lparr>phase := WAIT_INIT, cluster_name := ''testcluster''\<rparr>))\<lparr>processing := True\<rparr>"

lemma handshaking_ok: "server_ok handshaking"
proof -
  have "server_ok (set_session (Server 32768 True) 0 (Session\<lparr>phase := WAIT_INIT, cluster_name := ''testcluster''\<rparr>))"
    by (rule server_ok_set_inactive [OF Server_ok]) (simp_all add: MAX_CLIENTS_def session_ok_def Session_def Server_def)
  then show ?thesis by (simp add: handshaking_def)
qed

theorem handle_frame_refines_witness:
  "\<exists>srv'. handle_frame handshaking 0 MsgType_ECHO_REQUEST [] [] 0 = Some srv' \<and> frame_step False handshaking 0 srv' \<and> server_ok srv'"
  using handle_frame_refines [OF handshaking_ok, of 0 MsgType_ECHO_REQUEST "[]" "[]" 0]
  by (simp add: handshaking_def MAX_CLIENTS_def Server_def Session_def) blast

text \<open>C12: acknowledgements on the wire. Calls in which no peer repeats INIT on an active connection end
  in states with the invariants \<open>server_ok\<close> and \<open>votes_ok\<close>. From such a state, handling one frame
  of a connected client (not INIT on an active connection) and taking a client out of its
  cluster, which is how disconnects, timeouts and closes end a session, keep both invariants.
  Whenever one of them sends some client a message that reads as an acknowledgement, that
  client is active, its node is in the partition its cluster selected, and no member of the
  cluster has a negative vote outstanding.\<close>

theorem ack_frames_safe:
  "(init_once_run es (Server max_rx cb) \<longrightarrow> (\<exists>srv. run es (Server max_rx cb) = Some srv \<and> server_ok srv \<and> votes_ok srv)) \<and>
   (server_ok srv \<and> votes_ok srv \<and> slot < MAX_CLIENTS \<and>
    (processing srv \<and> phase (sessions srv ! slot) \<noteq> FREE \<and> \<not> schedule_disconnect (sessions srv ! slot) \<and>
       (type = MsgType_INIT \<longrightarrow> phase (sessions srv ! slot) \<noteq> ACTIVE) \<and> framed frame payload \<and>
       handle_frame srv slot type frame payload now = Some srv' \<or>
     map_option (\<lambda>srv1. set_session srv1 slot Session) (leave_cluster srv slot) = Some srv') \<longrightarrow>
    server_ok srv' \<and> votes_ok srv' \<and>
    (\<exists>new. outs srv' = outs srv @ new \<and> (\<forall>e\<in>set new. \<forall>i. acks e i \<longrightarrow>
      phase (sessions srv' ! i) = ACTIVE \<and>
      node_id (sessions srv' ! i) \<in> node_ids (quorate_partition (clusters srv' ! nat (cluster (sessions srv' ! i)))) \<and>
      SENDING_NACK \<notin> set (member_states srv' (cluster (sessions srv' ! i))))))"
  using run_once [of es max_rx cb] handle_frame_keeps_votes [of srv slot type frame payload now srv']
    leave_cluster_keeps_votes [of srv slot srv'] acks_safe [of srv' srv] by blast

theorem ack_frames_safe_witness:
  "\<exists>srv srv'. handle_frame srv 0 MsgType_NODE_LIST membership_2_4 (drop 6 membership_2_4) 1000 = Some srv' \<and>
     SendFrame 0 (build_vote_info 1 ring_2_100 Vote_ACK) \<in> set (outs srv') \<and>
     node_id (sessions srv' ! 0) \<in> node_ids (quorate_partition (clusters srv' ! nat (cluster (sessions srv' ! 0))))"
proof -
  obtain srv srv' where srv: "server_ok srv" "votes_ok srv" "processing srv" "phase (sessions srv ! 0) = ACTIVE"
    "\<not> schedule_disconnect (sessions srv ! 0)"
    and h: "handle_frame srv 0 MsgType_NODE_LIST membership_2_4 (drop 6 membership_2_4) 1000 = Some srv'"
    and sent: "SendFrame 0 (build_vote_info 1 ring_2_100 Vote_ACK) \<in> set (drop (length (outs srv)) (outs srv'))"
    using about_to_ack .
  have "0 < MAX_CLIENTS" "framed membership_2_4 (drop 6 membership_2_4)" by code_simp+
  with ack_frames_safe [THEN conjunct2, of srv 0 MsgType_NODE_LIST membership_2_4 "drop 6 membership_2_4" 1000 srv'] srv h
  obtain new where "outs srv' = outs srv @ new"
    "\<forall>e\<in>set new. \<forall>i. acks e i \<longrightarrow>
       node_id (sessions srv' ! i) \<in> node_ids (quorate_partition (clusters srv' ! nat (cluster (sessions srv' ! i))))"
    by auto
  moreover from this(1) sent have "SendFrame 0 (build_vote_info 1 ring_2_100 Vote_ACK) \<in> set new" by simp
  ultimately show ?thesis using h by (intro exI [of _ srv] exI [of _ srv']) auto
qed

text \<open>C13: liveness of a split decision. When the last client that was sent a negative vote answers
  it, every member of the cluster that waits for its acknowledgement is sent one, with the
  next sequence number, and nobody else is sent anything.\<close>

theorem last_nack_reply_acks_winners:
  assumes "server_ok srv" "slot < MAX_CLIENTS" "phase (sessions srv ! slot) = ACTIVE"
    and "m_seq_number_set m" "m_seq_number m = vote_info_seq (sessions srv ! slot)" and "c = cluster (sessions srv ! slot)"
    and "cl_state (clusters srv ! nat c) = SENDING_NACKS"
    and "\<And>i. i < MAX_CLIENTS \<Longrightarrow> i \<noteq> slot \<Longrightarrow> active_in (sessions srv ! i) c \<Longrightarrow> ff_state (sessions srv ! i) \<noteq> SENDING_NACK"
  shows "\<exists>srv'. handle_vote_info_reply srv slot m = Some (notify srv') \<and>
    outs srv' = outs srv @ map (\<lambda>i. SendFrame i (build_vote_info (vote_info_seq (sessions srv ! i) + 1) (last_ring_id (sessions srv ! i)) Vote_ACK))
      (filter (\<lambda>i. i \<noteq> slot \<and> active_in (sessions srv ! i) c \<and> ff_state (sessions srv ! i) = SENDING_ACK) [0..<MAX_CLIENTS])"
proof -
  define srv1 where s1: "srv1 = set_session srv slot (acknowledged (sessions srv ! slot))"
  have len: "length (sessions srv) = MAX_CLIENTS" using assms(1) by simp
  have no: "SENDING_NACK \<notin> set (member_states srv1 c)"
    unfolding set_member_states using assms(2,8) len by (auto simp: s1 nth_update acknowledged_def)
  show ?thesis
    using assms(1-5) assms(6) refl s1
  proof (cases rule: vote_info_reply_cases)
    case promote
    have "filter (\<lambda>i. active_in (sessions srv1 ! i) c \<and> ff_state (sessions srv1 ! i) = SENDING_ACK) [0..<MAX_CLIENTS] =
        filter (\<lambda>i. i \<noteq> slot \<and> active_in (sessions srv ! i) c \<and> ff_state (sessions srv ! i) = SENDING_ACK) [0..<MAX_CLIENTS]"
      using len by (intro filter_cong) (auto simp: s1 nth_update acknowledged_def)
    then show ?thesis
      using promote(3) assms(2) len
      by (auto simp: s1 nth_update)
  qed (use assms(7) no in auto)
qed

theorem last_nack_reply_acks_winners_witness:
  "\<exists>srv srv'. run split_decision (Server 32768 True) = Some srv \<and>
     handle_vote_info_reply srv 0 (MsgDecoded\<lparr>m_seq_number_set := True, m_seq_number := 1\<rparr>) = Some (notify srv') \<and>
     outs srv' = outs srv @ [SendFrame 1 (build_vote_info 1 (last_ring_id (sessions srv ! 1)) Vote_ACK)]"
proof -
  obtain srv where run: "run split_decision (Server 32768 True) = Some srv"
    and two: "map phase (take 2 (sessions srv)) = [ACTIVE, ACTIVE]" "map cluster (take 2 (sessions srv)) = [0, 0]"
      "map vote_info_seq (take 2 (sessions srv)) = [1, 0]"
    and cl: "cl_state (clusters srv ! 0) = SENDING_NACKS"
    and ff: "map ff_state (sessions srv) = SENDING_NACK # SENDING_ACK # replicate 6 Client_WAITING_FOR_CHANGE"
    using split_decision_run by (auto split: option.splits)
  have ok: "server_ok srv" using run_total [of split_decision 32768 True] run by simp
  have len: "length (sessions srv) = 8" using ok by (simp add: MAX_CLIENTS_def)
  have fields: "phase (sessions srv ! i) = ACTIVE" "cluster (sessions srv ! i) = 0" "vote_info_seq (sessions srv ! i) = (if i = 0 then 1 else 0)"
    if "i < 2" for i
    using that len arg_cong [OF two(1), of "\<lambda>xs. xs ! i"] arg_cong [OF two(2), of "\<lambda>xs. xs ! i"] arg_cong [OF two(3), of "\<lambda>xs. xs ! i"]
    by (cases i; simp; cases "i - 1"; simp)+
  have state: "ff_state (sessions srv ! i) = (if i = 0 then SENDING_NACK else if i = 1 then SENDING_ACK else Client_WAITING_FOR_CHANGE)"
    if "i < MAX_CLIENTS" for i
    using arg_cong [OF ff, of "\<lambda>xs. xs ! i"] that len by (auto simp: MAX_CLIENTS_def nth_Cons split: nat.splits)
  have "filter (\<lambda>i. i \<noteq> 0 \<and> active_in (sessions srv ! i) 0 \<and> ff_state (sessions srv ! i) = SENDING_ACK) [0..<MAX_CLIENTS] = [1]"
    using fields [of 1] by (simp add: active_in_def state MAX_CLIENTS_def upt_rec)
  then show ?thesis
    using last_nack_reply_acks_winners [OF ok, of 0 "MsgDecoded\<lparr>m_seq_number_set := True, m_seq_number := 1\<rparr>" 0] fields [of 0] fields [of 1] cl state run
    by (auto simp: MAX_CLIENTS_def)
qed

subsection \<open>Members and clusters\<close>

text \<open>C26: bookkeeping of clusters. After any sequence of calls the member count of each of the two
  clusters is the number of active sessions in it, a cluster is in use exactly when it has a
  member, an unused cluster is reset, and no two clusters in use have the same name.\<close>

theorem cluster_bookkeeping:
  assumes "run es (Server max_rx cb) = Some srv" and "c < MAX_CLUSTERS" "d < MAX_CLUSTERS"
  shows "cl_members (clusters srv ! c) = int (length (filter (\<lambda>s. active_in s (int c)) (sessions srv))) \<and>
    (cl_used (clusters srv ! c) \<longleftrightarrow> cl_members (clusters srv ! c) > 0) \<and>
    (\<not> cl_used (clusters srv ! c) \<longrightarrow> clusters srv ! c = Cluster) \<and>
    (cl_used (clusters srv ! c) \<longrightarrow> cl_used (clusters srv ! d) \<longrightarrow> cl_name (clusters srv ! c) = cl_name (clusters srv ! d) \<longrightarrow> c = d)"
proof -
  have ok: "server_ok srv" using run_total [of es max_rx cb] assms(1) by simp
  with server_ok_clusters(1) [OF ok assms(2)] server_ok_clusters(2) [OF ok assms(2,3)] show ?thesis
    by (auto simp: cluster_ok_def member_states_def)
qed

theorem cluster_bookkeeping_witness:
  "\<exists>srv. run first_node_acked (Server 32768 True) = Some srv \<and>
     cl_members (clusters srv ! 0) = int (length (filter (\<lambda>s. active_in s 0) (sessions srv)))"
proof -
  obtain srv where "run first_node_acked (Server 32768 True) = Some srv"
    using first_node_acked_run by (auto split: option.splits)
  then show ?thesis using cluster_bookkeeping [of first_node_acked 32768 True srv 0 0] by (simp add: MAX_CLUSTERS_def)
qed

text \<open>C27: what the members of a cluster agree on. After any calls in which no peer repeats INIT on an
  active connection, the configured and reported node lists of an active client, unless empty,
  contain its own node, and every other active client of its cluster has another node id and the
  same tie breaker.\<close>

theorem members_consistent:
  assumes "init_once_run es (Server max_rx cb)" "run es (Server max_rx cb) = Some srv"
    and "i < MAX_CLIENTS" "phase (sessions srv ! i) = ACTIVE"
  shows "(config_list (sessions srv ! i) \<noteq> [] \<longrightarrow> node_id (sessions srv ! i) \<in> node_ids (config_list (sessions srv ! i))) \<and>
    (membership_list (sessions srv ! i) \<noteq> [] \<longrightarrow> node_id (sessions srv ! i) \<in> node_ids (membership_list (sessions srv ! i))) \<and>
    (\<forall>j<MAX_CLIENTS. j \<noteq> i \<longrightarrow> active_in (sessions srv ! j) (cluster (sessions srv ! i)) \<longrightarrow>
       node_id (sessions srv ! i) \<noteq> node_id (sessions srv ! j) \<and>
       tie_breaker_eq (tie_breaker (sessions srv ! i)) (tie_breaker (sessions srv ! j)))"
  using run_once [OF assms(1)] assms(2-) by (auto simp: votes_ok_def peers_differ_def granted_def active_in_def)

theorem members_consistent_witness:
  "\<exists>srv. run two_joined (Server 32768 True) = Some srv \<and> node_id (sessions srv ! 0) \<noteq> node_id (sessions srv ! 1)"
proof -
  obtain srv where srv: "run two_joined (Server 32768 True) = Some srv" and
    two: "phase (sessions srv ! 0) = ACTIVE" "phase (sessions srv ! 1) = ACTIVE" "cluster (sessions srv ! 0) = cluster (sessions srv ! 1)"
    using two_joined_run by (auto split: option.splits)
  then show ?thesis using members_consistent [OF two_joined_once srv, of 0] by (auto simp: MAX_CLIENTS_def active_in_def)
qed

subsection \<open>Connections\<close>

text \<open>C28: \<open>on_connect\<close> takes the lowest free slot, starts its session fresh and leaves the other
  sessions alone; when all slots are taken the connection is refused and nothing changes.\<close>

theorem on_connect_slot:
  "on_connect srv now name =
    (if \<forall>i<MAX_CLIENTS. phase (sessions srv ! i) \<noteq> FREE then (srv, -1)
     else let i = LEAST i. phase (sessions srv ! i) = FREE in
       (notify (set_session srv i (Session\<lparr>phase := WAIT_PREINIT, peer := name, deadline_ms := now + PREACTIVE_TIMEOUT_MS\<rparr>)), int i))"
proof (cases "List.find (\<lambda>i. phase (sessions srv ! i) = FREE) [0..<MAX_CLIENTS]")
  case None
  then have "\<forall>i<MAX_CLIENTS. phase (sessions srv ! i) \<noteq> FREE" by (simp add: find_None_iff)
  with None show ?thesis by (simp add: on_connect_def)
next
  case (Some i)
  then have i: "i < MAX_CLIENTS" "phase (sessions srv ! i) = FREE" "\<forall>j<i. phase (sessions srv ! j) \<noteq> FREE"
    by (auto simp: find_Some_iff)
  then have "(LEAST i. phase (sessions srv ! i) = FREE) = i" by (intro Least_equality) (auto simp: not_less [symmetric])
  with Some i show ?thesis by (auto simp: on_connect_def Let_def)
qed

theorem on_connect_slot_witness:
  "on_connect (Server 32768 True) 5 ''peer'' =
     (let i = LEAST i. phase (sessions (Server 32768 True) ! i) = FREE in
       (notify (set_session (Server 32768 True) i
          (Session\<lparr>phase := WAIT_PREINIT, peer := ''peer'', deadline_ms := 5 + PREACTIVE_TIMEOUT_MS\<rparr>)), int i))"
proof -
  have "\<not> (\<forall>i<MAX_CLIENTS. phase (sessions (Server 32768 True) ! i) \<noteq> FREE)" by code_simp
  then show ?thesis unfolding on_connect_slot by (rule if_not_P)
qed

text \<open>C29: \<open>tick\<close> removes exactly the connections whose deadline has passed. Every other session
  keeps everything but its voting state.\<close>

theorem tick_closes_expired:
  assumes "server_ok srv" "idle srv"
  shows "\<exists>srv'. tick srv now = Some srv' \<and> server_ok srv' \<and> idle srv' \<and>
    (\<forall>i<MAX_CLIENTS. core (sessions srv' ! i) =
       (if phase (sessions srv ! i) \<noteq> FREE \<and> deadline_ms (sessions srv ! i) \<noteq> 0 \<and> deadline_ms (sessions srv ! i) \<le> now
        then Session else core (sessions srv ! i)))"
  using total.tick_inv [of srv now] assms by (auto simp: total.quiet_def closes_def expired_def)

theorem tick_closes_expired_witness:
  "\<exists>srv'. tick (fst (on_connect (Server 32768 True) 1000 ''peer'')) 31000 = Some srv' \<and> core (sessions srv' ! 0) = Session"
proof -
  let ?srv = "fst (on_connect (Server 32768 True) 1000 ''peer'')"
  have ok: "server_ok ?srv" "idle ?srv"
    using total.connect_inv(1) [of "Server 32768 True" 1000 "''peer''"] Server_ok Server_idle by (simp_all add: total.quiet_def)
  have "phase (sessions ?srv ! 0) \<noteq> FREE \<and> deadline_ms (sessions ?srv ! 0) \<noteq> 0 \<and> deadline_ms (sessions ?srv ! 0) \<le> 31000" "0 < MAX_CLIENTS"
    by code_simp+
  with tick_closes_expired [OF ok, of 31000] show ?thesis by auto
qed

text \<open>C30: timers. When a call of \<open>on_data\<close> leaves the peer active, the peer is given one and a half of
  its heartbeat intervals, rounded down, from the time of the call, and the interval is between
  1 and 120 seconds. A peer that has not finished its handshake is given 30 seconds.\<close>

theorem dpd_interval_bounds:
  assumes "run es (Server max_rx cb) = Some srv" "i < MAX_CLIENTS" "on_data srv (int i) d now = Some srv'"
  shows "(phase (sessions srv' ! i) = ACTIVE \<longrightarrow>
      deadline_ms (sessions srv' ! i) = now + of_nat (3 * unat (heartbeat_ms (sessions srv' ! i)) div 2) \<and>
      1000 \<le> unat (heartbeat_ms (sessions srv' ! i)) \<and> unat (heartbeat_ms (sessions srv' ! i)) \<le> 120000) \<and>
    (phase (sessions srv' ! i) = WAIT_PREINIT \<or> phase (sessions srv' ! i) = WAIT_INIT \<longrightarrow> deadline_ms (sessions srv' ! i) = now + 30000)"
proof -
  have q: "total.quiet srv" using run_total [of es max_rx cb] assms(1) by (simp add: total.quiet_def)
  then have fr: "phase (sessions srv' ! i) \<noteq> FREE \<Longrightarrow> fresh now (sessions srv' ! i)" using on_data_fresh [OF _ assms(2,3)] by simp
  have "server_ok srv'" using run_total [of "es @ [Data (int i) d now]" max_rx cb] assms(1,3) by (simp add: run_snoc)
  then have "session_ok (sessions srv' ! i)" using server_ok_session assms(2) by simp
  then have hb: "1000 \<le> unat (heartbeat_ms (sessions srv' ! i))" "unat (heartbeat_ms (sessions srv' ! i)) \<le> 120000" if "phase (sessions srv' ! i) = ACTIVE"
    using that by (simp_all add: session_ok_def HEARTBEAT_MIN_MS_def HEARTBEAT_MAX_MS_def word_le_nat_alt)
  then have "heartbeat_ms (sessions srv' ! i) > 0" if "phase (sessions srv' ! i) = ACTIVE"
    using that by (auto simp: word_gt_0)
  with fr hb show ?thesis
    by (auto simp: fresh_iff dpd_interval_def PREACTIVE_TIMEOUT_MS_def)
qed

theorem dpd_interval_bounds_witness:
  "\<exists>srv srv'. run first_node_acked (Server 32768 True) = Some srv \<and> on_data srv 0 [] 5000 = Some srv' \<and>
     deadline_ms (sessions srv' ! 0) = 17000"
proof -
  obtain srv srv' where srv: "run first_node_acked (Server 32768 True) = Some srv" "on_data srv (int 0) [] 5000 = Some srv'"
    "phase (sessions srv' ! 0) = ACTIVE" "heartbeat_ms (sessions srv' ! 0) = 8000"
    using first_node_acked_called by (auto split: option.splits)
  with dpd_interval_bounds [OF srv(1) _ srv(2)] show ?thesis by (auto simp: MAX_CLIENTS_def)
qed

text \<open>C31: the server buffers less than one frame of the largest size per connection, whatever the
  peers send.\<close>

theorem receive_buffers_bounded:
  assumes "run es (Server max_rx cb) = Some srv" "i < MAX_CLIENTS"
  shows "length (rx (sessions srv ! i)) < MSG_HEADER_LEN + unat (max_rx_frame srv)"
  using run_rx_bounded [OF assms(1)] assms(2) by (simp add: rx_bounded_def)

theorem receive_buffers_bounded_witness:
  "\<exists>srv. run first_node_acked (Server 32768 True) = Some srv \<and> length (rx (sessions srv ! 0)) < MSG_HEADER_LEN + unat (max_rx_frame srv)"
proof -
  obtain srv where "run first_node_acked (Server 32768 True) = Some srv"
    using first_node_acked_run by (auto split: option.splits)
  then show ?thesis using receive_buffers_bounded [of first_node_acked 32768 True srv 0] by (simp add: MAX_CLIENTS_def)
qed

section \<open>The wire format\<close>

text \<open>C32: the message decoder, a loop of \<open>TlvIterator::next\<close> over the payload, never reads outside
  the payload and accepts exactly the payloads that split into options each of which the
  decoder accepts.\<close>

theorem msg_decode_reference:
  "msg_decode t bs =
     Some (case parse_tlvs bs of None \<Rightarrow> None
           | Some ts \<Rightarrow> fold_ub msg_decode_option ts (MsgDecoded\<lparr>m_type := t\<rparr>))"
  by (rule msg_decode_code)

text \<open>C33: a payload is accepted exactly if it is the encoding of a list of options, each shorter
  than 64 KiB and each accepted in turn; encoding and splitting are inverse to each other.\<close>

theorem accepted_payloads:
  "msg_decode t bs = Some (Some m) \<longleftrightarrow>
     (\<exists>ts. bs = tlv_encode ts \<and> (\<forall>(x, d)\<in>set ts. length d < 2 ^ 16) \<and>
       fold_ub msg_decode_option ts (MsgDecoded\<lparr>m_type := t\<rparr>) = Some m)"
proof -
  have "parse_tlvs bs = Some ts \<longleftrightarrow> bs = tlv_encode ts \<and> (\<forall>(x, d)\<in>set ts. length d < 2 ^ 16)" for ts
    using parse_tlvs_encode parse_tlvs_sound by blast
  note iff = this
  have "msg_decode t bs = Some (Some m) \<longleftrightarrow>
      (\<exists>ts. parse_tlvs bs = Some ts \<and> fold_ub msg_decode_option ts (MsgDecoded\<lparr>m_type := t\<rparr>) = Some m)"
    by (simp add: msg_decode_code split: option.split)
  then show ?thesis unfolding iff by (simp only: conj_assoc)
qed

theorem accepted_payloads_witness:
  "\<exists>m. msg_decode MsgType_VOTE_INFO_REPLY (tlv_encode [(0, [0, 0, 0, 7])]) = Some (Some m) \<and> m_seq_number m = 7"
proof -
  have "case fold_ub msg_decode_option [(0, [0, 0, 0, 7])] (MsgDecoded\<lparr>m_type := MsgType_VOTE_INFO_REPLY\<rparr>) of
    None \<Rightarrow> False | Some m \<Rightarrow> m_seq_number m = 7" by code_simp
  then obtain m where m: "fold_ub msg_decode_option [(0, [0, 0, 0, 7])] (MsgDecoded\<lparr>m_type := MsgType_VOTE_INFO_REPLY\<rparr>) = Some m" "m_seq_number m = 7"
    by (auto split: option.splits)
  have "\<exists>ts. tlv_encode [(0, [0, 0, 0, 7])] = tlv_encode ts \<and> (\<forall>(x, d)\<in>set ts. length d < 2 ^ 16) \<and>
      fold_ub msg_decode_option ts (MsgDecoded\<lparr>m_type := MsgType_VOTE_INFO_REPLY\<rparr>) = Some m"
    by (rule exI [of _ "[(0, [0, 0, 0, 7])]"]) (simp only: m; simp)
  then show ?thesis using accepted_payloads [THEN iffD2] m(2) by blast
qed

text \<open>C34: a decoded message never holds more than sixteen nodes, and it has the type of its frame.\<close>

theorem decoded_message_bounds:
  assumes "msg_decode t bs = Some (Some m)"
  shows "length (m_nodes m) \<le> MAX_NODES_PER_LIST \<and> m_type m = t"
  using msg_decode_bounds [OF assms] by simp

theorem decoded_message_bounds_witness:
  "\<exists>m. msg_decode MsgType_NODE_LIST (drop 6 membership_2_4) = Some (Some m) \<and> length (m_nodes m) \<le> MAX_NODES_PER_LIST"
proof -
  obtain m where "msg_decode MsgType_NODE_LIST (drop 6 membership_2_4) = Some (Some m)"
    using membership_2_4_decodes by (auto split: option.splits)
  then show ?thesis using decoded_message_bounds by blast
qed

text \<open>C35: every reply the server builds decodes to the values it was built from. The options that the
  server's own decoder skips are read from the parsed options of the frame: the error code of
  an error message and of an INIT reply, and the size limits and supported messages, options
  and algorithms of an INIT reply. Different error codes have different wire numbers.\<close>

theorem replies_roundtrip:
  "decode_frame (build_preinit_reply seq_set seq tls cert) =
     Some (Some (MsgDecoded\<lparr>m_type := MsgType_PREINIT_REPLY,
       m_seq_number := (if seq_set then seq else 0), m_seq_number_set := seq_set,
       m_tls_supported := tls, m_tls_supported_set := True,
       m_tls_client_cert_required := cert, m_tls_client_cert_required_set := True\<rparr>)) \<and>
   decode_frame (build_server_error seq_set seq code) =
     Some (Some (MsgDecoded\<lparr>m_type := MsgType_SERVER_ERROR,
       m_seq_number := (if seq_set then seq else 0), m_seq_number_set := seq_set\<rparr>)) \<and>
   decode_frame (build_init_reply seq_set seq code msgs opts max_req max_rep) =
     Some (Some (MsgDecoded\<lparr>m_type := MsgType_INIT_REPLY,
       m_seq_number := (if seq_set then seq else 0), m_seq_number_set := seq_set,
       m_supported_messages_present := msgs, m_supported_options_present := opts\<rparr>)) \<and>
   decode_frame (build_set_option_reply seq_set seq hb_set hb kaptb_set kaptb) =
     Some (Some (MsgDecoded\<lparr>m_type := MsgType_SET_OPTION_REPLY,
       m_seq_number := (if seq_set then seq else 0), m_seq_number_set := seq_set,
       m_heartbeat_interval := (if hb_set then hb else 0), m_heartbeat_interval_set := hb_set,
       m_keep_active_partition_tie_breaker := (if kaptb_set then kaptb else 0),
       m_keep_active_partition_tie_breaker_set := kaptb_set\<rparr>)) \<and>
   decode_frame (build_node_list_reply seq ty ring v) =
     Some (Some (MsgDecoded\<lparr>m_type := MsgType_NODE_LIST_REPLY, m_seq_number := seq, m_seq_number_set := True,
       m_node_list_type := ty, m_node_list_type_set := True, m_ring_id := ring, m_ring_id_set := True,
       m_vote := v, m_vote_set := True\<rparr>)) \<and>
   decode_frame (build_vote_info seq ring v) =
     Some (Some (MsgDecoded\<lparr>m_type := MsgType_VOTE_INFO, m_seq_number := seq, m_seq_number_set := True,
       m_vote := v, m_vote_set := True, m_ring_id := ring, m_ring_id_set := True\<rparr>)) \<and>
   decode_frame (build_heuristics_change_reply seq_set seq v) =
     Some (Some (MsgDecoded\<lparr>m_type := MsgType_HEURISTICS_CHANGE_REPLY,
       m_seq_number := (if seq_set then seq else 0), m_seq_number_set := seq_set,
       m_vote := v, m_vote_set := True\<rparr>)) \<and>
   map_option read_u16s (frame_option (build_server_error seq_set seq code) TlvOpt_REPLY_ERROR_CODE) = Some [ReplyErrorCode_u16 code] \<and>
   (let reply = build_init_reply seq_set seq code msgs opts max_req max_rep in
      map_option read_u16s (frame_option reply TlvOpt_REPLY_ERROR_CODE) = Some [ReplyErrorCode_u16 code] \<and>
      map_option read_u16s (frame_option reply TlvOpt_SUPPORTED_MESSAGES) = (if msgs then Some SUPPORTED_MESSAGES else None) \<and>
      map_option read_u16s (frame_option reply TlvOpt_SUPPORTED_OPTIONS) = (if opts then Some SUPPORTED_OPTIONS else None) \<and>
      Option.bind (frame_option reply TlvOpt_SERVER_MAXIMUM_REQUEST_SIZE) (\<lambda>d. be_get32 d 0) = Some max_req \<and>
      Option.bind (frame_option reply TlvOpt_SERVER_MAXIMUM_REPLY_SIZE) (\<lambda>d. be_get32 d 0) = Some max_rep \<and>
      map_option read_u16s (frame_option reply TlvOpt_SUPPORTED_DECISION_ALGORITHMS) = Some [Algorithm_u16 Algorithm_FFSPLIT]) \<and>
   (ReplyErrorCode_u16 code = ReplyErrorCode_u16 code' \<longleftrightarrow> code = code')"
  unfolding Let_def
  by (intro conjI preinit_reply_roundtrip server_error_roundtrip init_reply_roundtrip set_option_reply_roundtrip
      node_list_reply_roundtrip vote_info_roundtrip heuristics_change_reply_roundtrip server_error_option init_reply_options
      ReplyErrorCode_inject)

text \<open>C36: a membership report of a client arrives as it was sent: the same sequence number, ring,
  heuristics result and nodes, in order. A report of more than sixteen nodes is refused.\<close>

theorem membership_report_roundtrip:
  "decode_frame (client_membership seq ring ids h) =
     Some (if length ids \<le> MAX_NODES_PER_LIST
           then Some (MsgDecoded\<lparr>m_type := MsgType_NODE_LIST, m_seq_number := seq, m_seq_number_set := True,
             m_node_list_type := MEMBERSHIP, m_node_list_type_set := True, m_ring_id := ring, m_ring_id_set := True,
             m_heuristics := h, m_nodes := map node ids\<rparr>)
           else None)"
  by (rule membership_roundtrip)

text \<open>C37: an echo reply is the request with its type replaced.\<close>

theorem echo_reply_payload:
  assumes "MSG_HEADER_LEN \<le> length f"
  shows "be_get16 (build_echo_reply f) 0 = Some (MsgType_u16 MsgType_ECHO_REPLY) \<and>
    drop 2 (build_echo_reply f) = drop 2 f \<and> length (build_echo_reply f) = length f"
  using echo_reply_roundtrip [OF assms] by simp

theorem echo_reply_payload_witness: "drop 2 (build_echo_reply (client_echo_request 5)) = drop 2 (client_echo_request 5)"
proof -
  have "MSG_HEADER_LEN \<le> length (client_echo_request 5)" by code_simp
  then show ?thesis using echo_reply_payload by blast
qed

section \<open>Introspection\<close>

text \<open>C38: the number of connected clients is the sum of the members of the clusters.\<close>

theorem connected_clients_members:
  assumes "run es (Server max_rx cb) = Some srv"
  shows "int (connected_clients srv) = (\<Sum>c<MAX_CLUSTERS. cl_members (clusters srv ! c))"
proof -
  have ok: "server_ok srv" using run_total [of es max_rx cb] assms by simp
  have "length (filter (\<lambda>s. phase s = ACTIVE) ss) = (\<Sum>c<MAX_CLUSTERS. length (filter (\<lambda>s. active_in s (int c)) ss))"
    if "\<forall>s\<in>set ss. placed srv s" for ss
    using that by (induction ss) (auto simp: placed_def active_in_def MAX_CLUSTERS_def numeral_2_eq_2 lessThan_Suc)
  moreover have "\<forall>s\<in>set (sessions srv). placed srv s" using ok by (simp add: server_ok_def del: server_ok_length)
  ultimately have "connected_clients srv = (\<Sum>c<MAX_CLUSTERS. length (filter (\<lambda>s. active_in s (int c)) (sessions srv)))"
    by (simp add: connected_clients_def)
  moreover have "cl_members (clusters srv ! c) = int (length (filter (\<lambda>s. active_in s (int c)) (sessions srv)))" if "c < MAX_CLUSTERS" for c
    using server_ok_clusters(1) [OF ok that] by (simp add: cluster_ok_def member_states_def)
  ultimately show ?thesis by simp
qed

theorem connected_clients_members_witness:
  "\<exists>srv. run first_node_acked (Server 32768 True) = Some srv \<and>
     int (connected_clients srv) = (\<Sum>c<MAX_CLUSTERS. cl_members (clusters srv ! c))"
proof -
  obtain srv where "run first_node_acked (Server 32768 True) = Some srv"
    using first_node_acked_run by (auto split: option.splits)
  then show ?thesis using connected_clients_members by blast
qed

section \<open>Framing, outputs and rejections\<close>

text \<open>C21: how the bytes of a peer are cut into calls of \<open>on_data\<close> does not matter. In every reachable
  state a sequence of calls at one time leaves the same sessions, timers and clusters, has
  sent the same frames and closed the same connections in the same order as one call with
  all the bytes. Only the number of calls of the callback may differ.\<close>

theorem fragmentation_irrelevant:
  assumes "run es (Server max_rx cb) = Some srv" and "ds \<noteq> []"
  shows "\<exists>srv1 srv2. run (map (\<lambda>d. Data slot d now) ds) srv = Some srv1 \<and> on_data srv slot (concat ds) now = Some srv2 \<and>
    sessions srv1 = sessions srv2 \<and> clusters srv1 = clusters srv2 \<and> decisions srv1 = decisions srv2 \<and>
    filter (\<lambda>e. e \<noteq> StateChange) (outs srv1) = filter (\<lambda>e. e \<noteq> StateChange) (outs srv2)"
proof -
  have "total.quiet srv" using run_total [of es max_rx cb] assms(1) by (simp add: total.quiet_def)
  from chunks_return [OF this assms(2)] show ?thesis by (metis mute_sel(1,2,5,8))
qed

theorem fragmentation_irrelevant_witness:
  "\<exists>srv srv1 srv2. run [Connect 0 ''peer''] (Server 32768 True) = Some srv \<and>
     run (map (\<lambda>d. Data 0 d 1) [[0, 0, 0], [0, 0], [0, 0, 1]]) srv = Some srv1 \<and>
     on_data srv 0 [0, 0, 0, 0, 0, 0, 0, 1] 1 = Some srv2 \<and> sessions srv1 = sessions srv2"
proof -
  obtain srv where srv: "run [Connect 0 ''peer''] (Server 32768 True) = Some srv" using run_total by blast
  show ?thesis
    using fragmentation_irrelevant [OF srv, of "[[0, 0, 0], [0, 0], [0, 0, 1]]" 0 1] srv by auto
qed

text \<open>C22: whatever the peers send, every frame the server hands to the transport is addressed to a
  slot in range and is complete: its length field counts its payload, and the decoder
  accepts it.\<close>

theorem sent_frames_complete:
  assumes "run es (Server max_rx cb) = Some srv" "SendFrame i f \<in> set (outs srv)"
  shows "i < MAX_CLIENTS \<and> map_option unat (be_get32 f 2) = Some (length f - MSG_HEADER_LEN) \<and>
    (\<exists>m. decode_frame f = Some (Some m))"
  using run_proper [OF assms] by (auto simp: proper_def complete_def framed_def)

theorem sent_frames_complete_witness:
  "\<exists>srv f. run first_node_acked (Server 32768 True) = Some srv \<and> SendFrame 0 f \<in> set (outs srv) \<and>
     map_option unat (be_get32 f 2) = Some (length f - MSG_HEADER_LEN)"
proof -
  obtain srv f where "run first_node_acked (Server 32768 True) = Some srv" "SendFrame 0 f \<in> set (outs srv)"
    using first_node_acked_sends by (auto split: option.splits)
  then show ?thesis using sent_frames_complete by blast
qed

text \<open>C23: whenever a call changes what an embedder can ask for, the server calls the registered
  callback during that call.\<close>

theorem callback_on_change:
  assumes "run es (Server max_rx cb) = Some srv" "server_step e srv = Some srv'" "on_state_change srv"
    and "connected_clients srv' \<noteq> connected_clients srv \<or> decisions srv' \<noteq> decisions srv \<or> any_ack srv' \<noteq> any_ack srv \<or>
      status_string srv' \<noteq> status_string srv"
  shows "StateChange \<in> set (drop (length (outs srv)) (outs srv'))"
proof -
  have "total.quiet srv" using run_total [of es max_rx cb] assms(1) by (simp add: total.quiet_def)
  then have "told srv srv'" using server_step_emits [of srv e] assms(2) by auto
  moreover have "data srv' \<noteq> data srv" using assms(4) data_answers [of srv' srv] by auto
  ultimately show ?thesis using assms(3) by (auto simp: told_def tells_def data_def)
qed

theorem callback_on_change_witness:
  "\<exists>srv srv'. run [Connect 1000 ''test-peer'', feed 0 (client_preinit 1 ''testcluster'')] (Server 32768 True) = Some srv \<and>
     server_step (feed 0 (client_init 2 4 ring_2_100 8000 TieBreaker Algorithm_FFSPLIT)) srv = Some srv' \<and>
     StateChange \<in> set (drop (length (outs srv)) (outs srv'))"
proof -
  obtain srv srv' where s: "run [Connect 1000 ''test-peer'', feed 0 (client_preinit 1 ''testcluster'')] (Server 32768 True) = Some srv"
    "server_step (feed 0 (client_init 2 4 ring_2_100 8000 TieBreaker Algorithm_FFSPLIT)) srv = Some srv'"
    "on_state_change srv" "connected_clients srv' \<noteq> connected_clients srv"
    using joining_run by (auto split: option.splits)
  then show ?thesis using callback_on_change [OF s(1-3)] by blast
qed

text \<open>C24: a header that announces more than the server accepts: the peer is sent the error
  MESSAGE_TOO_LONG, its connection is closed and its slot is free again.\<close>

theorem oversized_frame_closes:
  assumes "run es (Server max_rx cb) = Some srv" "i < MAX_CLIENTS" "phase (sessions srv ! i) \<noteq> FREE"
    and "be_get16 (rx (sessions srv ! i) @ bs) 0 = Some t" "be_get32 (rx (sessions srv ! i) @ bs) 2 = Some p"
    and "p > max_rx_frame srv" "MSG_HEADER_LEN \<le> length (rx (sessions srv ! i) @ bs)"
  shows "\<exists>srv' new. on_data srv (int i) bs now = Some srv' \<and> sessions srv' ! i = Session \<and>
    outs srv' = outs srv @ SendFrame i (build_server_error False 0 MESSAGE_TOO_LONG) # new \<and> CloseConnection i \<in> set new"
proof -
  have "total.quiet srv" using run_total [of es max_rx cb] assms(1) by (simp add: total.quiet_def)
  from oversized_rejected [OF this assms(2-)] show ?thesis unfolding rejected_def by blast
qed

theorem oversized_frame_closes_witness:
  "\<exists>srv srv'. run [Connect 1000 ''test-peer''] (Server 32768 True) = Some srv \<and>
     on_data srv 0 [0, 0, 255, 0, 0, 0] 1001 = Some srv' \<and> sessions srv' ! 0 = Session"
proof -
  obtain srv where srv: "run [Connect 1000 ''test-peer''] (Server 32768 True) = Some srv" "phase (sessions srv ! 0) \<noteq> FREE"
    "rx (sessions srv ! 0) = []" "max_rx_frame srv = 32768"
    using connected_run by (auto split: option.splits)
  have "be_get16 [0, 0, 255, 0, 0, 0] 0 = Some 0 \<and> be_get32 [0, 0, 255, 0, 0, 0] 2 = Some 0xFF000000 \<and>
      (0xFF000000 :: u32) > 32768 \<and> MSG_HEADER_LEN \<le> length [0, 0, 255, 0, 0, 0 :: u8]" by code_simp
  with oversized_frame_closes [OF srv(1), of 0 "[0, 0, 255, 0, 0, 0]" 0 "0xFF000000" 1001] srv show ?thesis
    by (auto simp: MAX_CLIENTS_def)
qed

text \<open>C25: a complete frame whose payload is malformed: the peer is sent the error
  ERROR_DECODING_MSG, its connection is closed and its slot is free again.\<close>

theorem malformed_frame_closes:
  assumes "run es (Server max_rx cb) = Some srv" "i < MAX_CLIENTS" "phase (sessions srv ! i) \<noteq> FREE"
    and "be_get16 (rx (sessions srv ! i) @ bs) 0 = Some t" "be_get32 (rx (sessions srv ! i) @ bs) 2 = Some p"
    and "\<not> p > max_rx_frame srv" "MSG_HEADER_LEN + unat p \<le> length (rx (sessions srv ! i) @ bs)"
    and "msg_decode (MsgType_of t) (take (unat p) (drop MSG_HEADER_LEN (rx (sessions srv ! i) @ bs))) = Some None"
  shows "\<exists>srv' new. on_data srv (int i) bs now = Some srv' \<and> sessions srv' ! i = Session \<and>
    outs srv' = outs srv @ SendFrame i (build_server_error False 0 ERROR_DECODING_MSG) # new \<and> CloseConnection i \<in> set new"
proof -
  have "total.quiet srv" using run_total [of es max_rx cb] assms(1) by (simp add: total.quiet_def)
  from undecodable_rejected [OF this assms(2-)] show ?thesis unfolding rejected_def by blast
qed

theorem malformed_frame_closes_witness:
  "\<exists>srv srv'. run [Connect 1000 ''test-peer''] (Server 32768 True) = Some srv \<and>
     on_data srv 0 [0, 0, 0, 0, 0, 1, 7] 1001 = Some srv' \<and> sessions srv' ! 0 = Session"
proof -
  obtain srv where srv: "run [Connect 1000 ''test-peer''] (Server 32768 True) = Some srv" "phase (sessions srv ! 0) \<noteq> FREE"
    "rx (sessions srv ! 0) = []" "max_rx_frame srv = 32768"
    using connected_run by (auto split: option.splits)
  have "be_get16 [0, 0, 0, 0, 0, 1, 7] 0 = Some 0 \<and> be_get32 [0, 0, 0, 0, 0, 1, 7] 2 = Some 1 \<and> \<not> (1 :: u32) > 32768 \<and>
      MSG_HEADER_LEN + unat (1 :: u32) \<le> length [0, 0, 0, 0, 0, 1, 7 :: u8] \<and>
      msg_decode (MsgType_of 0) (take (unat (1 :: u32)) (drop MSG_HEADER_LEN [0, 0, 0, 0, 0, 1, 7])) = Some None" by code_simp
  with malformed_frame_closes [OF srv(1), of 0 "[0, 0, 0, 0, 0, 1, 7]" 0 1 1001] srv show ?thesis
    by (auto simp: MAX_CLIENTS_def)
qed

section \<open>The ESPHome component\<close>

text \<open>C14: \<open>setup\<close> followed by any number of calls of \<open>loop\<close>, with arbitrary changes of the outside
  world in between, returns: the loops that accept connections and read sockets end, no index
  is out of range and no more is erased from a queue than it holds. Unless \<open>setup\<close> failed, the
  server satisfies its invariant and is idle afterwards.\<close>

theorem component_passes_return:
  assumes "esphome_ok env input"
  shows "\<exists>st. passes env hs (component_setup env (configured p a b v s w)) = Some st \<and>
    (failed (snd st) \<or> server_ok (fst st) \<and> idle (fst st))"
proof -
  obtain srv c where "passes env hs (component_setup env (configured p a b v s w)) = Some (srv, c)" "failed c \<or> in_step env input (srv, c)"
    using passes_from_setup [OF assms, of hs p a b v s w] by auto
  then show ?thesis using in_stepD(1,2) [of env input srv c] by auto
qed

theorem component_passes_return_witness:
  "\<exists>st. passes network_env [\<lambda>w. w, \<lambda>w. w\<lparr>n_waiting := [[0, 0]]\<rparr>] (component_setup network_env (configured 5403 True True True True one_peer)) = Some st \<and>
     (failed (snd st) \<or> server_ok (fst st) \<and> idle (fst st))"
  using component_passes_return [OF network_esphome_ok] .

text \<open>C15: between calls of \<open>loop\<close> the table of connections agrees with the server: a slot is used,
  and has a socket, exactly if the server has a session for it, and nothing is queued in a
  free slot.\<close>

theorem component_connections:
  assumes "esphome_ok env input" "passes env hs (component_setup env (configured p a b v s w)) = Some (srv, c)" "\<not> failed c" "i < MAX_CLIENTS"
  shows "(used (conns c ! i) \<longleftrightarrow> phase (sessions srv ! i) \<noteq> FREE) \<and> (sock (conns c ! i) \<noteq> None \<longleftrightarrow> phase (sessions srv ! i) \<noteq> FREE) \<and>
    (phase (sessions srv ! i) = FREE \<longrightarrow> tx (conns c ! i) = [])"
proof -
  have "in_step env input (srv, c)" using passes_from_setup [OF assms(1), of hs p a b v s w] assms(2,3) by simp
  from in_stepD(4-6) [OF this assms(4)] show ?thesis by blast
qed

theorem component_connections_witness:
  "\<exists>srv c. passes network_env [\<lambda>w. w] (component_setup network_env one_peer_component) = Some (srv, c) \<and>
     used (conns c ! 0) \<and> phase (sessions srv ! 0) \<noteq> FREE"
proof -
  obtain srv c where "passes network_env [\<lambda>w. w] (component_setup network_env one_peer_component) = Some (srv, c)"
    "\<not> failed c" "used (conns c ! 0)"
    using one_peer_pass by (auto split: option.splits)
  then show ?thesis
    using component_connections [OF network_esphome_ok, of "[\<lambda>w. w]" 5403 False False False True one_peer srv c 0]
    by (auto simp: one_peer_component_configured MAX_CLIENTS_def)
qed

text \<open>C16: the bytes of a peer. When the server hands over frames during \<open>on_data\<close>, the bytes its
  socket has accepted so far followed by the queue grow by whole frames, in the order they
  were handed over; none is lost while writes fail only because the socket would block.
  Flushing the queue does not change that sequence of bytes.\<close>

theorem component_frames_in_order:
  assumes "esphome_ok env input" "stream_ok env sent"
    and "passes env hs (component_setup env (configured p a b v s w)) = Some (srv, c)" "\<not> failed c" "owns c i k"
    and "on_data (srv\<lparr>outs := []\<rparr>) slot bs now = Some srv'" "CloseConnection i \<notin> set (outs srv')"
  shows "(\<exists>c' fs. call (component_request env) (\<lambda>srv. on_data srv slot bs now) (srv, c) = Some (srv', c') \<and>
      subseq fs (frames_to i (outs srv')) \<and> (healthy env k \<longrightarrow> fs = frames_to i (outs srv')) \<and>
      stream sent i k c' = stream sent i k c @ concat fs) \<and>
    (\<exists>c'. flush_tx env i (conns c ! i) k c = Some c' \<and> stream sent i k c' = stream sent i k c)"
proof -
  have st: "in_step env input (srv, c)" using passes_from_setup [OF assms(1), of hs p a b v s w] assms(3,4) by simp
  have ok: "component_ok env input c" using in_step_ok [OF st] by simp
  obtain st' where run: "call (component_request env) (\<lambda>srv. on_data srv slot bs now) (srv, c) = Some st'"
    using esp.call_data [OF st] by blast
  then obtain c' where c': "st' = (srv', c')" "fold_ub (component_request env) (outs srv') c = Some c'"
    using assms(6) by (auto simp: call_def bind_eq_Some_conv)
  have "total.quiet (srv\<lparr>outs := []\<rparr>)" using st by (simp add: esp.in_step_def)
  from total.on_data_inv [OF this, of slot bs now] assms(6)
  have "\<forall>e\<in>set (outs srv'). is_send e \<or> (\<exists>j<MAX_CLIENTS. e = CloseConnection j)" by (auto simp: emits_def; blast)
  from requests_stream [OF ok assms(2,5) c'(2) this assms(7)] run c'(1)
  have "\<exists>c' fs. call (component_request env) (\<lambda>srv. on_data srv slot bs now) (srv, c) = Some (srv', c') \<and>
      subseq fs (frames_to i (outs srv')) \<and> (healthy env k \<longrightarrow> fs = frames_to i (outs srv')) \<and>
      stream sent i k c' = stream sent i k c @ concat fs" by blast
  moreover have "i < MAX_CLIENTS" "live (conns c ! i) = Some k" using assms(5) by (simp_all add: owns_def)
  then obtain c2 where "flush_tx env i (conns c ! i) k c = Some c2" using flush_tx_in_step [OF st] by blast
  ultimately show ?thesis using flush_stream [OF assms(2,5) _ in_stepD(3) [OF st]] by blast
qed

theorem component_frames_in_order_witness:
  "\<exists>srv c srv' c'. passes network_env [\<lambda>w. w] (component_setup network_env one_peer_component) = Some (srv, c) \<and>
     call (component_request network_env) (\<lambda>srv. on_data srv 0 (client_preinit 2 ''testcluster'') 7) (srv, c) = Some (srv', c') \<and>
     stream n_sent 0 0 c' = stream n_sent 0 0 c @ build_server_error True 2 UNEXPECTED_MESSAGE"
proof -
  obtain srv c where c: "passes network_env [\<lambda>w. w] (component_setup network_env one_peer_component) = Some (srv, c)" "\<not> failed c"
    and own: "owns c 0 0" using one_peer_owns .
  obtain srv' where srv': "on_data (srv\<lparr>outs := []\<rparr>) 0 (client_preinit 2 ''testcluster'') 7 = Some srv'" "CloseConnection 0 \<notin> set (outs srv')"
    "frames_to 0 (outs srv') = [build_server_error True 2 UNEXPECTED_MESSAGE]"
    using one_peer_again c(1) by (auto split: option.splits)
  from component_frames_in_order [OF network_esphome_ok network_stream_ok c [unfolded one_peer_component_configured] own srv'(1,2)] srv'(3)
  obtain c' where "call (component_request network_env) (\<lambda>srv. on_data srv 0 (client_preinit 2 ''testcluster'') 7) (srv, c) = Some (srv', c')"
    "stream n_sent 0 0 c' = stream n_sent 0 0 c @ concat [build_server_error True 2 UNEXPECTED_MESSAGE]"
    using network_healthy by metis
  with c(1) show ?thesis by auto
qed

text \<open>C18: the clock. If the component read its clock at the time \<open>t\<close> and reads it again at \<open>t'\<close>, less
  than 2^32 milliseconds later, the 32-bit counter is extended to the exact time, across any
  number of wraps so far.\<close>

theorem component_clock:
  assumes "clock_at c t" "millis env (world c) = (of_nat t', w)" "t \<le> t'" "t' < t + 2 ^ 32" "t' < 2 ^ 64"
  shows "unat (fst (now_ms env c)) = t' \<and> clock_at (snd (now_ms env c)) t'"
  using now_ms_exact [OF assms(1-4)] unat_of_nat_small [where 'a = 64, of t'] assms(5) by auto

theorem component_clock_witness:
  "unat (fst (now_ms (network_env\<lparr>millis := \<lambda>w. (4, w)\<rparr>) ((QnetdComponent one_peer :: (nat, network) component)\<lparr>last_millis := 4294967290\<rparr>))) = 4294967300"
proof -
  have "clock_at ((QnetdComponent one_peer :: (nat, network) component)\<lparr>last_millis := 4294967290\<rparr>) 4294967290"
    by (simp add: clock_at_def QnetdComponent_def)
  from component_clock [OF this, of "network_env\<lparr>millis := \<lambda>w. (4, w)\<rparr>" 4294967300 one_peer] show ?thesis
    by (simp add: QnetdComponent_def)
qed

text \<open>C17: the sensors. After a call of \<open>loop\<close> every attached sensor shows what the server answers
  now, unless the sensors did not do so before and nothing about the server changed.\<close>

theorem sensors_current:
  assumes "esphome_ok env input" "sensors_ok env display" "passes env hs (component_setup env (configured p a b v s w)) = Some st"
    and "\<not> failed (snd st)" "component_loop env (fst st, (snd st)\<lparr>world := w'\<rparr>) = Some st'"
  shows "shown display st' \<or> \<not> shown display (fst st, (snd st)\<lparr>world := w'\<rparr>) \<and> data (fst st') = data (fst st)"
proof -
  have st: "in_step env input st" "on_state_change (fst st)" using passes_callback [OF assms(2,1,3)] assms(4) by simp_all
  have "in_step env input (fst st, (snd st)\<lparr>world := w'\<rparr>)" using in_step_world [of env input "fst st" "snd st"] st(1) by simp
  from component_loop_shown [OF assms(2) _ this _ assms(5)] st(2) assms(4) show ?thesis by simp
qed

theorem sensors_current_witness:
  "\<exists>st st'. passes network_env [\<lambda>w. w] (component_setup network_env one_peer_component) = Some st \<and>
     component_loop network_env (fst st, (snd st)\<lparr>world := world (snd st)\<rparr>) = Some st' \<and>
     (shown n_display st' \<or> \<not> shown n_display (fst st, (snd st)\<lparr>world := world (snd st)\<rparr>) \<and> data (fst st') = data (fst st))"
proof -
  obtain st where st: "passes network_env [\<lambda>w. w] (component_setup network_env one_peer_component) = Some st" "\<not> failed (snd st)"
    using one_peer_pass by (auto split: option.splits)
  obtain st' where "component_loop network_env (fst st, (snd st)\<lparr>world := world (snd st)\<rparr>) = Some st'"
    using component_loop_in_step [of network_env n_input st] passes_from_setup [OF network_esphome_ok, of "[\<lambda>w. w]" 5403 False False False True one_peer] st
    by (auto simp: one_peer_component_configured)
  with sensors_current [OF network_esphome_ok network_sensors_ok st(1) [unfolded one_peer_component_configured] st(2)] st(1)
  show ?thesis by blast
qed

section \<open>The host program\<close>

text \<open>C19: once the program listens, any number of rounds of its main loop either ends the program or
  completes. If it ends, the exit status is 1, or \<open>SIGPIPE\<close> killed it, which needs a \<open>send\<close> that
  raises the signal, or it is blocked for good in a call that does not return. If the rounds
  complete, the server satisfies its invariant, is idle, and the table has a descriptor exactly
  for the slots with a session.\<close>

theorem host_rounds_return:
  assumes "posix_ok env signals" "main_setup env argv w = Some (Inr (ls, st))"
  shows "(\<exists>how. main_rounds env ls n st = Some (Inl how) \<and>
      (how = Exit 1 \<or> how = Killed_by_SIGPIPE \<and> can_raise_SIGPIPE env \<or> how = Blocked \<and> can_hang env)) \<or>
    (\<exists>srv t. main_rounds env ls n st = Some (Inr (srv, t)) \<and> ended t = None \<and> server_ok srv \<and> idle srv \<and>
      (\<forall>i<MAX_CLIENTS. 0 \<le> fds t ! i \<longleftrightarrow> phase (sessions srv ! i) \<noteq> FREE))"
proof -
  have "host_in_step env signals st" "ended (snd st) = None" "0 \<le> ls" "ls < FD_SETSIZE" using main_setup_in_step [OF assms] by simp_all
  from main_rounds_in_step [OF this, of n] show ?thesis
  proof
    assume "\<exists>st'. main_rounds env ls n st = Some (Inr st') \<and> host_in_step env signals st' \<and> ended (snd st') = None"
    then obtain srv t where "main_rounds env ls n st = Some (Inr (srv, t))" "host_in_step env signals (srv, t)" "ended t = None" by auto
    then show ?thesis using host_in_stepD(1,2,4) by blast
  qed (auto simp: cut_short_def)
qed

theorem host_rounds_return_witness:
  "\<exists>st srv t. main_setup hostnet_env [''qnetd_lite'', ''5404''] one_caller = Some (Inr (3, st)) \<and>
     main_rounds hostnet_env 3 2 st = Some (Inr (srv, t)) \<and> server_ok srv \<and> (0 \<le> fds t ! 0 \<longleftrightarrow> phase (sessions srv ! 0) \<noteq> FREE)"
proof -
  obtain st srv t where st: "main_setup hostnet_env [''qnetd_lite'', ''5404''] one_caller = Some (Inr (3, st))"
    "main_rounds hostnet_env 3 2 st = Some (Inr (srv, t))" using one_caller_runs .
  with host_rounds_return [OF hostnet_posix_ok st(1), of 2] show ?thesis by (auto simp: MAX_CLIENTS_def)
qed

text \<open>C20: the loop that sends a frame ends, however often signals interrupt it. The socket then has
  accepted a prefix of the frame. It has accepted all of it, and the program goes on, if
  \<open>send\<close> always returns and only ever fails because of a signal; the program goes on in any case
  unless \<open>send\<close> raised \<open>SIGPIPE\<close> or did not return.\<close>

theorem host_send_returns:
  assumes "posix_ok env signals" "sends env sent" "fds t ! slot \<ge> 0" "slot < length (fds t)"
  shows "\<exists>t' m. host_send_frame env slot f t = Some t' \<and> fds t' = fds t \<and> m \<le> length f \<and>
    sent (fds t ! slot) (outside t') = sent (fds t ! slot) (outside t) @ take m f \<and>
    (\<forall>how. ended t' = Some how \<longrightarrow> how = Killed_by_SIGPIPE \<and> can_raise_SIGPIPE env \<or> how = Blocked \<and> can_hang env) \<and>
    ((\<forall>bs w. bs \<noteq> [] \<longrightarrow> (\<exists>n e w'. p_send env (fds t ! slot) bs 0 w = Returns (n, e, w') \<and> (n > 0 \<or> e = EINTR))) \<longrightarrow>
       m = length f \<and> ended t' = None)"
proof -
  obtain w' e where w': "send_loop env (fds t ! slot) f 0 (outside t) = Some (w', e)" "\<forall>how. e = Some how \<longrightarrow> cut_short env how"
    using send_loop_returns [OF assms(1)] by blast
  moreover have "host_send_frame env slot f t = Some (t\<lparr>outside := w', ended := e\<rparr>)"
    using w' assms(3,4) by (simp add: host_send_frame_def)
  ultimately show ?thesis using send_loop_sends [OF w'(1), of sent] assms(2) by (auto simp: willing_def cut_short_def)
qed

theorem host_send_returns_witness:
  "\<exists>t'. host_send_frame faithful_env 0 [1, 2, 3] ((PosixTransport one_caller)\<lparr>fds := [4]\<rparr>) = Some t' \<and>
     h_written (outside t') 4 = [1, 2, 3]"
proof -
  obtain t' m where "host_send_frame faithful_env 0 [1, 2, 3] ((PosixTransport one_caller)\<lparr>fds := [4]\<rparr>) = Some t'"
    "h_written (outside t') 4 = h_written one_caller 4 @ take m [1, 2, 3]" "m = 3"
    using host_send_returns [OF faithful_posix_ok faithful_sends, of "(PosixTransport one_caller)\<lparr>fds := [4]\<rparr>" 0 "[1, 2, 3]"] faithful_willing
    by (auto simp: PosixTransport_def willing_def)
  then show ?thesis by (simp add: one_caller_def)
qed



section \<open>A flaw\<close>

text \<open>C40: a repeated INIT is refused but not ignored. In every reachable state, when an active client
  with an empty receive buffer sends an INIT that carries the node id of another active client of
  its cluster, it is sent an INIT reply with the error for an unexpected message and stays
  active in its cluster, but its session takes over the node id. Two active clients of one
  cluster then have the same node id, which the check for duplicate node ids is there to
  prevent. This is why the properties of the votes assume that a peer does not repeat INIT.\<close>

theorem refused_init_duplicates_node_id:
  assumes "run es (Server max_rx cb) = Some srv" and "i < MAX_CLIENTS" "j < MAX_CLIENTS" "i \<noteq> j"
    and "active_in (sessions srv ! i) c" "active_in (sessions srv ! j) c" "rx (sessions srv ! i) = []"
    and "framed f (drop MSG_HEADER_LEN f)" "be_get16 f 0 = Some t" "MsgType_of t = MsgType_INIT"
    and "length (drop MSG_HEADER_LEN f) \<le> unat (max_rx_frame srv)"
    and "msg_decode MsgType_INIT (drop MSG_HEADER_LEN f) = Some (Some m)" "m_node_id m = node_id (sessions srv ! j)"
  shows "\<exists>srv' new. run (es @ [Data (int i) f now]) (Server max_rx cb) = Some srv' \<and>
    outs srv' = outs srv @ SendFrame i (build_init_reply (m_seq_number_set m) (m_seq_number m) UNEXPECTED_MESSAGE
      (m_supported_messages_present m) (m_supported_options_present m) (max_rx_frame srv) (max_rx_frame srv)) # new \<and>
    active_in (sessions srv' ! i) c \<and> active_in (sessions srv' ! j) c \<and> node_id (sessions srv' ! i) = node_id (sessions srv' ! j)"
proof -
  have q: "total.quiet srv" using run_total [of es max_rx cb] assms(1) by (simp add: total.quiet_def)
  have act: "phase (sessions srv ! i) = ACTIVE" using assms(5) by (simp add: active_in_def)
  show ?thesis
    by (rule on_data_refused_init [OF q assms(2) act assms(7-12)])
      (use assms in \<open>auto simp: run_snoc active_in_def\<close>)
qed

theorem refused_init_duplicates_node_id_witness:
  "\<exists>srv'. run (two_joined @ [feed 0 repeated_init]) (Server 32768 True) = Some srv' \<and>
     active_in (sessions srv' ! 0) 0 \<and> active_in (sessions srv' ! 1) 0 \<and> node_id (sessions srv' ! 0) = node_id (sessions srv' ! 1)"
proof -
  obtain srv where srv: "run two_joined (Server 32768 True) = Some srv" "active_in (sessions srv ! 0) 0" "active_in (sessions srv ! 1) 0"
    "rx (sessions srv ! 0) = []" and id: "node_id (sessions srv ! 1) = 2" and max: "max_rx_frame srv = 32768"
    using two_joined_ids by (auto split: option.splits)
  obtain m where m: "msg_decode MsgType_INIT (drop MSG_HEADER_LEN repeated_init) = Some (Some m)" "m_node_id m = 2"
    using repeated_init_decodes by (auto split: option.splits)
  have "0 < MAX_CLIENTS" "1 < MAX_CLIENTS" "0 \<noteq> (1::nat)" by (simp_all add: MAX_CLIENTS_def)
  moreover have "MsgType_of (MsgType_u16 MsgType_INIT) = MsgType_INIT" "length (drop MSG_HEADER_LEN repeated_init) \<le> unat (max_rx_frame srv)"
    "m_node_id m = node_id (sessions srv ! 1)" using max id m(2) repeated_init_frame(3) by simp_all
  ultimately show ?thesis
    using refused_init_duplicates_node_id [OF srv(1) _ _ _ srv(2-4) repeated_init_frame(1,2) _ _ m(1), where now = 1000]
    by (auto simp: feed_def)
qed

end
